(* ===== verification/Rl_Prelude.thy ===== *)
theory Rl_Prelude
  imports Main "HOL-Library.Word"
begin

text \<open>
  Shared vocabulary of the development: the machine types of \<^verbatim>\<open>src/src/util.h\<close>, a flat byte
  memory for the code that works through raw pointers, C strings, the conversions between
  the C integer types the code performs, and the generic lemmas on lists, memory ranges and
  words that the component theories rely on.

  A pointer is an address (a \<open>nat\<close>), the memory a total function from addresses to bytes.
  Reading a cell that no object owns is therefore not an error of the model: the theorems
  that speak of memory safety say instead which cells a routine may read (its result is the
  same for every memory that agrees on them) and which cells it may change.
\<close>

section \<open>Machine types\<close>

type_synonym rl_uint8 = "8 word"
type_synonym rl_uint16 = "16 word"
type_synonym rl_uint32 = "32 word"

text \<open>A C string is the list of its bytes before the terminating zero.\<close>

type_synonym cstring = "rl_uint8 list"

type_synonym mem = "nat \<Rightarrow> rl_uint8"

text \<open>
  The \<open>named_theorems\<close> collections: \<open>mem_simps\<close> for reads and writes of memory ranges,
  \<open>c_arith\<close> for the C integer conversions.
\<close>

named_theorems mem_simps "reads and writes of memory ranges"
named_theorems c_arith "C integer conversions"

section \<open>C integers\<close>

text \<open>
  Conversion of an arbitrary integer value to a 32-bit \<^verbatim>\<open>int\<close>, as the casts
  \<^verbatim>\<open>(int) x\<close> and the assignments to \<^verbatim>\<open>int\<close> variables do.
\<close>

definition to_int32 :: "int \<Rightarrow> int" where
  "to_int32 i = signed_take_bit 31 i"

lemma to_int32_id [c_arith]: "- (2 ^ 31) \<le> i \<Longrightarrow> i < 2 ^ 31 \<Longrightarrow> to_int32 i = i"
  unfolding to_int32_def by (rule signed_take_bit_int_eq_self) simp_all

lemma to_int32_bounds: "- (2 ^ 31) \<le> to_int32 i" "to_int32 i < 2 ^ 31"
  using signed_take_bit_int_greater_eq_minus_exp [of 31 i] signed_take_bit_int_less_exp [of 31 i]
  by (simp_all add: to_int32_def)

lemma to_int32_uint:
  fixes w :: rl_uint32
  shows "to_int32 (uint w) = (if uint w < 2 ^ 31 then uint w else uint w - 2 ^ 32)"
proof -
  have bnd: "uint w < 2 ^ 32" "0 \<le> uint w"
    using uint_lt2p [of w] by simp_all
  have "(uint w + 2 ^ 31) mod 2 ^ 32 = uint w + 2 ^ 31 - 2 ^ 32"
    if "\<not> uint w < 2 ^ 31"
  proof -
    have "(uint w + 2 ^ 31) mod 2 ^ 32 = (uint w + 2 ^ 31 - 2 ^ 32) mod 2 ^ 32"
      by (rule minus_mod_self2 [symmetric])
    also have "\<dots> = uint w + 2 ^ 31 - 2 ^ 32"
      using that bnd by (intro mod_pos_pos_trivial) simp_all
    finally show ?thesis .
  qed
  with bnd show ?thesis
    by (auto simp: to_int32_def signed_take_bit_eq_take_bit_shift take_bit_eq_mod)
qed

section \<open>C strings\<close>

text \<open>The bytes of a string literal.\<close>

definition lit :: "string \<Rightarrow> cstring" where
  "lit s = map of_char s"

lemma lit_Nil [simp]: "lit [] = []"
  and lit_Cons [simp]: "lit (c # cs) = of_char c # lit cs"
  by (simp_all add: lit_def)

lemma length_lit [simp]: "length (lit s) = length s"
  by (simp add: lit_def)

text \<open>A byte list is a C string value if it holds no zero byte.\<close>

definition nul_free :: "rl_uint8 list \<Rightarrow> bool" where
  "nul_free xs = list_all (\<lambda>c. c \<noteq> 0) xs"

lemma nul_free_simps [simp]:
  "nul_free []"
  "nul_free (x # xs) = (x \<noteq> 0 \<and> nul_free xs)"
  "nul_free (xs @ ys) = (nul_free xs \<and> nul_free ys)"
  by (simp_all add: nul_free_def)

lemma nul_free_iff: "nul_free xs \<longleftrightarrow> 0 \<notin> set xs"
  by (auto simp: nul_free_def list_all_iff)

lemma nul_free_takeWhile [simp]: "nul_free (takeWhile (\<lambda>c. c \<noteq> 0) xs)"
  by (auto simp: nul_free_iff dest: set_takeWhileD)

lemma nul_free_take [simp]: "nul_free xs \<Longrightarrow> nul_free (take n xs)"
  by (auto simp: nul_free_iff dest: in_set_takeD)

lemma nul_free_drop: "nul_free xs \<Longrightarrow> nul_free (drop n xs)"
  by (auto simp: nul_free_iff dest: in_set_dropD)

lemma takeWhile_nul_free [simp]: "nul_free xs \<Longrightarrow> takeWhile (\<lambda>c. c \<noteq> 0) xs = xs"
  by (auto simp: nul_free_iff takeWhile_eq_all_conv)

lemma takeWhile_nul_free_append [simp]:
  "nul_free xs \<Longrightarrow> takeWhile (\<lambda>c. c \<noteq> 0) (xs @ 0 # ys) = xs"
  by (induction xs) auto

section \<open>Memory ranges\<close>

definition mread :: "mem \<Rightarrow> nat \<Rightarrow> nat \<Rightarrow> rl_uint8 list" where
  "mread m a n = map m [a..<a + n]"

definition mwrite :: "mem \<Rightarrow> nat \<Rightarrow> rl_uint8 list \<Rightarrow> mem" where
  "mwrite m a xs = (\<lambda>i. if a \<le> i \<and> i < a + length xs then xs ! (i - a) else m i)"

lemma length_mread [simp]: "length (mread m a n) = n"
  by (simp add: mread_def)

lemma mread_0 [simp]: "mread m a 0 = []"
  by (simp add: mread_def)

lemma mread_Suc: "mread m a (Suc n) = m a # mread m (Suc a) n"
proof -
  have "[a..<a + Suc n] = a # [Suc a..<Suc a + n]"
    by (subst upt_conv_Cons) simp_all
  then show ?thesis by (simp add: mread_def)
qed

lemma nth_mread [simp]: "i < n \<Longrightarrow> mread m a n ! i = m (a + i)"
  by (simp add: mread_def)

lemma mread_add: "mread m a (j + k) = mread m a j @ mread m (a + j) k"
  by (rule nth_equalityI) (auto simp: nth_append)

lemma mread_cong: "(\<And>i. a \<le> i \<Longrightarrow> i < a + n \<Longrightarrow> m i = m' i) \<Longrightarrow> mread m a n = mread m' a n"
  by (simp add: mread_def)

lemma take_mread [simp]: "take k (mread m a n) = mread m a (min k n)"
  by (rule nth_equalityI) auto

lemma drop_mread [simp]: "drop k (mread m a n) = mread m (a + k) (n - k)"
  by (rule nth_equalityI) (auto simp: add.assoc)

lemma mwrite_Nil [simp]: "mwrite m a [] = m"
  by (rule ext) (auto simp: mwrite_def)

lemma mwrite_Cons: "mwrite m a (x # xs) = mwrite (m(a := x)) (Suc a) xs"
  by (rule ext) (auto simp: mwrite_def nth_Cons' not_less_eq_eq Suc_le_eq)

lemma mwrite_append: "mwrite m a (xs @ ys) = mwrite (mwrite m a xs) (a + length xs) ys"
  by (rule ext) (auto simp: mwrite_def nth_append)

lemma mwrite_outside [mem_simps]: "i < a \<or> a + length xs \<le> i \<Longrightarrow> mwrite m a xs i = m i"
  by (auto simp: mwrite_def)

lemma mwrite_inside [mem_simps]: "i < length xs \<Longrightarrow> mwrite m a xs (a + i) = xs ! i"
  by (simp add: mwrite_def)

lemma mread_mwrite_same [simp]: "mread (mwrite m a xs) a (length xs) = xs"
  by (rule nth_equalityI) (auto simp: mwrite_def)

lemma mread_mwrite_same' [mem_simps]: "n = length xs \<Longrightarrow> mread (mwrite m a xs) a n = xs"
  by simp

lemma mread_mwrite_other [mem_simps]:
  "b + n \<le> a \<or> a + length xs \<le> b \<Longrightarrow> mread (mwrite m a xs) b n = mread m b n"
  by (rule mread_cong) (auto simp: mwrite_def)

lemma mread_mwrite_prefix:
  "n \<le> length xs \<Longrightarrow> mread (mwrite m a xs) a n = take n xs"
  by (rule nth_equalityI) (auto simp: mwrite_def)

lemma mread_mwrite_inner:
  "k + n \<le> length xs \<Longrightarrow> mread (mwrite m a xs) (a + k) n = take n (drop k xs)"
  by (rule nth_equalityI) (auto simp: mwrite_def add.assoc)

text \<open>A C string stored at an address: its bytes, then a zero.\<close>

definition str_at :: "mem \<Rightarrow> nat \<Rightarrow> cstring \<Rightarrow> bool" where
  "str_at m a s = (nul_free s \<and> mread m a (length s + 1) = s @ [0])"

lemma str_at_Nil [simp]: "str_at m a [] = (m a = 0)"
  by (simp add: str_at_def mread_Suc)

lemma str_at_Cons [simp]: "str_at m a (c # s) = (c \<noteq> 0 \<and> m a = c \<and> str_at m (Suc a) s)"
  by (auto simp: str_at_def mread_Suc)

lemma str_at_nul_free: "str_at m a s \<Longrightarrow> nul_free s"
  by (simp add: str_at_def)

lemma str_at_append:
  "str_at m a (s @ t) \<longleftrightarrow> nul_free s \<and> mread m a (length s) = s \<and> str_at m (a + length s) t"
  unfolding str_at_def length_append add.assoc mread_add by auto

lemma str_at_unique: "str_at m a s \<Longrightarrow> str_at m a t \<Longrightarrow> s = t"
proof (induction s arbitrary: a t)
  case Nil
  then show ?case by (cases t) auto
next
  case (Cons c s)
  then show ?case by (cases t) auto
qed

lemma str_at_mwrite: "nul_free s \<Longrightarrow> str_at (mwrite m a (s @ [0])) a s"
  by (simp add: str_at_def mread_mwrite_same')

lemma str_at_cong:
  "str_at m a s \<Longrightarrow> (\<And>i. a \<le> i \<Longrightarrow> i \<le> a + length s \<Longrightarrow> m' i = m i) \<Longrightarrow> str_at m' a s"
  unfolding str_at_def by (auto cong: mread_cong)

section \<open>Lists\<close>

lemma take_append_min: "take n xs @ take (n - length xs) ys = take n (xs @ ys)"
  by simp

lemma dropWhile_eq_drop_takeWhile: "dropWhile P xs = drop (length (takeWhile P xs)) xs"
  by (induction xs) auto

lemma dropWhile_hd_not: "dropWhile P xs = y # ys \<Longrightarrow> \<not> P y"
  by (induction xs) (auto split: if_splits)

lemma length_dropWhile_lt: "dropWhile P xs = y # ys \<Longrightarrow> length ys < length xs"
  by (metis length_Cons length_dropWhile_le Suc_le_eq)

section \<open>Words\<close>

lemma uint_of_nat_small [simp]:
  "n < 2 ^ LENGTH('a) \<Longrightarrow> unat (of_nat n :: 'a::len word) = n"
  by (simp add: unat_of_nat take_bit_nat_eq_self)

lemma unat_ucast_8_32 [simp]: "unat (ucast (x :: rl_uint8) :: rl_uint32) = unat x"
proof -
  have "unat x < 2 ^ 32"
    using unsigned_less [of x] by (rule less_trans) simp
  then show ?thesis
    by (simp add: unsigned_ucast_eq take_bit_nat_eq_self)
qed

end
