(* ===== verification/Rl_Memory.thy ===== *)
theory Rl_Memory
  imports Rl_Prelude
begin

text \<open>
  The memory and string routines of \<^verbatim>\<open>src/src/util.c\<close>: the replacements of the C library
  used on the Amiga (\<open>rl_memcpy\<close>, \<open>rl_memmove\<close>, \<open>rl_memset\<close>, \<open>rl_strlen\<close>, \<open>rl_strchr\<close>,
  \<open>rl_strcmp\<close>), the bounded copy \<open>rl_string_copy\<close>, the bounded string builder
  \<open>rl_strbuf_*\<close> and the byte swaps. Each is modelled cell by cell over the flat memory of
  \<open>Rl_Prelude\<close>, loops as recursions; a loop that only stops when it meets a terminator is a
  partial function whose value \<open>None\<close> means that it does not return.
  The lemmas relate every routine to a one-line specification over memory ranges
  (\<open>mread\<close>/\<open>mwrite\<close>) and C strings (\<open>str_at\<close>).
\<close>

section \<open>Block operations\<close>

fun rl_memcpy :: "mem \<Rightarrow> nat \<Rightarrow> nat \<Rightarrow> nat \<Rightarrow> mem" where
  "rl_memcpy m dest src 0 = m"
| "rl_memcpy m dest src (Suc len) = rl_memcpy (m(dest := m src)) (Suc dest) (Suc src) len"

text \<open>The loop of \<open>rl_memmove\<close> that runs from the end of both blocks downwards.\<close>

fun memmove_down :: "mem \<Rightarrow> nat \<Rightarrow> nat \<Rightarrow> nat \<Rightarrow> mem" where
  "memmove_down m dst src 0 = m"
| "memmove_down m dst src (Suc len) =
     memmove_down (m(dst - 1 := m (src - 1))) (dst - 1) (src - 1) len"

definition rl_memmove :: "mem \<Rightarrow> nat \<Rightarrow> nat \<Rightarrow> nat \<Rightarrow> mem" where
  "rl_memmove m dst src len =
     (if src < dst then memmove_down m (dst + len) (src + len) len
      else if dst < src then rl_memcpy m dst src len
      else m)"

fun rl_memset :: "mem \<Rightarrow> nat \<Rightarrow> rl_uint8 \<Rightarrow> nat \<Rightarrow> mem" where
  "rl_memset m dest value 0 = m"
| "rl_memset m dest value (Suc len) = rl_memset (m(dest := value)) (Suc dest) value len"

text \<open>
  The forward copy is right when the destination starts at or before the source, or when
  the two blocks do not overlap.
\<close>

lemma rl_memcpy_forward:
  "dest \<le> src \<or> src + len \<le> dest \<Longrightarrow> rl_memcpy m dest src len = mwrite m dest (mread m src len)"
proof (induction len arbitrary: m dest src)
  case 0
  then show ?case by simp
next
  case (Suc len)
  have "mread (m(dest := m src)) (Suc src) len = mread m (Suc src) len"
    using Suc.prems by (intro mread_cong) auto
  moreover have "Suc dest \<le> Suc src \<or> Suc src + len \<le> Suc dest"
    using Suc.prems by auto
  ultimately show ?case
    by (simp only: rl_memcpy.simps Suc.IH mread_Suc mwrite_Cons)
qed

lemma memmove_down_correct:
  "src \<le> dst \<Longrightarrow> memmove_down m (dst + len) (src + len) len = mwrite m dst (mread m src len)"
proof (induction len arbitrary: m)
  case 0
  then show ?case by simp
next
  case (Suc len)
  let ?m = "m(dst + len := m (src + len))"
  have "mread ?m src len = mread m src len"
    using Suc.prems by (intro mread_cong) auto
  moreover have "mread m src (Suc len) = mread m src len @ [m (src + len)]"
    using mread_add [of m src len 1] by (simp add: mread_Suc)
  moreover have "mwrite (m(dst + len := v)) dst xs = mwrite m dst (xs @ [v])"
    if "length xs = len" for v xs
    using that by (auto simp: mwrite_def nth_append fun_eq_iff)
  moreover have "memmove_down m (dst + Suc len) (src + Suc len) (Suc len) =
                   memmove_down ?m (dst + len) (src + len) len"
    by simp
  ultimately show ?case
    by (simp only: Suc.IH [OF Suc.prems] length_mread)
qed

lemma rl_memmove_eq: "rl_memmove m dst src len = mwrite m dst (mread m src len)"
proof -
  have "mwrite m a (mread m a len) = m" for a
    by (auto simp: mwrite_def fun_eq_iff)
  then show ?thesis
    by (auto simp: rl_memmove_def memmove_down_correct rl_memcpy_forward)
qed

lemma rl_memset_eq: "rl_memset m dest v len = mwrite m dest (replicate len v)"
  by (induction len arbitrary: m dest) (simp_all add: mwrite_Cons)

section \<open>Byte swaps\<close>

definition byte_swap2 :: "mem \<Rightarrow> nat \<Rightarrow> mem" where
  "byte_swap2 m ptr =
     (let tmp0 = m ptr;
          m = m(ptr := m (ptr + 1))
      in m(ptr + 1 := tmp0))"

definition byte_swap4 :: "mem \<Rightarrow> nat \<Rightarrow> mem" where
  "byte_swap4 m ptr =
     (let tmp0 = m ptr;
          tmp1 = m (ptr + 1);
          m = m(ptr := m (ptr + 3));
          m = m(ptr + 1 := m (ptr + 2));
          m = m(ptr + 2 := tmp1)
      in m(ptr + 3 := tmp0))"

lemma byte_swap2_rev: "byte_swap2 m p = mwrite m p (rev (mread m p 2))"
  by (auto simp: byte_swap2_def Let_def numeral_eq_Suc mread_Suc mwrite_Cons)

lemma byte_swap4_rev: "byte_swap4 m p = mwrite m p (rev (mread m p 4))"
  by (auto simp: byte_swap4_def Let_def numeral_eq_Suc mread_Suc mwrite_Cons)

section \<open>String scans\<close>

partial_function (option) rl_strlen_loop :: "mem \<Rightarrow> nat \<Rightarrow> nat \<Rightarrow> nat option" where
  "rl_strlen_loop m str result =
     (if m str \<noteq> 0 then rl_strlen_loop m (Suc str) (Suc result) else Some result)"

definition rl_strlen :: "mem \<Rightarrow> nat \<Rightarrow> nat option" where
  "rl_strlen m str = rl_strlen_loop m str 0"

text \<open>\<open>Some None\<close> is the null pointer.\<close>

partial_function (option) rl_strchr :: "mem \<Rightarrow> nat \<Rightarrow> rl_uint8 \<Rightarrow> nat option option" where
  "rl_strchr m input ch =
     (let test = m input
      in if ch = test then Some (Some input)
         else if test \<noteq> 0 then rl_strchr m (Suc input) ch
         else Some None)"

partial_function (option) rl_strcmp :: "mem \<Rightarrow> nat \<Rightarrow> nat \<Rightarrow> int option" where
  "rl_strcmp m s1 s2 =
     (if m s1 = m s2
      then if m s1 = 0 then Some 0 else rl_strcmp m (Suc s1) (Suc s2)
      else Some (uint (m s1) - uint (m s2)))"

lemma rl_strlen_loop_correct: "str_at m a s \<Longrightarrow> rl_strlen_loop m a n = Some (n + length s)"
proof (induction s arbitrary: a n)
  case Nil
  then show ?case by (subst rl_strlen_loop.simps) simp
next
  case (Cons c s)
  then show ?case by (subst rl_strlen_loop.simps) simp
qed

lemma rl_strlen_correct: "str_at m a s \<Longrightarrow> rl_strlen m a = Some (length s)"
  by (simp add: rl_strlen_def rl_strlen_loop_correct)

lemma rl_strchr_correct:
  "str_at m a s \<Longrightarrow> ch \<noteq> 0 \<Longrightarrow>
     rl_strchr m a ch =
       Some (if ch \<in> set s then Some (a + length (takeWhile (\<lambda>c. c \<noteq> ch) s)) else None)"
proof (induction s arbitrary: a)
  case Nil
  then show ?case by (subst rl_strchr.simps) auto
next
  case (Cons c s)
  then show ?case by (subst rl_strchr.simps) (auto simp: Let_def)
qed

text \<open>The order of C strings: the first differing byte, compared as unsigned, decides.\<close>

fun str_less :: "cstring \<Rightarrow> cstring \<Rightarrow> bool" where
  "str_less [] t = (t \<noteq> [])"
| "str_less (c # s) [] = False"
| "str_less (c # s) (d # t) = (c < d \<or> c = d \<and> str_less s t)"

lemma rl_strcmp_correct:
  "str_at m a s \<Longrightarrow> str_at m b t \<Longrightarrow>
     \<exists>r. rl_strcmp m a b = Some r \<and> (r = 0 \<longleftrightarrow> s = t) \<and> (r < 0 \<longleftrightarrow> str_less s t)"
proof (induction s arbitrary: a b t)
  case Nil
  then show ?case
    by (subst rl_strcmp.simps, cases t) (auto simp: uint_0_iff order_less_le)
next
  case (Cons c s)
  show ?case
  proof (cases t)
    case Nil
    with Cons.prems show ?thesis
      by (subst rl_strcmp.simps) (auto simp: uint_0_iff)
  next
    case (Cons d t')
    show ?thesis
    proof (cases "c = d")
      case True
      with Cons.prems Cons.IH [of "Suc a" "Suc b" t'] Cons show ?thesis
        by (subst rl_strcmp.simps) auto
    next
      case False
      with Cons.prems Cons show ?thesis
        by (subst rl_strcmp.simps) (auto simp: word_less_def word_uint_eq_iff)
    qed
  qed
qed

section \<open>Bounded copy\<close>

text \<open>The loop of \<open>rl_string_copy\<close>; the counter is \<open>dest_max - dest\<close>.\<close>

fun string_copy_loop :: "nat \<Rightarrow> mem \<Rightarrow> nat \<Rightarrow> nat \<Rightarrow> mem \<times> nat" where
  "string_copy_loop 0 m dest source = (m, dest)"
| "string_copy_loop (Suc n) m dest source =
     (let ch = m source
      in if ch = 0 then (m, dest)
         else string_copy_loop n (m(dest := ch)) (Suc dest) (Suc source))"

text \<open>\<open>None\<close> is the failed assertion \<^verbatim>\<open>dest_size > 1\<close>.\<close>

definition rl_string_copy :: "mem \<Rightarrow> nat \<Rightarrow> nat \<Rightarrow> nat \<Rightarrow> (mem \<times> int) option" where
  "rl_string_copy m dest_size dest source =
     (if dest_size > 1 then
        let dest_max = dest + dest_size - 1;
            (m, dest) = string_copy_loop (dest_max - dest) m dest source;
            m = m(dest := 0)
        in Some (m, if dest = dest_max then -1 else 0)
      else None)"

lemma string_copy_loop_correct:
  assumes "str_at m src s" and "dest + n \<le> src \<or> src + length s < dest"
  shows "string_copy_loop n m dest src = (mwrite m dest (take n s), dest + min n (length s))"
  using assms
proof (induction n arbitrary: m dest src s)
  case 0
  then show ?case by simp
next
  case (Suc n)
  show ?case
  proof (cases s)
    case Nil
    with Suc.prems show ?thesis by simp
  next
    case (Cons c s')
    have "str_at (m(dest := c)) (Suc src) s'"
      using Suc.prems Cons by (auto intro: str_at_cong [of m])
    then have "string_copy_loop n (m(dest := c)) (Suc dest) (Suc src) =
                 (mwrite (m(dest := c)) (Suc dest) (take n s'), Suc dest + min n (length s'))"
      by (rule Suc.IH) (use Suc.prems Cons in auto)
    with Suc.prems Cons show ?thesis
      by (auto simp: Let_def mwrite_Cons)
  qed
qed

lemma rl_string_copy_correct:
  assumes "str_at m src s" and "1 < n" and "dest + n \<le> src \<or> src + length s < dest"
  shows "rl_string_copy m n dest src =
           Some (mwrite m dest (take (n - 1) s @ [0]), if length s \<ge> n - 1 then -1 else 0)"
proof -
  have "string_copy_loop (n - 1) m dest src =
          (mwrite m dest (take (n - 1) s), dest + min (n - 1) (length s))"
    using assms by (intro string_copy_loop_correct) auto
  then show ?thesis
    using assms(2)
    by (auto simp: rl_string_copy_def Let_def mwrite_append mwrite_Cons min_def)
qed

section \<open>The bounded string builder\<close>

record rl_strbuf =
  sb_buffer :: nat
  sb_max :: nat

definition strbuf_append_ch :: "mem \<times> rl_strbuf \<Rightarrow> rl_uint8 \<Rightarrow> mem \<times> rl_strbuf" where
  "strbuf_append_ch mb ch =
     (case mb of (m, buf) \<Rightarrow>
        if sb_buffer buf \<noteq> sb_max buf
        then (m(sb_buffer buf := ch), buf\<lparr>sb_buffer := sb_buffer buf + 1\<rparr>)
        else (m, buf))"

definition strbuf_null_terminate :: "mem \<Rightarrow> rl_strbuf \<Rightarrow> mem" where
  "strbuf_null_terminate m buf =
     (if sb_buffer buf \<noteq> sb_max buf then m(sb_buffer buf := 0) else m(sb_max buf - 1 := 0))"

definition rl_strbuf_init :: "mem \<Rightarrow> nat \<Rightarrow> nat \<Rightarrow> mem \<times> rl_strbuf" where
  "rl_strbuf_init m buffer sz =
     (let buf = \<lparr>sb_buffer = buffer, sb_max = buffer + sz\<rparr>
      in (strbuf_null_terminate m buf, buf))"

text \<open>
  The two append operations differ in how the source ends: at its terminator or after
  \<open>len\<close> bytes. The source string is a value here: in the code it never overlaps the builder.
\<close>

definition rl_strbuf_append :: "mem \<times> rl_strbuf \<Rightarrow> cstring \<Rightarrow> (mem \<times> rl_strbuf) \<times> bool" where
  "rl_strbuf_append mb str =
     (let (m, buf) = foldl strbuf_append_ch mb (takeWhile (\<lambda>ch. ch \<noteq> 0) str);
          m = strbuf_null_terminate m buf
      in ((m, buf), sb_buffer buf \<noteq> sb_max buf))"

definition rl_strbuf_append_str_len ::
  "mem \<times> rl_strbuf \<Rightarrow> rl_uint8 list \<Rightarrow> nat \<Rightarrow> (mem \<times> rl_strbuf) \<times> bool" where
  "rl_strbuf_append_str_len mb str len =
     (let (m, buf) = foldl strbuf_append_ch mb (take len str);
          m = strbuf_null_terminate m buf
      in ((m, buf), sb_buffer buf \<noteq> sb_max buf))"

text \<open>
  What a builder over the \<open>sz\<close> bytes at \<open>base\<close> represents: \<open>s\<close> is everything appended so
  far, including what did not fit. The stored string is always \<open>s\<close> cut to \<open>sz - 1\<close> bytes.
\<close>

definition strbuf_holds :: "nat \<Rightarrow> nat \<Rightarrow> mem \<times> rl_strbuf \<Rightarrow> cstring \<Rightarrow> bool" where
  "strbuf_holds base sz mb s =
     (case mb of (m, buf) \<Rightarrow>
        sb_max buf = base + sz \<and> sb_buffer buf = base + min sz (length s) \<and>
        str_at m base (take (sz - 1) s))"

text \<open>Between the characters of one append the buffer may be full and not yet terminated.\<close>

definition strbuf_filled :: "nat \<Rightarrow> nat \<Rightarrow> mem \<times> rl_strbuf \<Rightarrow> cstring \<Rightarrow> bool" where
  "strbuf_filled base sz mb s =
     (case mb of (m, buf) \<Rightarrow>
        sb_max buf = base + sz \<and> sb_buffer buf = base + min sz (length s) \<and>
        mread m base (min (sz - 1) (length s)) = take (sz - 1) s)"

lemma strbuf_holds_filled: "strbuf_holds base sz mb s \<Longrightarrow> strbuf_filled base sz mb s"
proof -
  assume h: "strbuf_holds base sz mb s"
  obtain m buf where mb: "mb = (m, buf)" by (cases mb)
  have "str_at m base (take (sz - 1) s @ [])"
    using h by (simp add: mb strbuf_holds_def)
  then have "mread m base (length (take (sz - 1) s)) = take (sz - 1) s"
    unfolding str_at_append by simp
  then show ?thesis
    using h by (auto simp: strbuf_holds_def strbuf_filled_def mb min.commute)
qed

lemma strbuf_append_ch_filled:
  assumes "strbuf_filled base sz mb s" and "0 < sz"
  shows "strbuf_filled base sz (strbuf_append_ch mb ch) (s @ [ch])"
proof -
  obtain m buf where mb: "mb = (m, buf)" by (cases mb)
  have rd: "mread m base (min (sz - 1) (length s)) = take (sz - 1) s"
    and cur: "sb_buffer buf = base + min sz (length s)" "sb_max buf = base + sz"
    using assms by (auto simp: strbuf_filled_def mb)
  show ?thesis
  proof (cases "length s < sz - 1")
    case True
    have "mread (m(base + length s := ch)) base (length s + 1) =
            mread (m(base + length s := ch)) base (length s) @ [ch]"
      by (simp only: mread_add) (simp add: mread_Suc)
    also have "mread (m(base + length s := ch)) base (length s) = mread m base (length s)"
      by (rule mread_cong) auto
    also have "\<dots> = s"
      using rd True by simp
    finally show ?thesis
      using True cur
      by (auto simp: strbuf_filled_def strbuf_append_ch_def mb simp del: fun_upd_apply)
  next
    case False
    have "mread (m(base + length s := ch)) base (sz - 1) = mread m base (sz - 1)"
      using False by (intro mread_cong) auto
    then show ?thesis
      using False cur rd assms(2)
      by (auto simp: strbuf_filled_def strbuf_append_ch_def mb min_def)
  qed
qed

lemma strbuf_fold_filled:
  assumes "strbuf_filled base sz mb s" and "0 < sz"
  shows "strbuf_filled base sz (foldl strbuf_append_ch mb t) (s @ t)"
  using assms
proof (induction t arbitrary: mb s)
  case Nil
  then show ?case by simp
next
  case (Cons c t)
  then show ?case
    using Cons.IH [OF strbuf_append_ch_filled [of base sz mb s c]] by simp
qed

lemma strbuf_terminate_holds:
  assumes "strbuf_filled base sz (m, buf) s" and "0 < sz" and "nul_free s"
  shows "strbuf_holds base sz (strbuf_null_terminate m buf, buf) s"
proof -
  let ?p = "base + min (sz - 1) (length s)"
  have m': "strbuf_null_terminate m buf = m(?p := 0)"
    using assms(1,2) by (auto simp: strbuf_filled_def strbuf_null_terminate_def min_def)
  have "mread (m(?p := 0)) base (min (sz - 1) (length s)) = take (sz - 1) s"
    using assms(1) mread_cong [of base "min (sz - 1) (length s)" "m(?p := 0)" m]
    by (simp add: strbuf_filled_def)
  then have "str_at (m(?p := 0)) base (take (sz - 1) s @ [])"
    unfolding str_at_append using assms(3) by (simp add: min.commute)
  then show ?thesis
    using assms(1) by (simp add: strbuf_holds_def strbuf_filled_def m')
qed

lemma rl_strbuf_init_holds: "0 < sz \<Longrightarrow> strbuf_holds base sz (rl_strbuf_init m base sz) []"
  by (simp add: rl_strbuf_init_def strbuf_holds_def strbuf_null_terminate_def)

lemma rl_strbuf_append_holds:
  assumes "strbuf_holds base sz mb s" and "0 < sz" and "nul_free s" and "nul_free t"
  shows "strbuf_holds base sz (fst (rl_strbuf_append mb t)) (s @ t) \<and>
         snd (rl_strbuf_append mb t) = (length (s @ t) < sz)"
proof -
  obtain m buf where f: "foldl strbuf_append_ch mb t = (m, buf)"
    by (cases "foldl strbuf_append_ch mb t")
  have fl: "strbuf_filled base sz (m, buf) (s @ t)"
    using strbuf_fold_filled [OF strbuf_holds_filled [OF assms(1)] assms(2), of t] f by simp
  then show ?thesis
    using strbuf_terminate_holds [OF fl assms(2)] assms(3,4) f
    by (auto simp: rl_strbuf_append_def Let_def strbuf_filled_def min_def)
qed

section \<open>Properties\<close>

text \<open>
  Claim C33: \<open>rl_memmove\<close> leaves in the destination exactly the bytes the source held before the
  call, however the two blocks overlap, and changes nothing else.
\<close>
theorem memmove_overlap:
  "mread (rl_memmove m dst src len) dst len = mread m src len \<and>
   (\<forall>i. i < dst \<or> dst + len \<le> i \<longrightarrow> rl_memmove m dst src len i = m i)"
  by (auto simp: rl_memmove_eq mem_simps)

theorem memmove_overlap_witness:
  "rl_memmove (\<lambda>i. of_nat i) 3 1 4 3 = 1 \<and> rl_memmove (\<lambda>i. of_nat i) 3 1 4 6 = 4 \<and>
   rl_memmove (\<lambda>i. of_nat i) 3 1 4 7 = 7"
proof -
  have eq: "mread (rl_memmove (\<lambda>i. of_nat i) 3 1 4) 3 4 = mread (\<lambda>i. of_nat i) 1 4"
    and fr: "\<forall>i. i < 3 \<or> 3 + 4 \<le> i \<longrightarrow> rl_memmove (\<lambda>i. of_nat i) 3 1 4 i = of_nat i"
    using memmove_overlap [of "\<lambda>i. of_nat i" 3 1 4] by blast+
  from eq have "rl_memmove (\<lambda>i. of_nat i) 3 1 4 3 = 1 \<and> rl_memmove (\<lambda>i. of_nat i) 3 1 4 6 = 4"
    by (simp add: numeral_eq_Suc mread_Suc)
  with fr show ?thesis by simp
qed

text \<open>
  Claim C40: on two terminated strings \<open>rl_strcmp\<close> returns, its result is zero exactly for equal
  strings and negative exactly when the first differing byte, read unsigned, is smaller in
  the first string; \<open>rl_strlen\<close> returns the length.
\<close>

theorem strcmp_strlen_correct:
  assumes "str_at m a s" and "str_at m b t"
  shows "(\<exists>r. rl_strcmp m a b = Some r \<and> (r = 0 \<longleftrightarrow> s = t) \<and> (r < 0 \<longleftrightarrow> str_less s t)) \<and>
         rl_strlen m a = Some (length s)"
  using rl_strcmp_correct [OF assms] rl_strlen_correct [OF assms(1)] by auto

theorem strcmp_strlen_correct_witness:
  "rl_strlen (mwrite (\<lambda>_. 0) 1 [200, 65]) 1 = Some 2 \<and>
   (\<exists>r. rl_strcmp (mwrite (\<lambda>_. 0) 1 [200, 65]) 2 1 = Some r \<and> r < 0)"
proof -
  let ?m = "mwrite (\<lambda>_. 0) 1 [200, 65] :: mem"
  have s: "str_at ?m 1 [200, 65]" "str_at ?m 2 [65]"
    by (simp_all add: mwrite_def)
  show ?thesis
    using strcmp_strlen_correct [OF s(1,1)] strcmp_strlen_correct [OF s(2,1)]
    by (auto simp: word_less_def)
qed

text \<open>
  \<open>rl_string_copy\<close> stores the source cut to the destination size, terminated, touches
  no byte outside the destination, and reports -1 exactly when the string does not fit with
  a byte to spare: a string that fills the destination exactly is stored whole and is still
  reported as cut.
\<close>

theorem string_copy_bounded:
  assumes "str_at m src s" and "1 < n" and "dest + n \<le> src \<or> src + length s < dest"
  shows "\<exists>m' r. rl_string_copy m n dest src = Some (m', r) \<and> str_at m' dest (take (n - 1) s) \<and>
           (\<forall>i. i < dest \<or> dest + n \<le> i \<longrightarrow> m' i = m i) \<and> (r = - 1 \<longleftrightarrow> n - 1 \<le> length s)"
  using rl_string_copy_correct [OF assms] assms(2) str_at_nul_free [OF assms(1)]
  by (auto simp: str_at_mwrite mem_simps)

theorem string_copy_bounded_witness:
  "\<exists>m' r. rl_string_copy (mwrite (\<lambda>_. 0) 9 [65, 66, 67]) 4 1 9 = Some (m', r) \<and>
     str_at m' 1 [65, 66, 67] \<and> r = - 1"
proof -
  have "str_at (mwrite (\<lambda>_. 0) 9 [65, 66, 67]) 9 [65, 66, 67]"
    by (simp add: mwrite_def)
  from string_copy_bounded [OF this, of 4 1] show ?thesis by auto
qed

fun strbuf_appends :: "mem \<times> rl_strbuf \<Rightarrow> cstring list \<Rightarrow> (mem \<times> rl_strbuf) \<times> bool list" where
  "strbuf_appends mb [] = (mb, [])"
| "strbuf_appends mb (s # ss) =
     (let (mb, ok) = rl_strbuf_append mb s;
          (mb, oks) = strbuf_appends mb ss
      in (mb, ok # oks))"

lemma strbuf_appends_holds:
  assumes "strbuf_holds base sz mb s" and "0 < sz" and "nul_free s" and "list_all nul_free ss"
  shows "strbuf_holds base sz (fst (strbuf_appends mb ss)) (s @ concat ss) \<and>
         snd (strbuf_appends mb ss) =
           map (\<lambda>k. length (s @ concat (take (Suc k) ss)) < sz) [0..<length ss]"
  using assms
proof (induction ss arbitrary: mb s)
  case Nil
  then show ?case by simp
next
  case (Cons t ss)
  obtain mb' ok where a: "rl_strbuf_append mb t = (mb', ok)"
    by (cases "rl_strbuf_append mb t")
  have h: "strbuf_holds base sz mb' (s @ t)" "ok = (length (s @ t) < sz)"
    using rl_strbuf_append_holds [of base sz mb s t] Cons.prems a by auto
  show ?case
    using Cons.IH [OF h(1)] Cons.prems h(2) a
    by (auto simp: Let_def map_upt_Suc add.assoc simp del: upt_Suc split: prod.splits)
qed

text \<open>
  After a string builder is initialised over a buffer, any sequence of appends leaves
  the concatenation of everything appended, cut to the buffer and terminated, and each
  append reports whether everything so far fitted.
\<close>

theorem strbuf_appends_correct:
  assumes "0 < sz" and "list_all nul_free ss"
  shows "\<exists>m' buf. strbuf_appends (rl_strbuf_init m base sz) ss =
             ((m', buf), map (\<lambda>k. length (concat (take (Suc k) ss)) < sz) [0..<length ss]) \<and>
           str_at m' base (take (sz - 1) (concat ss))"
proof -
  obtain m' buf oks where r: "strbuf_appends (rl_strbuf_init m base sz) ss = ((m', buf), oks)"
    by (metis prod.exhaust)
  show ?thesis
    using strbuf_appends_holds [OF rl_strbuf_init_holds [OF assms(1)] assms(1) _ assms(2), of base m] r
    by (auto simp: strbuf_holds_def)
qed

theorem strbuf_appends_correct_witness:
  "\<exists>m' buf. strbuf_appends (rl_strbuf_init (\<lambda>_. 7) 5 4) [lit ''ab'', lit ''/'', lit ''c''] =
       ((m', buf), [True, True, False]) \<and> str_at m' 5 (lit ''ab/'')"
  using strbuf_appends_correct [of 4 "[lit ''ab'', lit ''/'', lit ''c'']" "\<lambda>_. 7" 5]
  by (simp add: upt_rec)

section \<open>Local buffers\<close>

text \<open>The string left in a buffer of \<open>n\<close> bytes by \<open>rl_string_copy\<close>; the source is stored behind it.\<close>

definition copied :: "nat \<Rightarrow> cstring \<Rightarrow> cstring option" where
  "copied n source =
     map_option (\<lambda>(m, rc). takeWhile (\<lambda>c. c \<noteq> 0) (mread m 0 n))
       (rl_string_copy (mwrite (\<lambda>_. 0) n (source @ [0])) n 0 n)"

lemma str_at_read: "str_at m 0 s \<Longrightarrow> length s < n \<Longrightarrow> takeWhile (\<lambda>c. c \<noteq> 0) (mread m 0 n) = s"
proof -
  have "str_at m a s \<Longrightarrow> length s < n \<Longrightarrow> takeWhile (\<lambda>c. c \<noteq> 0) (mread m a n) = s" for a
  proof (induction s arbitrary: a n)
    case Nil
    then show ?case by (cases n) (simp_all add: mread_Suc)
  next
    case (Cons c s)
    then show ?case by (cases n) (simp_all add: mread_Suc)
  qed
  then show "str_at m 0 s \<Longrightarrow> length s < n \<Longrightarrow> takeWhile (\<lambda>c. c \<noteq> 0) (mread m 0 n) = s" by blast
qed

lemma copied_some: "1 < n \<Longrightarrow> \<exists>t. copied n s = Some t"
  by (auto simp: copied_def rl_string_copy_def Let_def split: prod.splits)

lemma copied_eq:
  assumes "nul_free s" and "1 < n"
  shows "copied n s = Some (take (n - 1) s)"
proof -
  let ?m = "mwrite (\<lambda>_. 0) n (s @ [0])"
  have "str_at ?m n s" using assms(1) by (rule str_at_mwrite)
  from rl_string_copy_correct [OF this assms(2), of 0]
  have "rl_string_copy ?m n 0 n =
      Some (mwrite ?m 0 (take (n - 1) s @ [0]), if length s \<ge> n - 1 then -1 else 0)" by simp
  moreover have "str_at (mwrite ?m 0 (take (n - 1) s @ [0])) 0 (take (n - 1) s)"
    using assms(1) by (intro str_at_mwrite) simp
  from str_at_read [OF this, of n]
  have "takeWhile (\<lambda>c. c \<noteq> 0) (mread (mwrite ?m 0 (take (n - 1) s @ [0])) 0 n) = take (n - 1) s"
    using assms(2) by auto
  ultimately show ?thesis by (simp add: copied_def)
qed

end
