(* ===== verification/Rl_Transport.thy ===== *)
theory Rl_Transport
  imports Rl_Memory "HOL-Library.Monad_Syntax"
begin

unbundle bit_operations_syntax

text \<open>
  The transport (\<^verbatim>\<open>src/src/transport.c\<close>, \<^verbatim>\<open>src/src/transport.h\<close>): an input buffer that is cut into
  messages by the callbacks of the owner, and a linked queue of output buffers with a pool of
  free ones.

  The buffers live in a heap of cells; a pointer is an address or \<open>None\<close> (NULL). Every access
  through a pointer is checked: an operation that would touch a cell that is not allocated has
  the result \<open>None\<close>, so that a theorem with a \<open>Some\<close> result is also one about memory safety.
  Whether an allocation succeeds is read from a list of outcomes in the heap (\<open>mallocs\<close>; an
  empty list stands for success). The socket is a queue of receive outcomes, a queue of send
  outcomes and the bytes it accepted so far; a missing outcome is \<^verbatim>\<open>EWOULDBLOCK\<close>.

  The operations are defined on every extension of the record \<open>rl_transport\<close>: the peer
  (\<open>Rl_Peer\<close>) extends it, as the C struct of the peer contains the transport, and the
  delivery callback works on the extended record.
\<close>

section \<open>The heap of buffers\<close>

record rl_transport_buf =
  total_size :: nat
  used_size :: nat
  remaining :: nat
  next_buf :: "nat option"
  buffer_size :: nat
  buffer :: mem

record buf_heap =
  cells :: "rl_transport_buf option list"
  mallocs :: "bool list"

definition deref :: "buf_heap \<Rightarrow> nat option \<Rightarrow> rl_transport_buf option" where
  "deref h p =
     (case p of
        None \<Rightarrow> None
      | Some a \<Rightarrow> if a < length (cells h) then cells h ! a else None)"

text \<open>Storing through a pointer needs an allocated cell; so does freeing.\<close>

definition store :: "buf_heap \<Rightarrow> nat option \<Rightarrow> (rl_transport_buf \<Rightarrow> rl_transport_buf) \<Rightarrow> buf_heap option" where
  "store h p f =
     (case deref h p of
        None \<Rightarrow> None
      | Some b \<Rightarrow> Some (h\<lparr>cells := (cells h)[the p := Some (f b)]\<rparr>))"

definition rl_free_sized :: "buf_heap \<Rightarrow> nat option \<Rightarrow> buf_heap option" where
  "rl_free_sized h p =
     (case deref h p of
        None \<Rightarrow> None
      | Some b \<Rightarrow> Some (h\<lparr>cells := (cells h)[the p := None]\<rparr>))"

definition malloc_outcome :: "buf_heap \<Rightarrow> bool \<times> buf_heap" where
  "malloc_outcome h =
     (case mallocs h of [] \<Rightarrow> (True, h) | ok # oks \<Rightarrow> (ok, h\<lparr>mallocs := oks\<rparr>))"

definition rl_alloc_sized_and_clear :: "buf_heap \<Rightarrow> nat option \<times> buf_heap" where
  "rl_alloc_sized_and_clear h =
     (let (ok, h) = malloc_outcome h
      in if ok
         then (Some (length (cells h)),
               h\<lparr>cells := cells h @
                  [Some \<lparr>total_size = 0, used_size = 0, remaining = 0, next_buf = None,
                         buffer_size = 0, buffer = (\<lambda>_. 0)\<rparr>]\<rparr>)
         else (None, h))"

section \<open>The socket\<close>

datatype recv_outcome = Recv_data "rl_uint8 list" | Recv_eof | Recv_block | Recv_fail

datatype send_outcome = Send_accept nat | Send_block | Send_fail

record rl_socket =
  sk_recvs :: "recv_outcome list"
  sk_sends :: "send_outcome list"
  sk_sent :: "rl_uint8 list"

text \<open>What \<^verbatim>\<open>recv\<close> and \<^verbatim>\<open>send\<close> return: the bytes or their number, or an error and whether it is \<^verbatim>\<open>EWOULDBLOCK\<close>.\<close>

datatype 'a io_result = Io 'a | Io_error bool

definition recv :: "rl_socket \<Rightarrow> nat \<Rightarrow> rl_uint8 list io_result \<times> rl_socket" where
  "recv sk len =
     (case sk_recvs sk of
        [] \<Rightarrow> (Io_error True, sk)
      | Recv_data bs # rs \<Rightarrow>
          (Io (take len bs),
           sk\<lparr>sk_recvs := (if length bs \<le> len then rs else Recv_data (drop len bs) # rs)\<rparr>)
      | Recv_eof # rs \<Rightarrow> (Io [], sk\<lparr>sk_recvs := rs\<rparr>)
      | Recv_block # rs \<Rightarrow> (Io_error True, sk\<lparr>sk_recvs := rs\<rparr>)
      | Recv_fail # rs \<Rightarrow> (Io_error False, sk\<lparr>sk_recvs := rs\<rparr>))"

definition send :: "rl_socket \<Rightarrow> rl_uint8 list \<Rightarrow> nat io_result \<times> rl_socket" where
  "send sk bs =
     (case sk_sends sk of
        [] \<Rightarrow> (Io_error True, sk)
      | Send_accept n # ss \<Rightarrow>
          (Io (length (take n bs)), sk\<lparr>sk_sends := ss, sk_sent := sk_sent sk @ take n bs\<rparr>)
      | Send_block # ss \<Rightarrow> (Io_error True, sk\<lparr>sk_sends := ss\<rparr>)
      | Send_fail # ss \<Rightarrow> (Io_error False, sk\<lparr>sk_sends := ss\<rparr>))"

section \<open>The transport\<close>

text \<open>The cursors are offsets into the block \<open>io_mem\<close>.\<close>

record rl_iobuf =
  base_address :: nat
  read_cursor :: nat
  write_cursor :: nat
  end_address :: nat
  valid :: bool
  io_mem :: mem

record rl_transport =
  inbuf :: rl_iobuf
  out_queue :: "nat option"
  out_tail :: "nat option"
  num_free_buffers :: int
  next_free_buffer :: "nat option"
  t_error :: bool
  disconnect :: bool
  heap :: buf_heap
  sock :: rl_socket

definition RL_TRANSPORT_MAX_POOLED_BUFFERS :: int where
  "RL_TRANSPORT_MAX_POOLED_BUFFERS = 4"

definition RL_TRANSPORT_NEED_OUTPUT :: int where "RL_TRANSPORT_NEED_OUTPUT = push_bit 0 1"
definition RL_TRANSPORT_DISCONNECTED :: int where "RL_TRANSPORT_DISCONNECTED = push_bit 14 1"
definition RL_TRANSPORT_ERROR :: int where "RL_TRANSPORT_ERROR = push_bit 15 1"

subsection \<open>The buffer pool\<close>

text \<open>The size of the C struct on a 64-bit host, without the buffer behind it.\<close>

definition sizeof_transport_buf :: nat where
  "sizeof_transport_buf = 56"

definition rl_transport_alloc_buffer ::
  "'a rl_transport_scheme \<Rightarrow> (nat option \<times> 'a rl_transport_scheme) option" where
  "rl_transport_alloc_buffer self =
     (if num_free_buffers self \<noteq> 0
      then do {
        let self = self\<lparr>num_free_buffers := num_free_buffers self - 1\<rparr>;
        let result = next_free_buffer self;
        b \<leftarrow> deref (heap self) result;
        h \<leftarrow> store (heap self) result (\<lambda>b. b\<lparr>next_buf := None\<rparr>);
        Some (result, self\<lparr>next_free_buffer := next_buf b, heap := h\<rparr>)
      }
      else
        let (result, h) = rl_alloc_sized_and_clear (heap self)
        in if result = None then Some (None, self\<lparr>heap := h\<rparr>)
           else do {
             h \<leftarrow> store h result (\<lambda>b. b\<lparr>total_size := sizeof_transport_buf + 8192, buffer_size := 8192\<rparr>);
             Some (result, self\<lparr>heap := h\<rparr>)
           })"

definition rl_transport_free_buffer ::
  "'a rl_transport_scheme \<Rightarrow> nat option \<Rightarrow> 'a rl_transport_scheme option" where
  "rl_transport_free_buffer self buf =
     (if num_free_buffers self \<ge> RL_TRANSPORT_MAX_POOLED_BUFFERS
      then do {
        h \<leftarrow> rl_free_sized (heap self) buf;
        Some (self\<lparr>heap := h\<rparr>)
      }
      else do {
        h \<leftarrow> store (heap self) buf (\<lambda>b. b\<lparr>next_buf := next_free_buffer self\<rparr>);
        Some (self\<lparr>heap := h, next_free_buffer := buf,
                   num_free_buffers := num_free_buffers self + 1\<rparr>)
      })"

subsection \<open>The output queue\<close>

definition rl_transport_add_output_message ::
  "'a rl_transport_scheme \<Rightarrow> nat option \<Rightarrow> (int \<times> 'a rl_transport_scheme) option" where
  "rl_transport_add_output_message self buf = do {
     h \<leftarrow> store (heap self) buf (\<lambda>b. b\<lparr>remaining := used_size b\<rparr>);
     if out_queue self = None
     then Some (0, self\<lparr>heap := h, out_queue := buf, out_tail := buf\<rparr>)
     else do {
       h \<leftarrow> store h (out_tail self) (\<lambda>b. b\<lparr>next_buf := buf\<rparr>);
       Some (0, self\<lparr>heap := h, out_tail := buf\<rparr>)
     }
   }"

partial_function (option) rl_transport_on_output_possible ::
  "'a rl_transport_scheme \<Rightarrow> 'a rl_transport_scheme option" where
  "rl_transport_on_output_possible t =
     (if out_queue t = None then Some t
      else do {
        let msg = out_queue t;
        b \<leftarrow> deref (heap t) msg;
        let (write_rc, sk) = send (sock t) (mread (buffer b) (used_size b - remaining b) (remaining b));
        let t = t\<lparr>sock := sk\<rparr>;
        (case write_rc of
           Io_error wouldblock \<Rightarrow> Some (if wouldblock then t else t\<lparr>t_error := True\<rparr>)
         | Io n \<Rightarrow>
             if n = 0 then Some t
             else do {
               h \<leftarrow> store (heap t) msg (\<lambda>b. b\<lparr>remaining := remaining b - n\<rparr>);
               let t = t\<lparr>heap := h\<rparr>;
               if remaining b - n = 0
               then do {
                 t \<leftarrow> rl_transport_free_buffer (t\<lparr>out_queue := next_buf b\<rparr>) msg;
                 rl_transport_on_output_possible t
               }
               else rl_transport_on_output_possible t
             })
      })"

subsection \<open>Input\<close>

definition rl_transport_on_input_arrived :: "'a rl_transport_scheme \<Rightarrow> 'a rl_transport_scheme" where
  "rl_transport_on_input_arrived t =
     (let max_buffer_left = end_address (inbuf t) - write_cursor (inbuf t);
          (read_result, sk) = recv (sock t) max_buffer_left;
          t = t\<lparr>sock := sk\<rparr>
      in (case read_result of
            Io_error wouldblock \<Rightarrow> if wouldblock then t else t\<lparr>t_error := True\<rparr>
          | Io bs \<Rightarrow>
              if bs = [] then t\<lparr>disconnect := True\<rparr>
              else t\<lparr>inbuf := (inbuf t)
                       \<lparr>io_mem := mwrite (io_mem (inbuf t)) (write_cursor (inbuf t)) bs,
                        write_cursor := write_cursor (inbuf t) + length bs\<rparr>\<rparr>))"

text \<open>
  The message loop of \<open>rl_transport_update\<close>. The result is the state and whether the loop was
  left by the \<^verbatim>\<open>return RL_TRANSPORT_ERROR\<close> in its body.
\<close>

partial_function (option) update_loop ::
  "(mem \<Rightarrow> nat \<Rightarrow> nat \<Rightarrow> int) \<Rightarrow>
   ('a rl_transport_scheme \<Rightarrow> nat \<Rightarrow> nat \<Rightarrow> (int \<times> 'a rl_transport_scheme) option) \<Rightarrow>
   'a rl_transport_scheme \<Rightarrow> (bool \<times> 'a rl_transport_scheme) option" where
  "update_loop peek_incoming deliver_incoming t =
     (if read_cursor (inbuf t) < write_cursor (inbuf t)
      then
        let avail_size = write_cursor (inbuf t) - read_cursor (inbuf t);
            msg_size = peek_incoming (io_mem (inbuf t)) (read_cursor (inbuf t)) avail_size
        in if msg_size \<le> 0
           then Some (if msg_size < 0 then (True, t\<lparr>t_error := True\<rparr>) else (False, t))
           else if msg_size > int (end_address (inbuf t)) - int (base_address (inbuf t))
           then Some (True, t\<lparr>t_error := True\<rparr>)
           else if int avail_size < msg_size then Some (False, t)
           else do {
             (rc, t) \<leftarrow> deliver_incoming t (read_cursor (inbuf t)) (nat msg_size);
             if rc \<noteq> 0 then Some (True, t\<lparr>t_error := True\<rparr>)
             else update_loop peek_incoming deliver_incoming
                    (t\<lparr>inbuf := (inbuf t)\<lparr>read_cursor := read_cursor (inbuf t) + nat msg_size\<rparr>\<rparr>)
           }
      else Some (False, t))"

text \<open>The move of the remaining data to the front of the buffer.\<close>

definition trim_inbuf :: "rl_iobuf \<Rightarrow> rl_iobuf" where
  "trim_inbuf b =
     (if read_cursor b \<noteq> base_address b
      then
        let trim = write_cursor b - read_cursor b;
            m = (if trim > 0 then rl_memmove (io_mem b) (base_address b) (read_cursor b) trim
                 else io_mem b)
        in b\<lparr>io_mem := m, read_cursor := base_address b, write_cursor := base_address b + trim\<rparr>
      else b)"

definition rl_transport_update ::
  "(mem \<Rightarrow> nat \<Rightarrow> nat \<Rightarrow> int) \<Rightarrow>
   ('a rl_transport_scheme \<Rightarrow> nat \<Rightarrow> nat \<Rightarrow> (int \<times> 'a rl_transport_scheme) option) \<Rightarrow>
   'a rl_transport_scheme \<Rightarrow> (int \<times> 'a rl_transport_scheme) option" where
  "rl_transport_update peek_incoming deliver_incoming t =
     (if t_error t then Some (RL_TRANSPORT_ERROR, t)
      else if disconnect t then Some (RL_TRANSPORT_DISCONNECTED, t)
      else do {
        (failed, t) \<leftarrow> update_loop peek_incoming deliver_incoming t;
        if failed then Some (RL_TRANSPORT_ERROR, t)
        else
          let t = t\<lparr>inbuf := trim_inbuf (inbuf t)\<rparr>
          in Some (if out_queue t \<noteq> None then 0 OR RL_TRANSPORT_NEED_OUTPUT else 0, t)
      })"

subsection \<open>Start and end\<close>

definition rl_iobuf_init :: "buf_heap \<Rightarrow> nat \<Rightarrow> int \<times> rl_iobuf \<times> buf_heap" where
  "rl_iobuf_init h sz =
     (let (ok, h) = malloc_outcome h
      in (if ok then 0 else 1,
          \<lparr>base_address = 0, read_cursor = 0, write_cursor = 0, end_address = sz, valid = ok,
           io_mem = (\<lambda>_. 0)\<rparr>, h))"

definition rl_iobuf_destroy :: "rl_iobuf \<Rightarrow> rl_iobuf" where
  "rl_iobuf_destroy b = b\<lparr>valid := False\<rparr>"

partial_function (option) destroy_queue ::
  "'a rl_transport_scheme \<Rightarrow> nat option \<Rightarrow> 'a rl_transport_scheme option" where
  "destroy_queue t msg =
     (if msg = None then Some t
      else do {
        b \<leftarrow> deref (heap t) msg;
        t \<leftarrow> rl_transport_free_buffer t msg;
        destroy_queue t (next_buf b)
      })"

partial_function (option) destroy_pool ::
  "'a rl_transport_scheme \<Rightarrow> nat option \<Rightarrow> 'a rl_transport_scheme option" where
  "destroy_pool t msg =
     (if msg = None then Some t
      else do {
        b \<leftarrow> deref (heap t) msg;
        h \<leftarrow> rl_free_sized (heap t) msg;
        destroy_pool (t\<lparr>heap := h\<rparr>) (next_buf b)
      })"

definition rl_transport_destroy :: "'a rl_transport_scheme \<Rightarrow> 'a rl_transport_scheme option" where
  "rl_transport_destroy t = do {
     t \<leftarrow> destroy_queue t (out_queue t);
     t \<leftarrow> destroy_pool t (next_free_buffer t);
     Some (t\<lparr>inbuf := rl_iobuf_destroy (inbuf t)\<rparr>)
   }"

definition rl_transport_init ::
  "'a rl_transport_scheme \<Rightarrow> nat \<Rightarrow> (int \<times> 'a rl_transport_scheme) option" where
  "rl_transport_init t sz =
     (let t = t\<lparr>out_queue := None, out_tail := None, num_free_buffers := 0,
                next_free_buffer := None, t_error := False, disconnect := False\<rparr>;
          (rc, b, h) = rl_iobuf_init (heap t) sz;
          t = t\<lparr>inbuf := b, heap := h\<rparr>
      in if rc \<noteq> 0
         then do { t \<leftarrow> rl_transport_destroy t; Some (1, t) }
         else Some (0, t))"

section \<open>The heap as a map\<close>

definition cell :: "buf_heap \<Rightarrow> nat \<rightharpoonup> rl_transport_buf" where
  "cell h a = deref h (Some a)"

lemma deref_cell [simp]: "deref h None = None" "deref h (Some a) = cell h a"
  by (simp_all add: deref_def cell_def)

lemma cell_lookup: "cell h a = (if a < length (cells h) then cells h ! a else None)"
  by (simp add: cell_def deref_def)

lemma store_cell:
  assumes "cell h a = Some b"
  shows "\<exists>h'. store h (Some a) f = Some h' \<and> cell h' = (cell h)(a \<mapsto> f b) \<and> mallocs h' = mallocs h"
  using assms by (auto simp: store_def cell_lookup fun_eq_iff nth_list_update split: if_splits)

lemma free_cell:
  assumes "cell h a = Some b"
  shows "\<exists>h'. rl_free_sized h (Some a) = Some h' \<and> cell h' = (cell h)(a := None)"
  using assms by (auto simp: rl_free_sized_def cell_lookup fun_eq_iff nth_list_update split: if_splits)

lemma alloc_cell:
  "(\<exists>h'. rl_alloc_sized_and_clear h = (None, h') \<and> cell h' = cell h) \<or>
   (\<exists>a b h'. rl_alloc_sized_and_clear h = (Some a, h') \<and> cell h a = None \<and>
      cell h' = (cell h)(a \<mapsto> b) \<and> next_buf b = None)"
proof -
  let ?b = "\<lparr>total_size = 0, used_size = 0, remaining = 0, next_buf = None,
             buffer_size = 0, buffer = (\<lambda>_. 0)\<rparr>"
  obtain ok h1 where h1: "malloc_outcome h = (ok, h1)" by (cases "malloc_outcome h")
  then have c: "cells h1 = cells h" by (auto simp: malloc_outcome_def split: list.splits)
  let ?h = "h1\<lparr>cells := cells h1 @ [Some ?b]\<rparr>"
  show ?thesis
  proof (cases ok)
    case True
    have "cell ?h = (cell h)(length (cells h) \<mapsto> ?b)"
      using c by (auto simp: cell_lookup fun_eq_iff nth_append)
    moreover have "rl_alloc_sized_and_clear h = (Some (length (cells h)), ?h)"
      using h1 c True by (simp add: rl_alloc_sized_and_clear_def)
    ultimately show ?thesis by (force simp: cell_lookup)
  next
    case False
    then show ?thesis
      using h1 c by (simp add: rl_alloc_sized_and_clear_def cell_lookup fun_eq_iff)
  qed
qed

text \<open>A linked list in the heap, with the addresses it visits.\<close>

fun chain :: "(nat \<rightharpoonup> rl_transport_buf) \<Rightarrow> nat option \<Rightarrow> nat list \<Rightarrow> bool" where
  "chain hm p [] = (p = None)"
| "chain hm p (a # as) =
     (p = Some a \<and> (case hm a of None \<Rightarrow> False | Some b \<Rightarrow> chain hm (next_buf b) as))"

lemma chain_frame [simp]: "a \<notin> set as \<Longrightarrow> chain (hm(a := x)) p as = chain hm p as"
  by (induction as arbitrary: p) (auto split: option.splits)

lemma chain_data:
  "chain hm p as \<Longrightarrow> hm a = Some b \<Longrightarrow> next_buf b' = next_buf b \<Longrightarrow> chain (hm(a \<mapsto> b')) p as"
  by (induction as arbitrary: p) (auto split: option.splits)

lemma chain_allocated: "chain hm p as \<Longrightarrow> a \<in> set as \<Longrightarrow> \<exists>b. hm a = Some b"
  by (induction as arbitrary: p) (auto split: option.splits)

lemma chain_snoc:
  "chain hm p (as @ [t]) \<Longrightarrow> hm t = Some bt \<Longrightarrow> hm a = Some b \<Longrightarrow> next_buf b = None \<Longrightarrow>
   distinct (as @ [t, a]) \<Longrightarrow>
   chain (hm(t \<mapsto> bt\<lparr>next_buf := Some a\<rparr>)) p (as @ [t, a])"
  by (induction as arbitrary: p) (auto split: option.splits)

lemma chain_Nil_iff: "chain hm p as \<Longrightarrow> (p = None) = (as = [])"
  by (cases as) auto

section \<open>The invariant of the transport\<close>

text \<open>
  The queue visits the addresses \<open>qs\<close>, the pool \<open>fs\<close>; \<open>hs\<close> are the buffers handed out to the
  caller. Together they are all the allocated cells.
\<close>

definition buf_ok :: "rl_transport_buf \<Rightarrow> bool" where
  "buf_ok b = (0 < remaining b \<and> remaining b \<le> used_size b)"

definition unsent :: "rl_transport_buf \<Rightarrow> rl_uint8 list" where
  "unsent b = mread (buffer b) (used_size b - remaining b) (remaining b)"

definition tinv :: "'a rl_transport_scheme \<Rightarrow> nat list \<Rightarrow> nat list \<Rightarrow> nat list \<Rightarrow> bool" where
  "tinv t qs fs hs \<longleftrightarrow>
     chain (cell (heap t)) (out_queue t) qs \<and>
     chain (cell (heap t)) (next_free_buffer t) fs \<and>
     distinct (qs @ fs @ hs) \<and>
     dom (cell (heap t)) = set (qs @ fs @ hs) \<and>
     num_free_buffers t = int (length fs) \<and> length fs \<le> 4 \<and>
     (qs \<noteq> [] \<longrightarrow> out_tail t = Some (last qs)) \<and>
     (\<forall>a\<in>set qs. \<forall>b. cell (heap t) a = Some b \<longrightarrow> buf_ok b) \<and>
     (\<forall>a b. cell (heap t) a = Some b \<longrightarrow> buffer_size b = 8192)"

definition pend :: "'a rl_transport_scheme \<Rightarrow> nat list \<Rightarrow> rl_uint8 list" where
  "pend t qs = concat (map (\<lambda>a. unsent (the (cell (heap t) a))) qs)"

lemma pend_simps [simp]:
  "pend t [] = []" "pend t (q # qs) = unsent (the (cell (heap t) q)) @ pend t qs"
  "pend t (qs @ qs') = pend t qs @ pend t qs'"
  by (simp_all add: pend_def)

lemma pend_frame:
  "(\<And>a. a \<in> set qs \<Longrightarrow> cell (heap t') a = cell (heap t) a) \<Longrightarrow> pend t' qs = pend t qs"
  by (simp add: pend_def cong: map_cong)

lemma tinv_allocated:
  "tinv t qs fs hs \<Longrightarrow> a \<in> set (qs @ fs @ hs) \<Longrightarrow> \<exists>b. cell (heap t) a = Some b"
  unfolding tinv_def by blast

lemma alloc_buffer_ok:
  assumes "tinv t qs fs hs"
  shows "(\<exists>t'. rl_transport_alloc_buffer t = Some (None, t') \<and> tinv t' qs fs hs \<and>
             t' = t\<lparr>heap := heap t'\<rparr> \<and> pend t' qs = pend t qs) \<or>
         (\<exists>a t' fs'. rl_transport_alloc_buffer t = Some (Some a, t') \<and> tinv t' qs fs' (a # hs) \<and>
             (\<exists>b. cell (heap t') a = Some b \<and> next_buf b = None) \<and>
             t' = t\<lparr>heap := heap t', num_free_buffers := num_free_buffers t',
                    next_free_buffer := next_free_buffer t'\<rparr> \<and> pend t' qs = pend t qs)"
proof (cases fs)
  case Nil
  then have nf: "num_free_buffers t = 0" using assms by (simp add: tinv_def)
  show ?thesis
    using alloc_cell [of "heap t"]
  proof (elim disjE exE conjE)
    fix h' assume "rl_alloc_sized_and_clear (heap t) = (None, h')" "cell h' = cell (heap t)"
    then show ?thesis
      using assms nf by (auto simp: rl_transport_alloc_buffer_def tinv_def pend_def)
  next
    fix a b h'
    assume h: "rl_alloc_sized_and_clear (heap t) = (Some a, h')" "cell (heap t) a = None"
      "cell h' = (cell (heap t))(a \<mapsto> b)" "next_buf b = None"
    obtain h2 where h2: "store h' (Some a) (\<lambda>b. b\<lparr>total_size := sizeof_transport_buf + 8192, buffer_size := 8192\<rparr>) = Some h2"
        "cell h2 = (cell h')(a \<mapsto> b\<lparr>total_size := sizeof_transport_buf + 8192, buffer_size := 8192\<rparr>)"
      using store_cell [of h' a b] h(3) by auto
    have a: "a \<notin> set (qs @ fs @ hs)" using assms h(2) by (auto simp: tinv_def)
    let ?t = "t\<lparr>heap := h2\<rparr>"
    have "rl_transport_alloc_buffer t = Some (Some a, ?t)"
      using nf h(1) h2(1) by (simp add: rl_transport_alloc_buffer_def)
    moreover have "tinv ?t qs fs (a # hs)"
      using assms a h(3,4) h2(2) by (auto simp: tinv_def)
    moreover have "pend ?t qs = pend t qs"
      using a h2(2) h(3) by (intro pend_frame) auto
    ultimately show ?thesis by (intro disjI2 exI [of _ a] exI [of _ ?t] exI [of _ fs]) (simp add: h h2)
  qed
next
  case (Cons a fs')
  then have nf: "num_free_buffers t \<noteq> 0" "next_free_buffer t = Some a"
    using assms by (simp_all add: tinv_def)
  obtain b where b: "cell (heap t) a = Some b" "chain (cell (heap t)) (next_buf b) fs'"
    using assms Cons by (auto simp: tinv_def split: option.splits)
  obtain h where h: "store (heap t) (Some a) (\<lambda>b. b\<lparr>next_buf := None\<rparr>) = Some h"
    "cell h = (cell (heap t))(a \<mapsto> b\<lparr>next_buf := None\<rparr>)"
    using store_cell [OF b(1)] by blast
  let ?t = "t\<lparr>num_free_buffers := num_free_buffers t - 1, next_free_buffer := next_buf b, heap := h\<rparr>"
  have a: "a \<notin> set (qs @ fs' @ hs)" using assms Cons by (auto simp: tinv_def)
  have "rl_transport_alloc_buffer t = Some (Some a, ?t)"
    using nf b h by (simp add: rl_transport_alloc_buffer_def)
  moreover have "tinv ?t qs fs' (a # hs)"
    using assms a b h(2) Cons by (auto simp: tinv_def split: if_splits)
  moreover have "pend ?t qs = pend t qs"
    using a h(2) by (intro pend_frame) auto
  ultimately show ?thesis by (intro disjI2 exI [of _ a] exI [of _ ?t] exI [of _ fs']) (simp add: h)
qed


lemma free_buffer_ok:
  assumes "tinv t qs fs (a # hs)"
  shows "\<exists>t' fs'. rl_transport_free_buffer t (Some a) = Some t' \<and> tinv t' qs fs' hs \<and>
           t' = t\<lparr>heap := heap t', num_free_buffers := num_free_buffers t',
                  next_free_buffer := next_free_buffer t'\<rparr> \<and> pend t' qs = pend t qs"
proof -
  obtain b where b: "cell (heap t) a = Some b"
    using tinv_allocated [OF assms, of a] by auto
  have a: "a \<notin> set (qs @ fs @ hs)" using assms by (auto simp: tinv_def)
  show ?thesis
  proof (cases "num_free_buffers t \<ge> RL_TRANSPORT_MAX_POOLED_BUFFERS")
    case True
    obtain h where h: "rl_free_sized (heap t) (Some a) = Some h" "cell h = (cell (heap t))(a := None)"
      using free_cell [OF b] by blast
    have "tinv (t\<lparr>heap := h\<rparr>) qs fs hs"
      using assms a h(2) by (auto simp: tinv_def)
    moreover have "pend (t\<lparr>heap := h\<rparr>) qs = pend t qs"
      using a h(2) by (intro pend_frame) auto
    ultimately show ?thesis
      using True h(1) by (intro exI [of _ "t\<lparr>heap := h\<rparr>"] exI [of _ fs]) (simp add: rl_transport_free_buffer_def)
  next
    case False
    obtain h where h: "store (heap t) (Some a) (\<lambda>b. b\<lparr>next_buf := next_free_buffer t\<rparr>) = Some h"
      "cell h = (cell (heap t))(a \<mapsto> b\<lparr>next_buf := next_free_buffer t\<rparr>)"
      using store_cell [OF b] by blast
    let ?t = "t\<lparr>heap := h, next_free_buffer := Some a, num_free_buffers := num_free_buffers t + 1\<rparr>"
    have "tinv ?t qs (a # fs) hs"
      using assms a b h(2) False by (auto simp: tinv_def RL_TRANSPORT_MAX_POOLED_BUFFERS_def)
    moreover have "pend ?t qs = pend t qs"
      using a h(2) by (intro pend_frame) auto
    ultimately show ?thesis
      using False h(1) by (intro exI [of _ ?t] exI [of _ "a # fs"]) (simp add: rl_transport_free_buffer_def)
  qed
qed

lemma add_output_ok:
  assumes "tinv t qs fs (a # hs)" and "cell (heap t) a = Some b" and "0 < used_size b"
    and "next_buf b = None"
  shows "\<exists>t'. rl_transport_add_output_message t (Some a) = Some (0, t') \<and> tinv t' (qs @ [a]) fs hs \<and>
           t' = t\<lparr>heap := heap t', out_queue := out_queue t', out_tail := out_tail t'\<rparr> \<and>
           pend t' (qs @ [a]) = pend t qs @ mread (buffer b) 0 (used_size b)"
proof -
  let ?b = "b\<lparr>remaining := used_size b\<rparr>"
  obtain h where h: "store (heap t) (Some a) (\<lambda>b. b\<lparr>remaining := used_size b\<rparr>) = Some h"
    "cell h = (cell (heap t))(a \<mapsto> ?b)"
    using store_cell [OF assms(2)] by blast
  have a: "a \<notin> set (qs @ fs @ hs)" "next_buf b = None" "buffer_size b = 8192"
    using assms by (auto simp: tinv_def)
  show ?thesis
  proof (cases qs rule: rev_cases)
    case Nil
    let ?t = "t\<lparr>heap := h, out_queue := Some a, out_tail := Some a\<rparr>"
    have "tinv ?t [a] fs hs"
      using assms a h(2) Nil by (auto simp: tinv_def buf_ok_def)
    moreover have "pend ?t [a] = mread (buffer b) 0 (used_size b)"
      using h(2) by (simp add: unsent_def)
    moreover have "out_queue t = None" using assms Nil by (simp add: tinv_def)
    ultimately show ?thesis
      using h(1) Nil by (intro exI [of _ ?t]) (simp add: rl_transport_add_output_message_def)
  next
    case (snoc qs' l)
    have l: "out_tail t = Some l" "l \<noteq> a" "chain (cell (heap t)) (out_queue t) qs"
      using assms snoc a by (auto simp: tinv_def)
    have q: "out_queue t \<noteq> None" using chain_Nil_iff [OF l(3)] snoc by simp
    obtain bl where bl: "cell (heap t) l = Some bl"
      using tinv_allocated [OF assms(1), of l] snoc by auto
    obtain h2 where h2: "store h (Some l) (\<lambda>b. b\<lparr>next_buf := Some a\<rparr>) = Some h2"
      "cell h2 = (cell h)(l \<mapsto> bl\<lparr>next_buf := Some a\<rparr>)"
      using store_cell [of h l bl] h(2) bl l by auto
    let ?t = "t\<lparr>heap := h2, out_tail := Some a\<rparr>"
    have "chain (cell h) (out_queue t) (qs' @ [l])"
      using assms snoc a h(2) by (auto simp: tinv_def)
    then have "chain (cell h2) (out_queue t) (qs' @ [l, a])"
      unfolding h2(2) using assms snoc a h(2) bl l(2)
      by (intro chain_snoc [where b = ?b]) (auto simp: tinv_def)
    then have "tinv ?t (qs @ [a]) fs hs"
      using assms a h(2) h2(2) bl snoc l by (auto simp: tinv_def buf_ok_def)
    moreover have "pend ?t qs' = pend t qs'"
      using assms(1) a h(2) h2(2) snoc by (intro pend_frame) (auto simp: tinv_def)
    then have "pend ?t (qs @ [a]) = pend t qs @ mread (buffer b) 0 (used_size b)"
      using snoc h2(2) h(2) bl l by (simp add: unsent_def)
    ultimately show ?thesis
      using h h2 l q by (intro exI [of _ ?t]) (auto simp add: rl_transport_add_output_message_def)
  qed
qed


text \<open>What an output operation leaves alone.\<close>

definition out_only :: "'a rl_transport_scheme \<Rightarrow> 'a rl_transport_scheme \<Rightarrow> bool" where
  "out_only t t' \<longleftrightarrow>
     inbuf t' = inbuf t \<and> disconnect t' = disconnect t \<and> sk_recvs (sock t') = sk_recvs (sock t) \<and>
     (t_error t \<longrightarrow> t_error t') \<and> rl_transport.more t' = rl_transport.more t"

lemma out_only_refl [simp]: "out_only t t"
  by (simp add: out_only_def)

lemma out_only_trans: "out_only t t' \<Longrightarrow> out_only t' t'' \<Longrightarrow> out_only t t''"
  by (auto simp: out_only_def)

lemma tinv_sock [simp]: "tinv (t\<lparr>sock := sk\<rparr>) = tinv t" "pend (t\<lparr>sock := sk\<rparr>) = pend t"
  "tinv (t\<lparr>t_error := e\<rparr>) = tinv t" "pend (t\<lparr>t_error := e\<rparr>) = pend t"
  by (simp_all add: tinv_def pend_def fun_eq_iff)

lemma unsent_step:
  assumes "n \<le> remaining b" and "remaining b \<le> used_size b"
  shows "unsent b = take n (unsent b) @ unsent (b\<lparr>remaining := remaining b - n\<rparr>)"
proof -
  have "drop n (unsent b) = unsent (b\<lparr>remaining := remaining b - n\<rparr>)"
    using assms by (simp add: unsent_def)
  then show ?thesis by (metis append_take_drop_id)
qed

text \<open>One round of the send loop that ships \<open>n\<close> bytes of the first buffer.\<close>

lemma ship_partial:
  assumes inv: "tinv t (q # qs) fs hs" and b: "cell (heap t) q = Some b"
    and n: "0 < n" "n < remaining b"
    and h: "cell h = (cell (heap t))(q \<mapsto> b\<lparr>remaining := remaining b - n\<rparr>)"
  shows "tinv (t\<lparr>heap := h\<rparr>) (q # qs) fs hs \<and> pend t (q # qs) = take n (unsent b) @ pend (t\<lparr>heap := h\<rparr>) (q # qs)"
proof
  have q: "q \<notin> set (qs @ fs @ hs)" using inv by (auto simp: tinv_def)
  show "tinv (t\<lparr>heap := h\<rparr>) (q # qs) fs hs"
    using inv b n h q by (auto simp: tinv_def buf_ok_def)
  have "buf_ok b" using inv b by (auto simp: tinv_def)
  then have "unsent b = take n (unsent b) @ unsent (b\<lparr>remaining := remaining b - n\<rparr>)"
    using n by (intro unsent_step) (auto simp: buf_ok_def)
  moreover have "pend (t\<lparr>heap := h\<rparr>) qs = pend t qs"
    using q h by (intro pend_frame) auto
  ultimately show "pend t (q # qs) = take n (unsent b) @ pend (t\<lparr>heap := h\<rparr>) (q # qs)"
    using b h by simp
qed

lemma ship_whole:
  assumes inv: "tinv t (q # qs) fs hs" and b: "cell (heap t) q = Some b"
    and h: "cell h = (cell (heap t))(q \<mapsto> b\<lparr>remaining := 0\<rparr>)"
  shows "tinv (t\<lparr>heap := h, out_queue := next_buf b\<rparr>) qs fs (q # hs) \<and>
           pend t (q # qs) = unsent b @ pend (t\<lparr>heap := h, out_queue := next_buf b\<rparr>) qs"
proof
  have q: "q \<notin> set (qs @ fs @ hs)" using inv by (auto simp: tinv_def)
  show "tinv (t\<lparr>heap := h, out_queue := next_buf b\<rparr>) qs fs (q # hs)"
    using inv b h q by (auto simp: tinv_def split: if_splits)
  have "pend (t\<lparr>heap := h, out_queue := next_buf b\<rparr>) qs = pend t qs"
    using q h by (intro pend_frame) auto
  then show "pend t (q # qs) = unsent b @ pend (t\<lparr>heap := h, out_queue := next_buf b\<rparr>) qs"
    using b by simp
qed


text \<open>The result of the send loop, in terms of the abstract stream.\<close>

definition shipped ::
  "'a rl_transport_scheme \<Rightarrow> nat list \<Rightarrow> 'a rl_transport_scheme \<Rightarrow> nat list \<Rightarrow> bool" where
  "shipped t qs t' qs' \<longleftrightarrow>
     out_only t t' \<and>
     (\<exists>ds. sk_sent (sock t') = sk_sent (sock t) @ ds \<and> pend t qs = ds @ pend t' qs') \<and>
     (list_all (\<lambda>x. \<exists>n>0. x = Send_accept n) (sk_sends (sock t)) \<and>
      length (pend t qs) \<le> length (sk_sends (sock t)) \<longrightarrow> qs' = [] \<and> t_error t' = t_error t)"

lemma shipped_step:
  assumes "shipped t1 qs1 t' qs'" and "out_only t t1" and "t_error t1 = t_error t"
    and "sk_sends (sock t) = x # sk_sends (sock t1)"
    and "sk_sent (sock t1) = sk_sent (sock t) @ ds" and "pend t qs = ds @ pend t1 qs1" and "ds \<noteq> []"
  shows "shipped t qs t' qs'"
  using assms out_only_trans by (cases ds) (auto simp: shipped_def)

lemma tinv_head:
  assumes "tinv t (q # qs) fs hs"
  obtains b where "cell (heap t) q = Some b" "buf_ok b" "out_queue t = Some q"
  using assms by (auto simp: tinv_def split: option.splits)

lemma output_blocked:
  assumes inv: "tinv t (q # qs) fs hs" and "\<not> (\<exists>k ss. sk_sends (sock t) = Send_accept k # ss \<and> k > 0)"
  shows "\<exists>t'. rl_transport_on_output_possible t = Some t' \<and> tinv t' (q # qs) fs hs \<and>
           shipped t (q # qs) t' (q # qs)"
proof -
  obtain b where b: "cell (heap t) q = Some b" "buf_ok b" "out_queue t = Some q"
    using inv by (rule tinv_head)
  have "\<exists>t'. rl_transport_on_output_possible t = Some t' \<and> tinv t' (q # qs) fs hs \<and>
      out_only t t' \<and> sk_sent (sock t') = sk_sent (sock t) \<and> pend t' (q # qs) = pend t (q # qs)"
    using assms b
    by (subst rl_transport_on_output_possible.simps)
      (auto simp: send_def out_only_def Let_def unsent_def split: list.split send_outcome.split)
  then obtain t' where t': "rl_transport_on_output_possible t = Some t'" "tinv t' (q # qs) fs hs"
    "out_only t t'" "sk_sent (sock t') = sk_sent (sock t)" "pend t' (q # qs) = pend t (q # qs)"
    by blast
  have "\<not> (list_all (\<lambda>x. \<exists>n>0. x = Send_accept n) (sk_sends (sock t)) \<and>
             length (pend t (q # qs)) \<le> length (sk_sends (sock t)))"
    using assms(2) b by (cases "sk_sends (sock t)") (auto simp: buf_ok_def unsent_def)
  with t' show ?thesis by (auto simp: shipped_def simp del: pend_simps)
qed

text \<open>A round that ships \<open>k > 0\<close> bytes leads to another transport state from which the loop goes on.\<close>

definition loop_step ::
  "'a rl_transport_scheme \<Rightarrow> nat list \<Rightarrow> 'a rl_transport_scheme \<Rightarrow> nat list \<Rightarrow> bool" where
  "loop_step t qs t1 qs1 \<longleftrightarrow>
     rl_transport_on_output_possible t = rl_transport_on_output_possible t1 \<and>
     out_only t t1 \<and> t_error t1 = t_error t \<and>
     (\<exists>x. sk_sends (sock t) = x # sk_sends (sock t1)) \<and>
     (\<exists>ds. ds \<noteq> [] \<and> sk_sent (sock t1) = sk_sent (sock t) @ ds \<and> pend t qs = ds @ pend t1 qs1)"

lemma output_partial:
  assumes inv: "tinv t (q # qs) fs hs" and b: "cell (heap t) q = Some b"
    and k: "sk_sends (sock t) = Send_accept k # ss" "0 < k" "k < remaining b"
  shows "\<exists>t1. tinv t1 (q # qs) fs hs \<and> loop_step t (q # qs) t1 (q # qs)"
proof -
  let ?ds = "take k (unsent b)"
  let ?sk = "(sock t)\<lparr>sk_sends := ss, sk_sent := sk_sent (sock t) @ ?ds\<rparr>"
  obtain h where h: "store (heap t) (Some q) (\<lambda>b. b\<lparr>remaining := remaining b - k\<rparr>) = Some h"
    "cell h = (cell (heap t))(q \<mapsto> b\<lparr>remaining := remaining b - k\<rparr>)"
    using store_cell [OF b] by blast
  let ?t = "t\<lparr>sock := ?sk, heap := h\<rparr>"
  have "out_queue t = Some q" using inv by (rule tinv_head)
  then have run: "rl_transport_on_output_possible t = rl_transport_on_output_possible ?t"
    using b k h
    by (subst (1) rl_transport_on_output_possible.simps) (simp add: send_def unsent_def Let_def min_def)
  note sp = ship_partial [OF inv b k(2,3) h(2)]
  have "tinv ?t (q # qs) fs hs" "pend t (q # qs) = ?ds @ pend ?t (q # qs)"
    using sp unfolding tinv_def pend_def by simp_all
  moreover have "?ds \<noteq> []" using k by (auto simp: unsent_def simp flip: length_0_conv)
  ultimately show ?thesis
    using run k(1) by (intro exI [of _ ?t]) (simp add: loop_step_def out_only_def del: pend_simps)
qed

lemma output_whole:
  assumes inv: "tinv t (q # qs) fs hs" and b: "cell (heap t) q = Some b"
    and k: "sk_sends (sock t) = Send_accept k # ss" "remaining b \<le> k"
  shows "\<exists>t1 fs1. tinv t1 qs fs1 hs \<and> loop_step t (q # qs) t1 qs"
proof -
  let ?sk = "(sock t)\<lparr>sk_sends := ss, sk_sent := sk_sent (sock t) @ unsent b\<rparr>"
  have oq: "out_queue t = Some q" and rem: "0 < remaining b"
    using inv b by (auto simp: tinv_def buf_ok_def)
  obtain h where h: "store (heap t) (Some q) (\<lambda>c. c\<lparr>remaining := remaining c - remaining b\<rparr>) = Some h"
    "cell h = (cell (heap t))(q \<mapsto> b\<lparr>remaining := 0\<rparr>)"
    using store_cell [OF b, of "\<lambda>c. c\<lparr>remaining := remaining c - remaining b\<rparr>"] by auto
  let ?t0 = "t\<lparr>sock := ?sk, heap := h, out_queue := next_buf b\<rparr>"
  note sw = ship_whole [OF inv b h(2)]
  have t0: "tinv ?t0 qs fs (q # hs)" "pend t (q # qs) = unsent b @ pend ?t0 qs"
    using sw unfolding tinv_def pend_def by simp_all
  obtain t1 fs1 where t1: "rl_transport_free_buffer ?t0 (Some q) = Some t1" "tinv t1 qs fs1 hs"
    "t1 = ?t0\<lparr>heap := heap t1, num_free_buffers := num_free_buffers t1,
       next_free_buffer := next_free_buffer t1\<rparr>" "pend t1 qs = pend ?t0 qs"
    using free_buffer_ok [OF t0(1)] by blast
  have st: "sock t1 = ?sk" "out_only t t1" "t_error t1 = t_error t"
    by (subst t1(3), simp add: out_only_def)+
  have "rl_transport_on_output_possible t = rl_transport_on_output_possible t1"
    using b oq k rem h t1(1)
    by (subst (1) rl_transport_on_output_possible.simps) (simp add: send_def unsent_def Let_def)
  moreover have "unsent b \<noteq> []" using rem by (auto simp: unsent_def simp flip: length_0_conv)
  ultimately show ?thesis
    using t1(2,4) t0(2) st k(1)
    by (intro exI [of _ t1] exI [of _ fs1]) (simp add: loop_step_def del: pend_simps)
qed

lemma output_ok:
  "tinv t qs fs hs \<Longrightarrow>
     \<exists>t' qs' fs'. rl_transport_on_output_possible t = Some t' \<and> tinv t' qs' fs' hs \<and> shipped t qs t' qs'"
proof (induction "length (sk_sends (sock t))" arbitrary: t qs fs rule: less_induct)
  case less
  show ?case
  proof (cases qs)
    case Nil
    then have "out_queue t = None" using less.prems by (simp add: tinv_def)
    then show ?thesis
      using less.prems Nil by (subst rl_transport_on_output_possible.simps) (auto simp: shipped_def)
  next
    case (Cons q qs0)
    note inv = less.prems [unfolded Cons]
    obtain b where b: "cell (heap t) q = Some b" using inv by (rule tinv_head)
    show ?thesis
    proof (cases "\<exists>k ss. sk_sends (sock t) = Send_accept k # ss \<and> k > 0")
      case False
      then show ?thesis using output_blocked [OF inv] Cons by blast
    next
      case True
      then obtain t1 qs1 fs1 where t1: "tinv t1 qs1 fs1 hs" "loop_step t qs t1 qs1"
        using output_partial [OF inv b] output_whole [OF inv b] Cons by (metis not_le)
      then have "length (sk_sends (sock t1)) < length (sk_sends (sock t))"
        by (auto simp: loop_step_def)
      then obtain t' qs' fs' where "rl_transport_on_output_possible t1 = Some t'"
        "tinv t' qs' fs' hs" "shipped t1 qs1 t' qs'"
        using less.hyps t1(1) by blast
      then show ?thesis
        using t1(2) shipped_step unfolding loop_step_def by metis
    qed
  qed
qed


section \<open>The end of a transport\<close>

lemma free_buffer_out_queue:
  "rl_transport_free_buffer (t\<lparr>out_queue := x\<rparr>) p =
     map_option (\<lambda>t. t\<lparr>out_queue := x\<rparr>) (rl_transport_free_buffer t p)"
  by (simp add: rl_transport_free_buffer_def map_option_case split: bind_splits)

lemma tinv_pop:
  assumes "tinv t (q # qs) fs hs" and "cell (heap t) q = Some b"
  shows "tinv (t\<lparr>out_queue := next_buf b\<rparr>) qs fs (q # hs)"
  using assms by (auto simp: tinv_def)

lemma destroy_queue_ok:
  "tinv (t\<lparr>out_queue := p\<rparr>) qs fs [] \<Longrightarrow>
     \<exists>t' fs'. destroy_queue t p = Some t' \<and> tinv (t'\<lparr>out_queue := None\<rparr>) [] fs' []"
proof (induction qs arbitrary: t p fs)
  case Nil
  then show ?case by (subst destroy_queue.simps) (auto simp: tinv_def)
next
  case (Cons q qs)
  obtain b where b: "cell (heap t) q = Some b" "p = Some q"
    using Cons.prems by (auto elim!: tinv_head)
  have "tinv (t\<lparr>out_queue := next_buf b\<rparr>) qs fs [q]"
    using tinv_pop [OF Cons.prems, of b] b by simp
  from free_buffer_ok [OF this] obtain t1 fs1 where
    "rl_transport_free_buffer t (Some q) = Some t1" "tinv (t1\<lparr>out_queue := next_buf b\<rparr>) qs fs1 []"
    by (auto simp: free_buffer_out_queue)
  with Cons.IH b show ?case by (subst destroy_queue.simps) auto
qed

lemma destroy_pool_ok:
  "chain (cell (heap t)) p fs \<Longrightarrow> distinct fs \<Longrightarrow> dom (cell (heap t)) = set fs \<Longrightarrow>
     \<exists>h. destroy_pool t p = Some (t\<lparr>heap := h\<rparr>) \<and> cell h = Map.empty"
proof (induction fs arbitrary: t p)
  case Nil
  then show ?case by (subst destroy_pool.simps) (auto intro!: exI [of _ "heap t"])
next
  case (Cons a fs)
  obtain b where b: "cell (heap t) a = Some b" "p = Some a" "chain (cell (heap t)) (next_buf b) fs"
    using Cons.prems by (auto split: option.splits)
  obtain h where h: "rl_free_sized (heap t) (Some a) = Some h" "cell h = (cell (heap t))(a := None)"
    using free_cell [OF b(1)] by blast
  have "dom (cell h) = set fs" "chain (cell h) (next_buf b) fs" using Cons.prems b(3) h(2) by auto
  then have "\<exists>h'. destroy_pool (t\<lparr>heap := h\<rparr>) (next_buf b) = Some (t\<lparr>heap := h'\<rparr>) \<and> cell h' = Map.empty"
    using Cons.IH [where t = "t\<lparr>heap := h\<rparr>" and p = "next_buf b"] Cons.prems(2) by simp
  then show ?case using b h by (subst destroy_pool.simps) auto
qed

lemma destroy_ok:
  assumes "tinv t qs fs []"
  shows "\<exists>t'. rl_transport_destroy t = Some t' \<and> cell (heap t') = Map.empty \<and> \<not> valid (inbuf t')"
proof -
  obtain t1 fs1 where t1: "destroy_queue t (out_queue t) = Some t1" "tinv (t1\<lparr>out_queue := None\<rparr>) [] fs1 []"
    using destroy_queue_ok [where t = t and p = "out_queue t"] assms by fastforce
  then obtain h where "destroy_pool t1 (next_free_buffer t1) = Some (t1\<lparr>heap := h\<rparr>)" "cell h = Map.empty"
    using destroy_pool_ok [where t = t1 and p = "next_free_buffer t1" and fs = fs1]
    by (auto simp: tinv_def)
  with t1 show ?thesis by (simp add: rl_transport_destroy_def rl_iobuf_destroy_def)
qed

lemma init_ok:
  assumes "cell (heap t) = Map.empty"
  shows "\<exists>rc t'. rl_transport_init t sz = Some (rc, t') \<and> (rc = 0 \<or> rc = 1) \<and>
           (rc = 0 \<longrightarrow> inbuf t' = \<lparr>base_address = 0, read_cursor = 0, write_cursor = 0, end_address = sz,
                                   valid = True, io_mem = (\<lambda>_. 0)\<rparr> \<and>
                        \<not> t_error t' \<and> \<not> disconnect t') \<and>
           (rc = 1 \<longrightarrow> \<not> valid (inbuf t')) \<and>
           tinv t' [] [] [] \<and> sock t' = sock t \<and> rl_transport.more t' = rl_transport.more t"
proof -
  obtain ok h where h: "malloc_outcome (heap t) = (ok, h)" by (cases "malloc_outcome (heap t)")
  then have "cells h = cells (heap t)"
    by (auto simp: malloc_outcome_def split: list.splits)
  then have "cell h = cell (heap t)"
    by (intro ext) (simp add: cell_lookup)
  with assms have "cell h = Map.empty" by simp
  with h show ?thesis
    by (cases ok) (auto simp: rl_transport_init_def rl_iobuf_init_def tinv_def Let_def
        rl_transport_destroy_def rl_iobuf_destroy_def destroy_queue.simps destroy_pool.simps)
qed

section \<open>Input: cutting the stream into messages\<close>

text \<open>
  The specification of \<open>rl_transport_update\<close>: how a byte sequence splits into messages when
  \<open>pk\<close> tells the size of the message at its front and \<open>cap\<close> is the size of the buffer. The
  result is the messages, the bytes that are left and whether the stream is in error there.
\<close>

function deframe ::
  "(rl_uint8 list \<Rightarrow> int) \<Rightarrow> nat \<Rightarrow> rl_uint8 list \<Rightarrow> rl_uint8 list list \<times> rl_uint8 list \<times> bool" where
  "deframe pk cap bs =
     (if bs = [] then ([], [], False)
      else if pk bs \<le> 0 then ([], bs, pk bs < 0)
      else if pk bs > int cap then ([], bs, True)
      else if int (length bs) < pk bs then ([], bs, False)
      else
        let (ms, r, e) = deframe pk cap (drop (nat (pk bs)) bs)
        in (take (nat (pk bs)) bs # ms, r, e))"
  by pat_completeness auto
termination
  by (relation "measure (\<lambda>(pk, cap, bs). length bs)") auto

declare deframe.simps [simp del]

text \<open>Whether a whole message is at the front.\<close>

definition front :: "(rl_uint8 list \<Rightarrow> int) \<Rightarrow> nat \<Rightarrow> rl_uint8 list \<Rightarrow> bool" where
  "front pk cap bs = (bs \<noteq> [] \<and> 0 < pk bs \<and> pk bs \<le> int cap \<and> pk bs \<le> int (length bs))"

lemma deframe_step:
  "front pk cap bs \<Longrightarrow> deframe pk cap bs =
     (let (ms, r, e) = deframe pk cap (drop (nat (pk bs)) bs) in (take (nat (pk bs)) bs # ms, r, e))"
  by (subst deframe.simps) (simp add: front_def)

lemma deframe_stop:
  "\<not> front pk cap bs \<Longrightarrow>
     deframe pk cap bs = ([], bs, bs \<noteq> [] \<and> (pk bs < 0 \<or> pk bs > int cap))"
  by (subst deframe.simps) (auto simp: front_def)

lemma front_drop: "front pk cap bs \<Longrightarrow> length (drop (nat (pk bs)) bs) < length bs"
  by (auto simp: front_def)

definition iinv :: "rl_iobuf \<Rightarrow> bool" where
  "iinv b \<longleftrightarrow> base_address b = 0 \<and> read_cursor b \<le> write_cursor b \<and> write_cursor b \<le> end_address b"

definition incoming :: "rl_iobuf \<Rightarrow> rl_uint8 list" where
  "incoming b = mread (io_mem b) (read_cursor b) (write_cursor b - read_cursor b)"

lemma incoming_Nil: "iinv b \<Longrightarrow> (incoming b = []) = (\<not> read_cursor b < write_cursor b)"
  by (auto simp: incoming_def iinv_def simp flip: length_0_conv)

lemma length_incoming [simp]: "length (incoming b) = write_cursor b - read_cursor b"
  by (simp add: incoming_def)

lemma incoming_advance:
  "iinv b \<Longrightarrow> n \<le> length (incoming b) \<Longrightarrow>
     iinv (b\<lparr>read_cursor := read_cursor b + n\<rparr>) \<and>
     incoming (b\<lparr>read_cursor := read_cursor b + n\<rparr>) = drop n (incoming b) \<and>
     mread (io_mem b) (read_cursor b) n = take n (incoming b)"
  by (auto simp: iinv_def incoming_def min_def)

lemma trim_inbuf_ok:
  assumes "iinv b"
  shows "iinv (trim_inbuf b) \<and> incoming (trim_inbuf b) = incoming b \<and> read_cursor (trim_inbuf b) = 0 \<and>
           end_address (trim_inbuf b) = end_address b"
  using assms by (auto simp: trim_inbuf_def iinv_def incoming_def Let_def rl_memmove_eq mem_simps)

text \<open>
  The interface between the transport and its owner. \<open>peek\<close> looks at nothing but the bytes
  that have arrived, and its answer does not change when more bytes arrive, unless it asked
  for more.
\<close>

locale framing =
  fixes peek :: "mem \<Rightarrow> nat \<Rightarrow> nat \<Rightarrow> int" and pk :: "rl_uint8 list \<Rightarrow> int" and cap :: nat
  assumes peek_bytes: "peek m c n = pk (mread m c n)"
    and stable: "pk bs \<le> int (length bs) \<or> pk bs > int cap \<Longrightarrow> pk (bs @ xs) = pk bs"
begin

lemma deframe_append:
  "deframe pk cap bs = (ms, r, e) \<Longrightarrow>
     deframe pk cap (bs @ xs) =
       (if e then (ms, r @ xs, True)
        else let (ms', r', e') = deframe pk cap (r @ xs) in (ms @ ms', r', e'))"
proof (induction "length bs" arbitrary: bs ms r e rule: less_induct)
  case less
  show ?case
  proof (cases "front pk cap bs")
    case True
    let ?n = "nat (pk bs)"
    obtain ms1 where rec: "deframe pk cap (drop ?n bs) = (ms1, r, e)" "ms = take ?n bs # ms1"
      using less.prems by (auto simp: deframe_step [OF True] split: prod.splits)
    note IH = less.hyps [OF front_drop [OF True] rec(1)]
    have "pk (bs @ xs) = pk bs" using stable True by (simp add: front_def)
    moreover from this have "front pk cap (bs @ xs)" using True by (auto simp: front_def)
    ultimately show ?thesis
      using rec(2) IH True by (auto simp: deframe_step front_def split: prod.splits)
  next
    case False
    then show ?thesis
      using less.prems stable [of bs xs] deframe_stop [of pk cap "bs @ xs"]
      by (auto simp: deframe_stop front_def)
  qed
qed

lemma deframe_rest:
  "deframe pk cap bs = (ms, r, e) \<Longrightarrow> deframe pk cap r = ([], r, e)"
proof (induction "length bs" arbitrary: bs ms rule: less_induct)
  case less
  show ?case
  proof (cases "front pk cap bs")
    case True
    then show ?thesis
      using less.prems less.hyps [OF front_drop [OF True]] by (auto simp: deframe_step split: prod.splits)
  next
    case False
    then show ?thesis using less.prems by (auto simp: deframe_stop)
  qed
qed

lemma deframe_room:
  assumes "deframe pk cap r = ([], r, False)" and "0 < cap"
  shows "pk r = 0 \<or> length r < cap"
proof (cases "front pk cap r")
  case True
  show ?thesis using assms(1) unfolding deframe_step [OF True] by (simp split: prod.splits)
next
  case False
  then show ?thesis using assms by (auto simp: deframe_stop front_def)
qed

end

text \<open>
  A sink: what the owner's \<open>deliver\<close> has to keep so that the loop ends and the buffer
  stays in order. \<open>P\<close> is an invariant of the owner.
\<close>

locale transport_sink = framing peek pk cap
  for peek :: "mem \<Rightarrow> nat \<Rightarrow> nat \<Rightarrow> int" and pk :: "rl_uint8 list \<Rightarrow> int" and cap :: nat +
  fixes deliver :: "'a rl_transport_scheme \<Rightarrow> nat \<Rightarrow> nat \<Rightarrow> (int \<times> 'a rl_transport_scheme) option"
    and P :: "'a rl_transport_scheme \<Rightarrow> bool"
  assumes deliver_ok: "P t \<Longrightarrow> \<exists>rc t'. deliver t c n = Some (rc, t') \<and> P t' \<and> inbuf t' = inbuf t"
    and P_inbuf: "P t \<Longrightarrow> P (t\<lparr>inbuf := b\<rparr>)"
    and P_error: "P t \<Longrightarrow> P (t\<lparr>t_error := True\<rparr>)"
begin

lemma loop_ok:
  "P t \<Longrightarrow> iinv (inbuf t) \<Longrightarrow> end_address (inbuf t) = cap \<Longrightarrow>
     \<exists>failed t'. update_loop peek deliver t = Some (failed, t') \<and> P t' \<and> iinv (inbuf t') \<and>
       end_address (inbuf t') = cap \<and> (failed \<longrightarrow> t_error t') \<and>
       (\<not> failed \<longrightarrow> deframe pk cap (incoming (inbuf t')) = ([], incoming (inbuf t'), False))"
proof (induction "length (incoming (inbuf t))" arbitrary: t rule: less_induct)
  case less
  let ?b = "inbuf t" and ?bs = "incoming (inbuf t)"
  have pk: "peek (io_mem ?b) (read_cursor ?b) (write_cursor ?b - read_cursor ?b) = pk ?bs"
    by (simp add: peek_bytes incoming_def)
  show ?case
  proof (cases "front pk cap ?bs")
    case True
    let ?n = "nat (pk ?bs)"
    obtain rc t1 where d: "deliver t (read_cursor ?b) ?n = Some (rc, t1)" "P t1" "inbuf t1 = ?b"
      using deliver_ok less.prems(1) by blast
    have run: "update_loop peek deliver t =
        (if rc \<noteq> 0 then Some (True, t1\<lparr>t_error := True\<rparr>)
         else update_loop peek deliver (t1\<lparr>inbuf := ?b\<lparr>read_cursor := read_cursor ?b + ?n\<rparr>\<rparr>))"
      using True less.prems d pk incoming_Nil
      by (subst update_loop.simps) (simp add: Let_def iinv_def front_def)
    have adv: "iinv (?b\<lparr>read_cursor := read_cursor ?b + ?n\<rparr>)"
      "incoming (?b\<lparr>read_cursor := read_cursor ?b + ?n\<rparr>) = drop ?n ?bs"
      using incoming_advance [OF less.prems(2), of ?n] True by (auto simp: front_def)
    show ?thesis
    proof (cases "rc = 0")
      case rc: True
      show ?thesis
        using less.hyps [of "t1\<lparr>inbuf := ?b\<lparr>read_cursor := read_cursor ?b + ?n\<rparr>\<rparr>"]
          adv d(2) P_inbuf less.prems(3) run rc front_drop [OF True] by simp
    next
      case False
      then show ?thesis
        using run d P_error less.prems by (intro exI [of _ True] exI [of _ "t1\<lparr>t_error := True\<rparr>"]) simp
    qed
  next
    case False
    then show ?thesis
      using less.prems pk incoming_Nil [OF less.prems(2)] P_error
      by (subst update_loop.simps) (auto simp: Let_def iinv_def front_def deframe_stop)
  qed
qed

lemma update_ok:
  assumes "P t" and "iinv (inbuf t)" and "end_address (inbuf t) = cap" and "0 < cap"
  shows "\<exists>status t'. rl_transport_update peek deliver t = Some (status, t') \<and> P t' \<and>
           iinv (inbuf t') \<and> end_address (inbuf t') = cap \<and>
           (status = RL_TRANSPORT_ERROR \<and> t_error t' \<or>
            status = RL_TRANSPORT_DISCONNECTED \<and> disconnect t' \<or>
            status = (if out_queue t' \<noteq> None then RL_TRANSPORT_NEED_OUTPUT else 0) \<and>
            (pk (incoming (inbuf t')) = 0 \<or> write_cursor (inbuf t') < end_address (inbuf t')))"
proof (cases "t_error t \<or> disconnect t")
  case True
  then show ?thesis using assms by (auto simp: rl_transport_update_def)
next
  case False
  obtain failed t1 where l: "update_loop peek deliver t = Some (failed, t1)" "P t1" "iinv (inbuf t1)"
    "end_address (inbuf t1) = cap" "failed \<longrightarrow> t_error t1"
    "\<not> failed \<longrightarrow> deframe pk cap (incoming (inbuf t1)) = ([], incoming (inbuf t1), False)"
    using loop_ok [OF assms(1-3)] by blast
  show ?thesis
  proof (cases failed)
    case True
    then show ?thesis using l False by (simp add: rl_transport_update_def)
  next
    case nf: False
    then have "pk (incoming (inbuf t1)) = 0 \<or> length (incoming (inbuf t1)) < cap"
      using l(6) assms(4) deframe_room by blast
    then show ?thesis
      using l nf False trim_inbuf_ok [OF l(3)] P_inbuf length_incoming [of "trim_inbuf (inbuf t1)"]
      by (auto simp: rl_transport_update_def Let_def simp del: length_incoming)
  qed
qed

end


section \<open>The delivered messages do not depend on the chunks\<close>

text \<open>An owner that accepts every message and keeps a list of them.\<close>

record recorder = rl_transport +
  delivered :: "rl_uint8 list list"

definition record_delivery :: "recorder \<Rightarrow> nat \<Rightarrow> nat \<Rightarrow> (int \<times> recorder) option" where
  "record_delivery t c n = Some (0, t\<lparr>delivered := delivered t @ [mread (io_mem (inbuf t)) c n]\<rparr>)"

definition receive_round :: "(mem \<Rightarrow> nat \<Rightarrow> nat \<Rightarrow> int) \<Rightarrow> recorder \<Rightarrow> recorder option" where
  "receive_round peek t =
     map_option snd (rl_transport_update peek record_delivery (rl_transport_on_input_arrived t))"

fun receive_rounds :: "(mem \<Rightarrow> nat \<Rightarrow> nat \<Rightarrow> int) \<Rightarrow> nat \<Rightarrow> recorder \<Rightarrow> recorder option" where
  "receive_rounds peek 0 t = Some t"
| "receive_rounds peek (Suc k) t = do { t \<leftarrow> receive_round peek t; receive_rounds peek k t }"

definition to_come :: "rl_socket \<Rightarrow> rl_uint8 list" where
  "to_come sk = concat (map (\<lambda>r. case r of Recv_data bs \<Rightarrow> bs | _ \<Rightarrow> []) (sk_recvs sk))"

definition only_data :: "rl_socket \<Rightarrow> bool" where
  "only_data sk = list_all (\<lambda>r. case r of Recv_data bs \<Rightarrow> bs \<noteq> [] | _ \<Rightarrow> False) (sk_recvs sk)"

lemma incoming_write:
  "iinv b \<Longrightarrow> incoming (b\<lparr>io_mem := mwrite (io_mem b) (write_cursor b) bs,
                            write_cursor := write_cursor b + length bs\<rparr>) = incoming b @ bs"
proof -
  assume "iinv b"
  then have "write_cursor b + length bs - read_cursor b = (write_cursor b - read_cursor b) + length bs"
    "read_cursor b + (write_cursor b - read_cursor b) = write_cursor b"
    by (simp_all add: iinv_def)
  then show ?thesis by (simp add: incoming_def mread_add mem_simps del: Nat.add_diff_assoc2)
qed

lemma input_arrived_ok:
  fixes t :: "'a rl_transport_scheme"
  assumes "iinv (inbuf t)" and "only_data (sock t)" and "write_cursor (inbuf t) < end_address (inbuf t)"
  shows "\<exists>b sk. rl_transport_on_input_arrived t = t\<lparr>sock := sk, inbuf := b\<rparr> \<and> iinv b \<and>
           end_address b = end_address (inbuf t) \<and> only_data sk \<and>
           incoming b @ to_come sk = incoming (inbuf t) @ to_come (sock t) \<and>
           length (to_come sk) \<le> length (to_come (sock t)) - 1"
proof (cases "sk_recvs (sock t)")
  case Nil
  then show ?thesis
    using assms
    by (intro exI [of _ "inbuf t"] exI [of _ "sock t"])
      (simp add: rl_transport_on_input_arrived_def recv_def to_come_def)
next
  case (Cons r rs)
  obtain bs where r: "r = Recv_data bs" "bs \<noteq> []"
    using assms(2) Cons by (cases r) (auto simp: only_data_def)
  let ?left = "end_address (inbuf t) - write_cursor (inbuf t)"
  let ?b = "(inbuf t)\<lparr>io_mem := mwrite (io_mem (inbuf t)) (write_cursor (inbuf t)) (take ?left bs),
                      write_cursor := write_cursor (inbuf t) + length (take ?left bs)\<rparr>"
  let ?sk = "(sock t)\<lparr>sk_recvs := (if length bs \<le> ?left then rs else Recv_data (drop ?left bs) # rs)\<rparr>"
  have "take ?left bs \<noteq> []" using assms(3) r(2) by simp
  then have "rl_transport_on_input_arrived t = t\<lparr>sock := ?sk, inbuf := ?b\<rparr>"
    using Cons r by (simp add: rl_transport_on_input_arrived_def recv_def Let_def)
  moreover have "incoming ?b = incoming (inbuf t) @ take ?left bs"
    using incoming_write [OF assms(1)] .
  moreover have "iinv ?b" using assms(1) by (auto simp: iinv_def)
  moreover have "only_data ?sk" using assms(2,3) Cons r by (auto simp: only_data_def)
  moreover have "take ?left bs @ to_come ?sk = to_come (sock t)"
    "length (to_come ?sk) < length (to_come (sock t))"
    using Cons r assms(3) by (auto simp: to_come_def)
  ultimately show ?thesis
    by (intro exI [of _ ?b] exI [of _ ?sk]) simp
qed

text \<open>The state between two rounds, relative to the messages \<open>all\<close> of the whole stream.\<close>

definition between ::
  "(rl_uint8 list \<Rightarrow> int) \<Rightarrow> nat \<Rightarrow> rl_uint8 list list \<Rightarrow> recorder \<Rightarrow> bool" where
  "between pk cap all t \<longleftrightarrow>
     iinv (inbuf t) \<and> end_address (inbuf t) = cap \<and> only_data (sock t) \<and> \<not> t_error t \<and> \<not> disconnect t \<and>
     write_cursor (inbuf t) < cap \<and> deframe pk cap (incoming (inbuf t)) = ([], incoming (inbuf t), False) \<and>
     (\<exists>ms. deframe pk cap (incoming (inbuf t) @ to_come (sock t)) = (ms, [], False) \<and>
           all = delivered t @ ms)"

context framing
begin

lemma recorder_loop:
  "iinv (inbuf t) \<Longrightarrow> end_address (inbuf t) = cap \<Longrightarrow>
   deframe pk cap (incoming (inbuf t)) = (ms, r, False) \<Longrightarrow>
     \<exists>b. update_loop peek record_delivery t =
           Some (False, t\<lparr>delivered := delivered t @ ms, inbuf := b\<rparr>) \<and>
         iinv b \<and> end_address b = cap \<and> incoming b = r"
proof (induction "length (incoming (inbuf t))" arbitrary: t ms rule: less_induct)
  case less
  let ?b = "inbuf t" and ?bs = "incoming (inbuf t)"
  have pk: "peek (io_mem ?b) (read_cursor ?b) (write_cursor ?b - read_cursor ?b) = pk ?bs"
    by (simp add: peek_bytes incoming_def)
  show ?case
  proof (cases "front pk cap ?bs")
    case True
    let ?n = "nat (pk ?bs)"
    let ?t = "t\<lparr>delivered := delivered t @ [take ?n ?bs],
                inbuf := ?b\<lparr>read_cursor := read_cursor ?b + ?n\<rparr>\<rparr>"
    have adv: "iinv (inbuf ?t)" "incoming (inbuf ?t) = drop ?n ?bs"
      "mread (io_mem ?b) (read_cursor ?b) ?n = take ?n ?bs"
      using incoming_advance [OF less.prems(1), of ?n] True by (auto simp: front_def)
    have run: "update_loop peek record_delivery t = update_loop peek record_delivery ?t"
      using True less.prems(1,2) adv(3) pk incoming_Nil
      by (subst update_loop.simps) (simp add: Let_def iinv_def front_def record_delivery_def)
    obtain ms1 where ms1: "deframe pk cap (incoming (inbuf ?t)) = (ms1, r, False)" "ms = take ?n ?bs # ms1"
      using less.prems(3) adv(2) by (auto simp: deframe_step [OF True] split: prod.splits)
    have "length (incoming (inbuf ?t)) < length ?bs" using front_drop [OF True] adv(2) by simp
    from less.hyps [OF this adv(1) _ ms1(1)] less.prems(2) show ?thesis
      using run ms1(2) by auto
  next
    case False
    then have "update_loop peek record_delivery t = Some (False, t)"
      using less.prems pk incoming_Nil [OF less.prems(1)]
      by (subst update_loop.simps) (auto simp: Let_def iinv_def front_def deframe_stop)
    then show ?thesis
      using less.prems False by (intro exI [of _ ?b]) (auto simp: deframe_stop)
  qed
qed

lemma round_between:
  assumes "between pk cap all t"
  shows "\<exists>t'. receive_round peek t = Some t' \<and> between pk cap all t' \<and>
           length (to_come (sock t')) \<le> length (to_come (sock t)) - 1"
proof -
  obtain ms where ms: "deframe pk cap (incoming (inbuf t) @ to_come (sock t)) = (ms, [], False)"
    "all = delivered t @ ms"
    using assms by (auto simp: between_def)
  obtain b sk where in1: "rl_transport_on_input_arrived t = t\<lparr>sock := sk, inbuf := b\<rparr>" "iinv b"
    "end_address b = cap" "only_data sk" "incoming b @ to_come sk = incoming (inbuf t) @ to_come (sock t)"
    "length (to_come sk) \<le> length (to_come (sock t)) - 1"
    using input_arrived_ok [of t] assms by (auto simp: between_def)
  obtain ms1 r e where d1: "deframe pk cap (incoming b) = (ms1, r, e)" by (metis prod_cases3)
  have df: "deframe pk cap (incoming b @ to_come sk) = (ms, [], False)" using ms(1) in1(5) by simp
  then have e: "\<not> e" using deframe_append [OF d1, of "to_come sk"] by (cases e) auto
  then obtain ms2 where ms2: "deframe pk cap (r @ to_come sk) = (ms2, [], False)" "ms = ms1 @ ms2"
    using deframe_append [OF d1, of "to_come sk"] df by (auto split: prod.splits)
  have rest: "deframe pk cap r = ([], r, False)" using deframe_rest [OF d1] e by simp
  have room: "length r < cap"
    using deframe_room [OF rest] assms stable [of r "to_come sk"] ms2(1)
      deframe_stop [of pk cap "r @ to_come sk"]
    by (cases "r = []") (auto simp: between_def front_def)
  obtain b2 where b2: "update_loop peek record_delivery (t\<lparr>sock := sk, inbuf := b\<rparr>) =
      Some (False, t\<lparr>sock := sk, delivered := delivered t @ ms1, inbuf := b2\<rparr>)"
      "iinv b2" "end_address b2 = cap" "incoming b2 = r"
    using recorder_loop [of "t\<lparr>sock := sk, inbuf := b\<rparr>" ms1 r] in1 d1 e by auto
  let ?t = "t\<lparr>sock := sk, delivered := delivered t @ ms1, inbuf := trim_inbuf b2\<rparr>"
  have tr: "iinv (trim_inbuf b2)" "incoming (trim_inbuf b2) = r" "end_address (trim_inbuf b2) = cap"
    "write_cursor (trim_inbuf b2) = length r"
    using trim_inbuf_ok [OF b2(2)] b2 length_incoming [of "trim_inbuf b2"] by (auto simp del: length_incoming)
  have "receive_round peek t = Some ?t"
    using in1(1) b2(1) assms by (auto simp: receive_round_def rl_transport_update_def between_def Let_def)
  moreover have "between pk cap all ?t"
    using tr in1(4) assms rest room ms2 ms(2) by (simp add: between_def)
  ultimately show ?thesis using in1(6) by (intro exI [of _ ?t]) simp
qed

lemma rounds_between:
  "between pk cap all t \<Longrightarrow> length (to_come (sock t)) \<le> k \<Longrightarrow>
     \<exists>t'. receive_rounds peek k t = Some t' \<and> delivered t' = all \<and> incoming (inbuf t') = [] \<and>
       \<not> t_error t' \<and> \<not> disconnect t'"
proof (induction k arbitrary: t)
  case 0
  then have "deframe pk cap (incoming (inbuf t)) = ([], incoming (inbuf t), False)"
    "\<exists>ms. deframe pk cap (incoming (inbuf t)) = (ms, [], False) \<and> all = delivered t @ ms"
    by (auto simp: between_def)
  with 0 show ?case by (auto simp: between_def)
next
  case (Suc k)
  obtain t1 where t1: "receive_round peek t = Some t1" "between pk cap all t1"
    "length (to_come (sock t1)) \<le> length (to_come (sock t)) - 1"
    using round_between [OF Suc.prems(1)] by blast
  then show ?case using Suc.IH [OF t1(2)] Suc.prems(2) by simp
qed

end

section \<open>Properties of the transport\<close>

text \<open>A transport with one message of three bytes in its queue and one buffer in the pool.\<close>

definition example_transport :: rl_transport where
  "example_transport =
     \<lparr>inbuf = \<lparr>base_address = 0, read_cursor = 0, write_cursor = 0, end_address = 64, valid = True,
               io_mem = (\<lambda>_. 0)\<rparr>,
      out_queue = Some 0, out_tail = Some 0, num_free_buffers = 1, next_free_buffer = Some 1,
      t_error = False, disconnect = False,
      heap = \<lparr>cells = [Some \<lparr>total_size = 8248, used_size = 3, remaining = 3, next_buf = None,
                             buffer_size = 8192, buffer = (\<lambda>i. of_nat i)\<rparr>,
                       Some \<lparr>total_size = 8248, used_size = 0, remaining = 0, next_buf = None,
                             buffer_size = 8192, buffer = (\<lambda>_. 0)\<rparr>], mallocs = []\<rparr>,
      sock = \<lparr>sk_recvs = [], sk_sends = [Send_accept 2, Send_accept 9, Send_accept 9], sk_sent = []\<rparr>\<rparr>"

lemma example_tinv: "tinv example_transport [0] [1] []"
proof -
  have "dom (cell (heap example_transport)) = {0, 1}"
    by (auto simp: example_transport_def cell_lookup less_2_cases_iff split: if_splits)
  moreover have "\<forall>a b. cell (heap example_transport) a = Some b \<longrightarrow> buffer_size b = 8192"
    by (auto simp: example_transport_def cell_lookup less_Suc_eq split: if_splits)
  ultimately show ?thesis
    by (auto simp: tinv_def example_transport_def cell_lookup buf_ok_def)
qed

text \<open>
  Claim C24: when the socket can take output, the queue is sent as a stream. The loop ends and
  touches only allocated buffers; the bytes sent are a prefix of the bytes that were waiting,
  in queue order, and exactly the others are still waiting; the pool stays within its limit
  and input is not affected. When every send takes at least a byte and there are as many
  sends as bytes, the queue is empty afterwards.
\<close>
theorem output_is_stream:
  assumes "tinv t qs fs []"
  shows "\<exists>t' qs' fs'. rl_transport_on_output_possible t = Some t' \<and> tinv t' qs' fs' [] \<and>
           sk_sent (sock t') @ pend t' qs' = sk_sent (sock t) @ pend t qs \<and>
           length (sk_sent (sock t)) \<le> length (sk_sent (sock t')) \<and>
           num_free_buffers t' \<le> RL_TRANSPORT_MAX_POOLED_BUFFERS \<and> inbuf t' = inbuf t \<and>
           (list_all (\<lambda>x. \<exists>n>0. x = Send_accept n) (sk_sends (sock t)) \<and>
            length (pend t qs) \<le> length (sk_sends (sock t)) \<longrightarrow>
              out_queue t' = None \<and> sk_sent (sock t') = sk_sent (sock t) @ pend t qs)"
proof -
  obtain t' qs' fs' where t': "rl_transport_on_output_possible t = Some t'" "tinv t' qs' fs' []"
    "shipped t qs t' qs'"
    using output_ok [OF assms] by blast
  obtain ds where ds: "sk_sent (sock t') = sk_sent (sock t) @ ds" "pend t qs = ds @ pend t' qs'"
    using t'(3) unfolding shipped_def by blast
  have "num_free_buffers t' \<le> RL_TRANSPORT_MAX_POOLED_BUFFERS" "qs' = [] \<longrightarrow> out_queue t' = None"
    using t'(2) by (auto simp: tinv_def RL_TRANSPORT_MAX_POOLED_BUFFERS_def)
  with t' ds show ?thesis
    by (intro exI [of _ t'] exI [of _ qs'] exI [of _ fs']) (auto simp: shipped_def out_only_def)
qed

theorem output_is_stream_witness:
  "\<exists>t'. rl_transport_on_output_possible example_transport = Some t' \<and> out_queue t' = None \<and>
        sk_sent (sock t') = [0, 1, 2]"
proof -
  have p: "pend example_transport [0] = [0, 1, 2]"
    by (simp add: pend_def example_transport_def cell_lookup unsent_def mread_Suc eval_nat_numeral)
  have "list_all (\<lambda>x. \<exists>n>0. x = Send_accept n) (sk_sends (sock example_transport))"
    "length (pend example_transport [0]) \<le> length (sk_sends (sock example_transport))"
    "sk_sent (sock example_transport) = []"
    unfolding p by (simp_all add: example_transport_def)
  then show ?thesis
    using output_is_stream [OF example_tinv] p by auto
qed

text \<open>
  \<open>rl_transport_destroy\<close> runs through the queue and the pool without touching a freed
  buffer, and afterwards no buffer of the transport is allocated any more.
\<close>
theorem destroy_frees_all:
  assumes "tinv t qs fs []"
  shows "\<exists>t'. rl_transport_destroy t = Some t' \<and> (\<forall>p. deref (heap t') p = None) \<and> \<not> valid (inbuf t')"
proof -
  obtain t' where "rl_transport_destroy t = Some t'" "cell (heap t') = Map.empty" "\<not> valid (inbuf t')"
    using destroy_ok [OF assms] by blast
  moreover from this have "deref (heap t') p = None" for p by (cases p) simp_all
  ultimately show ?thesis by blast
qed

theorem destroy_frees_all_witness:
  "\<exists>t'. rl_transport_destroy example_transport = Some t' \<and> deref (heap t') (Some 0) = None \<and>
        deref (heap t') (Some 1) = None"
  using destroy_frees_all [OF example_tinv] by blast

end
