(* ===== verification/Rl_Protocol.thy ===== *)
theory Rl_Protocol
  imports Rl_Prelude
begin

unbundle bit_operations_syntax

text \<open>
  The primitive encoders and decoders of \<^verbatim>\<open>src/src/protocol.h\<close> and \<^verbatim>\<open>src/src/protocol.c\<close>:
  integers of 1, 2 and 4 bytes, counted strings and counted arrays, over the flat memory of
  \<open>Rl_Prelude\<close>. A cursor is an address, the remaining size a C \<^verbatim>\<open>int\<close>; the value
  \<open>None\<close> is the return value -1.

  The locale \<open>wire_field\<close> is the contract of a variable-length field: what its encoder
  writes, when it refuses, and what its decoder makes of those bytes. Strings and arrays
  are its two interpretations; the generated message codec (\<open>Rl_Messages\<close>) is built on it.
\<close>

section \<open>Protocol constants\<close>

definition RL_FILEHANDLE_VIRTUAL_INPUT :: rl_uint32 where
  "RL_FILEHANDLE_VIRTUAL_INPUT = 0x7ffffffe"

definition RL_FILEHANDLE_VIRTUAL_OUTPUT :: rl_uint32 where
  "RL_FILEHANDLE_VIRTUAL_OUTPUT = 0x7ffffffd"

definition RL_OPENFLAG_READ :: rl_uint32 where "RL_OPENFLAG_READ = push_bit 0 1"
definition RL_OPENFLAG_WRITE :: rl_uint32 where "RL_OPENFLAG_WRITE = push_bit 1 1"
definition RL_OPENFLAG_CREATE :: rl_uint32 where "RL_OPENFLAG_CREATE = push_bit 2 1"

definition RL_NODE_TYPE_FILE :: rl_uint8 where "RL_NODE_TYPE_FILE = 1"
definition RL_NODE_TYPE_DIRECTORY :: rl_uint8 where "RL_NODE_TYPE_DIRECTORY = 2"

datatype rl_proto_neterror =
    RL_NETERR_SUCCESS | RL_NETERR_ACCESS_DENIED | RL_NETERR_NOT_FOUND | RL_NETERR_NOT_A_FILE
  | RL_NETERR_NOT_A_DIRECTORY | RL_NETERR_IO_ERROR | RL_NETERR_INVALID_VALUE
  | RL_NETERR_BAD_REQUEST | RL_NETERR_TOO_MANY_FILES_OPEN | RL_NETERR_SPAWN_FAILURE
  | RL_NETERR_UNKNOWN

fun neterror_code :: "rl_proto_neterror \<Rightarrow> rl_uint32" where
  "neterror_code RL_NETERR_SUCCESS = 0"
| "neterror_code RL_NETERR_ACCESS_DENIED = 1"
| "neterror_code RL_NETERR_NOT_FOUND = 2"
| "neterror_code RL_NETERR_NOT_A_FILE = 3"
| "neterror_code RL_NETERR_NOT_A_DIRECTORY = 4"
| "neterror_code RL_NETERR_IO_ERROR = 5"
| "neterror_code RL_NETERR_INVALID_VALUE = 6"
| "neterror_code RL_NETERR_BAD_REQUEST = 128"
| "neterror_code RL_NETERR_TOO_MANY_FILES_OPEN = 129"
| "neterror_code RL_NETERR_SPAWN_FAILURE = 254"
| "neterror_code RL_NETERR_UNKNOWN = 255"

section \<open>Integers\<close>

text \<open>
  The code copies bytes between the wire and the memory image of a host integer. The
  first argument says whether the host is big-endian, which selects both the branch the
  preprocessor keeps (\<^verbatim>\<open>BIG_ENDIAN\<close>) and the meaning of the memory image.
\<close>

definition host_u16 :: "bool \<Rightarrow> rl_uint8 list \<Rightarrow> rl_uint16" where
  "host_u16 be dest =
     (let ds = (if be then dest else rev dest)
      in push_bit 8 (ucast (ds ! 0)) OR ucast (ds ! 1))"

definition host_bytes2 :: "bool \<Rightarrow> rl_uint16 \<Rightarrow> rl_uint8 list" where
  "host_bytes2 be v = (let bs = [ucast (drop_bit 8 v), ucast v] in if be then bs else rev bs)"

definition host_u32 :: "bool \<Rightarrow> rl_uint8 list \<Rightarrow> rl_uint32" where
  "host_u32 be dest =
     (let ds = (if be then dest else rev dest)
      in push_bit 24 (ucast (ds ! 0)) OR push_bit 16 (ucast (ds ! 1)) OR
         push_bit 8 (ucast (ds ! 2)) OR ucast (ds ! 3))"

definition host_bytes4 :: "bool \<Rightarrow> rl_uint32 \<Rightarrow> rl_uint8 list" where
  "host_bytes4 be v =
     (let bs = [ucast (drop_bit 24 v), ucast (drop_bit 16 v), ucast (drop_bit 8 v), ucast v]
      in if be then bs else rev bs)"

definition rl_decode_int1 :: "mem \<Rightarrow> nat \<Rightarrow> rl_uint8 \<times> nat" where
  "rl_decode_int1 m cursor = (m cursor, cursor + 1)"

definition rl_decode_int2 :: "bool \<Rightarrow> mem \<Rightarrow> nat \<Rightarrow> rl_uint16 \<times> nat" where
  "rl_decode_int2 be m cursor =
     (let dest = (if be then [m cursor, m (cursor + 1)] else [m (cursor + 1), m cursor])
      in (host_u16 be dest, cursor + 2))"

definition rl_decode_int4 :: "bool \<Rightarrow> mem \<Rightarrow> nat \<Rightarrow> rl_uint32 \<times> nat" where
  "rl_decode_int4 be m cursor =
     (let dest = (if be then [m cursor, m (cursor + 1), m (cursor + 2), m (cursor + 3)]
                  else [m (cursor + 3), m (cursor + 2), m (cursor + 1), m cursor])
      in (host_u32 be dest, cursor + 4))"

definition rl_encode_int1 :: "mem \<Rightarrow> nat \<Rightarrow> rl_uint8 \<Rightarrow> mem \<times> nat" where
  "rl_encode_int1 m cursor v = (m(cursor := v), cursor + 1)"

definition rl_encode_int2 :: "bool \<Rightarrow> mem \<Rightarrow> nat \<Rightarrow> rl_uint16 \<Rightarrow> mem \<times> nat" where
  "rl_encode_int2 be m cursor v =
     (let source = host_bytes2 be v;
          m = (if be then m(cursor := source ! 0, cursor + 1 := source ! 1)
               else m(cursor + 1 := source ! 0, cursor := source ! 1))
      in (m, cursor + 2))"

definition rl_encode_int4 :: "bool \<Rightarrow> mem \<Rightarrow> nat \<Rightarrow> rl_uint32 \<Rightarrow> mem \<times> nat" where
  "rl_encode_int4 be m cursor v =
     (let source = host_bytes4 be v;
          m = (if be
               then m(cursor := source ! 0, cursor + 1 := source ! 1,
                      cursor + 2 := source ! 2, cursor + 3 := source ! 3)
               else m(cursor + 3 := source ! 0, cursor + 2 := source ! 1,
                      cursor + 1 := source ! 2, cursor := source ! 3))
      in (m, cursor + 4))"

section \<open>Strings and arrays\<close>

text \<open>
  The result pointer of \<open>rl_decode_string\<close> points at the first payload byte; its value as a C
  string ends at the first zero byte, which the routine has checked to exist at the end of
  the payload.
\<close>

definition rl_decode_string :: "mem \<Rightarrow> nat \<times> int \<Rightarrow> (cstring \<times> nat \<times> int) option" where
  "rl_decode_string m cs =
     (case cs of (cursor, sz) \<Rightarrow>
        if sz < 2 then None
        else
          let my_len = uint (m cursor)
          in if my_len \<ge> sz then None
             else if m (cursor + (1 + nat my_len)) \<noteq> 0 then None
             else Some (takeWhile (\<lambda>c. c \<noteq> 0) (mread m (cursor + 1) (nat my_len)),
                        cursor + (nat my_len + 2), sz - (my_len + 2)))"

definition rl_encode_string :: "mem \<Rightarrow> nat \<times> int \<Rightarrow> cstring \<Rightarrow> (mem \<times> nat \<times> int) option" where
  "rl_encode_string m cs string =
     (case cs of (cursor, sz) \<Rightarrow>
        let string_len = length string
        in if sz < 2 then None
           else if to_int32 (int string_len + 2) > sz then None
           else if string_len > 255 then None
           else
             let m = m(cursor := of_nat string_len);
                 m = mwrite m (cursor + 1) (string @ [0])
             in Some (m, cursor + (string_len + 2), sz - (int string_len + 2)))"

text \<open>
  The array decoder compares the length, as a signed number, with the size that still
  counts the four bytes just read; the size is updated in unsigned arithmetic.
\<close>

definition rl_decode_array ::
  "bool \<Rightarrow> mem \<Rightarrow> nat \<times> int \<Rightarrow> (rl_uint8 list \<times> nat \<times> int) option" where
  "rl_decode_array be m cs =
     (case cs of (cursor, sz) \<Rightarrow>
        if sz < 4 then None
        else
          let (len, cursor) = rl_decode_int4 be m cursor
          in if to_int32 (uint len) > sz then None
             else Some (mread m cursor (unat len), cursor + unat len,
                        to_int32 (sz - (uint len + 4))))"

definition rl_encode_array ::
  "bool \<Rightarrow> mem \<Rightarrow> nat \<times> int \<Rightarrow> rl_uint8 list \<Rightarrow> (mem \<times> nat \<times> int) option" where
  "rl_encode_array be m cs array =
     (case cs of (cursor, sz) \<Rightarrow>
        let len = of_nat (length array) :: rl_uint32
        in if sz < to_int32 (4 + uint len) then None
           else
             let (m, cursor) = rl_encode_int4 be m cursor len;
                 m = mwrite m cursor (take (unat len) array)
             in Some (m, cursor + unat len, sz - to_int32 (4 + uint len)))"

section \<open>The wire format\<close>

text \<open>What goes on the wire, independent of the host: integers in network byte order.\<close>

definition wire16 :: "rl_uint16 \<Rightarrow> rl_uint8 list" where
  "wire16 v = [ucast (drop_bit 8 v), ucast v]"

definition wire32 :: "rl_uint32 \<Rightarrow> rl_uint8 list" where
  "wire32 v = [ucast (drop_bit 24 v), ucast (drop_bit 16 v), ucast (drop_bit 8 v), ucast v]"

definition wire_string :: "cstring \<Rightarrow> rl_uint8 list" where
  "wire_string s = of_nat (length s) # s @ [0]"

definition wire_array :: "rl_uint8 list \<Rightarrow> rl_uint8 list" where
  "wire_array xs = wire32 (of_nat (length xs)) @ xs"

definition valid_string :: "cstring \<Rightarrow> bool" where
  "valid_string s = (nul_free s \<and> length s \<le> 255)"

definition valid_array :: "rl_uint8 list \<Rightarrow> bool" where
  "valid_array xs = (length xs < 2 ^ 31 - 4)"

lemma length_wire [simp]:
  "length (wire16 v) = 2" "length (wire32 w) = 4"
  "length (wire_string s) = length s + 2" "length (wire_array xs) = length xs + 4"
  by (simp_all add: wire16_def wire32_def wire_string_def wire_array_def)

lemma rl_encode_int1_wire: "rl_encode_int1 m c v = (mwrite m c [v], c + 1)"
  by (simp add: rl_encode_int1_def mwrite_Cons)

lemma mwrite2: "mwrite m c [a, b] = m(c := a, c + 1 := b)"
  and mwrite4: "mwrite m c [a, b, x, y] = m(c := a, c + 1 := b, c + 2 := x, c + 3 := y)"
  by (simp_all add: mwrite_Cons eval_nat_numeral)

lemma mread2: "mread m c 2 = [m c, m (c + 1)]"
  and mread4: "mread m c 4 = [m c, m (c + 1), m (c + 2), m (c + 3)]"
  by (simp_all add: eval_nat_numeral mread_Suc)

lemma rl_encode_int2_wire: "rl_encode_int2 be m c v = (mwrite m c (wire16 v), c + 2)"
  by (auto simp: rl_encode_int2_def host_bytes2_def wire16_def mwrite2 Let_def fun_upd_twist)

lemma rl_encode_int4_wire: "rl_encode_int4 be m c v = (mwrite m c (wire32 v), c + 4)"
  by (auto simp: rl_encode_int4_def host_bytes4_def wire32_def mwrite4 Let_def fun_eq_iff)

lemma join16: "push_bit 8 (ucast (ucast (drop_bit 8 v) :: rl_uint8)) OR ucast (ucast v :: rl_uint8) = (v :: rl_uint16)"
  by (rule bit_word_eqI) (auto simp: bit_simps)

lemma join32:
  "push_bit 24 (ucast (ucast (drop_bit 24 v) :: rl_uint8)) OR
   push_bit 16 (ucast (ucast (drop_bit 16 v) :: rl_uint8)) OR
   push_bit 8 (ucast (ucast (drop_bit 8 v) :: rl_uint8)) OR
   ucast (ucast v :: rl_uint8) = (v :: rl_uint32)" (is "?l = v")
proof (rule bit_word_eqI)
  fix n
  assume "n < LENGTH(32)"
  then have n: "n < 32" by simp
  show "bit ?l n = bit v n"
  proof (cases "n < 16")
    case True
    then show ?thesis by (cases "n < 8") (auto simp: bit_simps)
  next
    case False
    with n show ?thesis by (cases "n < 24") (auto simp: bit_simps)
  qed
qed

lemma rl_decode_int2_wire:
  "mread m c 2 = wire16 v \<Longrightarrow> rl_decode_int2 be m c = (v, c + 2)"
  using join16 [of v]
  by (simp add: rl_decode_int2_def host_u16_def wire16_def mread2 Let_def)

lemma rl_decode_int4_wire:
  "mread m c 4 = wire32 v \<Longrightarrow> rl_decode_int4 be m c = (v, c + 4)"
  using join32 [of v]
  by (simp add: rl_decode_int4_def host_u32_def wire32_def mread4 Let_def)

section \<open>The contract of a variable-length field\<close>

text \<open>
  An encoder takes the memory, the cursor with the remaining size, and a value. On valid
  values it either writes the wire form and moves on, or, when the wire form does not fit,
  refuses. The decoder reads the wire form back from any memory that holds it.
\<close>

locale wire_field =
  fixes encode :: "mem \<Rightarrow> nat \<times> int \<Rightarrow> 'v \<Rightarrow> (mem \<times> nat \<times> int) option"
    and decode :: "mem \<Rightarrow> nat \<times> int \<Rightarrow> ('v \<times> nat \<times> int) option"
    and wire :: "'v \<Rightarrow> rl_uint8 list"
    and valid :: "'v \<Rightarrow> bool"
  assumes encode_fits:
      "valid v \<Longrightarrow> int (length (wire v)) \<le> sz \<Longrightarrow>
         encode m (c, sz) v =
           Some (mwrite m c (wire v), c + length (wire v), sz - int (length (wire v)))"
    and encode_refuses: "valid v \<Longrightarrow> sz < int (length (wire v)) \<Longrightarrow> encode m (c, sz) v = None"
    and decode_wire:
      "valid v \<Longrightarrow> int (length (wire v)) \<le> sz \<Longrightarrow> sz < 2 ^ 31 \<Longrightarrow>
         mread m c (length (wire v)) = wire v \<Longrightarrow>
         decode m (c, sz) = Some (v, c + length (wire v), sz - int (length (wire v)))"
begin

lemma encode_some:
  "valid v \<Longrightarrow> encode m (c, sz) v = Some (m', c', sz') \<Longrightarrow>
     int (length (wire v)) \<le> sz \<and> m' = mwrite m c (wire v) \<and>
     c' = c + length (wire v) \<and> sz' = sz - int (length (wire v))"
  using encode_fits [of v sz m c] encode_refuses [of v sz m c]
  by (cases "int (length (wire v)) \<le> sz") auto

text \<open>What was encoded is decoded again, and both stop at the same place.\<close>

lemma encode_decode:
  assumes "valid v" and "sz < 2 ^ 31" and "encode m (c, sz) v = Some (m', c', sz')"
  shows "decode m' (c, sz) = Some (v, c', sz')"
  using encode_some [OF assms(1,3)] decode_wire [OF assms(1) _ assms(2), of m' c] by simp

lemma encode_frame:
  assumes "valid v" and "encode m (c, sz) v = Some (m', c', sz')" and "i < c \<or> int c + sz \<le> int i"
  shows "m' i = m i"
  using encode_some [OF assms(1,2)] assms(3) by (auto simp: mem_simps)

end

lemma array_length_word:
  assumes "valid_array v"
  shows "unat (of_nat (length v) :: rl_uint32) = length v"
    and "uint (of_nat (length v) :: rl_uint32) = int (length v)"
proof -
  show u: "unat (of_nat (length v) :: rl_uint32) = length v"
    using assms by (simp add: valid_array_def)
  show "uint (of_nat (length v) :: rl_uint32) = int (length v)"
    unfolding uint_nat u by simp
qed

interpretation wstring: wire_field rl_encode_string rl_decode_string wire_string valid_string
proof
  fix v :: cstring and sz :: int and m :: mem and c :: nat
  assume v: "valid_string v" and sz: "int (length (wire_string v)) \<le> sz"
  then show "rl_encode_string m (c, sz) v =
      Some (mwrite m c (wire_string v), c + length (wire_string v),
            sz - int (length (wire_string v)))"
    by (simp add: rl_encode_string_def valid_string_def wire_string_def mwrite_Cons to_int32_id
        Let_def)
next
  fix v :: cstring and sz :: int and m :: mem and c :: nat
  assume v: "valid_string v" and sz: "sz < int (length (wire_string v))"
  then show "rl_encode_string m (c, sz) v = None"
    by (simp add: rl_encode_string_def valid_string_def to_int32_id Let_def)
next
  fix v :: cstring and sz :: int and m :: mem and c :: nat
  assume v: "valid_string v" and sz: "int (length (wire_string v)) \<le> sz"
    and rd: "mread m c (length (wire_string v)) = wire_string v"
  have "m c = of_nat (length v)" and rd': "mread m (Suc c) (length v + 1) = v @ [0]"
    using rd by (simp_all add: wire_string_def mread_Suc)
  then have len: "uint (m c) = int (length v)"
    using v by (simp add: valid_string_def uint_nat)
  have "mread m (Suc c) (length v) = v" "m (Suc c + length v) = 0"
    using rd' unfolding mread_add by (simp_all add: mread_Suc)
  then show "rl_decode_string m (c, sz) =
      Some (v, c + length (wire_string v), sz - int (length (wire_string v)))"
    using v sz by (simp add: rl_decode_string_def len valid_string_def add.commute)
qed

interpretation warray:
  wire_field "rl_encode_array be" "rl_decode_array be" wire_array valid_array for be
proof
  fix v :: "rl_uint8 list" and sz :: int and m :: mem and c :: nat
  assume v: "valid_array v" and sz: "int (length (wire_array v)) \<le> sz"
  note len = array_length_word [OF v]
  show "rl_encode_array be m (c, sz) v =
      Some (mwrite m c (wire_array v), c + length (wire_array v),
            sz - int (length (wire_array v)))"
    using v sz
    by (simp add: rl_encode_array_def valid_array_def len to_int32_id Let_def
        rl_encode_int4_wire wire_array_def mwrite_append)
next
  fix v :: "rl_uint8 list" and sz :: int and m :: mem and c :: nat
  assume v: "valid_array v" and sz: "sz < int (length (wire_array v))"
  note len = array_length_word [OF v]
  show "rl_encode_array be m (c, sz) v = None"
    using v sz by (simp add: rl_encode_array_def valid_array_def len to_int32_id Let_def)
next
  fix v :: "rl_uint8 list" and sz :: int and m :: mem and c :: nat
  assume v: "valid_array v" and sz: "int (length (wire_array v)) \<le> sz" "sz < 2 ^ 31"
    and rd: "mread m c (length (wire_array v)) = wire_array v"
  note len = array_length_word [OF v]
  have "mread m c (4 + length v) = wire32 (of_nat (length v)) @ v"
    using rd by (simp add: wire_array_def add.commute)
  then have w: "mread m c 4 = wire32 (of_nat (length v))" "mread m (c + 4) (length v) = v"
    by (simp_all add: mread_add)
  show "rl_decode_array be m (c, sz) =
      Some (v, c + length (wire_array v), sz - int (length (wire_array v)))"
    using v sz w(2)
    by (simp add: rl_decode_array_def rl_decode_int4_wire [OF w(1)] valid_array_def len
        to_int32_id)
qed

section \<open>What the decoders read\<close>

lemma rl_decode_string_some:
  "rl_decode_string m (c, sz) = Some (s, c', sz') \<Longrightarrow>
     int c' = int c + uint (m c) + 2 \<and> sz' = sz - (uint (m c) + 2) \<and> - 1 \<le> sz' \<and>
     str_at m (c + 1) s \<and> int (length s) \<le> uint (m c)"
proof -
  assume d: "rl_decode_string m (c, sz) = Some (s, c', sz')"
  let ?n = "unat (m c)"
  have nn: "nat (uint (m c)) = ?n"
    by simp
  have z: "m (c + (1 + ?n)) = 0" and lt: "uint (m c) < sz"
    and s: "s = takeWhile (\<lambda>x. x \<noteq> 0) (mread m (c + 1) ?n)"
    and r: "c' = c + (?n + 2)" "sz' = sz - (uint (m c) + 2)"
    using d by (auto simp: rl_decode_string_def Let_def nn split: if_splits)
  have le: "length s \<le> ?n"
    unfolding s using length_takeWhile_le [of "\<lambda>x. x \<noteq> 0" "mread m (c + 1) ?n"] by simp
  have rd: "mread m (c + 1) (length s) = s"
    unfolding s by (metis length_mread length_takeWhile_le min.absorb1 take_mread takeWhile_eq_take)
  have "m (c + 1 + length s) = 0"
  proof (cases "length s < ?n")
    case True
    then show ?thesis
      using nth_length_takeWhile [of "\<lambda>x. x \<noteq> 0" "mread m (c + 1) ?n"] unfolding s by simp
  next
    case False
    with le z show ?thesis by (simp add: add.assoc)
  qed
  then have "str_at m (c + 1) (s @ [])"
    unfolding str_at_append using rd s by simp
  moreover have "int (length s) \<le> uint (m c)"
    using le unfolding uint_nat of_nat_le_iff .
  ultimately show ?thesis
    using r lt by simp
qed

text \<open>
  The string decoder looks at one cell more than the size allows when the stated length is
  the size less one; the array decoder accepts up to four bytes too many, and any length
  with the top bit set.
\<close>

lemma rl_decode_array_len:
  "4 \<le> sz \<Longrightarrow> mread m c 4 = wire32 n \<Longrightarrow>
     (rl_decode_array be m (c, sz) = None) = (uint n < 2 ^ 31 \<and> sz < uint n)"
  using uint_lt2p [of n]
  by (auto simp: rl_decode_array_def rl_decode_int4_wire to_int32_uint)

section \<open>Properties\<close>

text \<open>
  Integers travel in network byte order whatever the byte order of the two hosts: what
  a host of either kind encodes, a host of either kind decodes to the same value.
\<close>

theorem int_endian_independent:
  "fst (rl_decode_int2 be' (fst (rl_encode_int2 be m c v)) c) = v \<and>
   fst (rl_decode_int4 be' (fst (rl_encode_int4 be m c w)) c) = w \<and>
   mread (fst (rl_encode_int4 be m c w)) c 4 =
     [ucast (drop_bit 24 w), ucast (drop_bit 16 w), ucast (drop_bit 8 w), ucast w]"
  by (simp add: rl_encode_int2_wire rl_encode_int4_wire mread_mwrite_same'
      rl_decode_int2_wire rl_decode_int4_wire) (simp add: wire32_def mread_mwrite_same')

text \<open>
  A string that \<open>rl_encode_string\<close> accepted is decoded to itself with the cursors of
  both ends in step, and the encoder writes only inside the space it was given; the same
  holds for arrays.
\<close>

theorem string_array_roundtrip:
  assumes "valid_string s" and "valid_array xs" and "sz < 2 ^ 31"
  shows "(rl_encode_string m (c, sz) s = Some (m', c', sz') \<longrightarrow>
            rl_decode_string m' (c, sz) = Some (s, c', sz') \<and>
            (\<forall>i. i < c \<or> int c + sz \<le> int i \<longrightarrow> m' i = m i)) \<and>
         (rl_encode_array be m (c, sz) xs = Some (m', c', sz') \<longrightarrow>
            rl_decode_array be' m' (c, sz) = Some (xs, c', sz') \<and>
            (\<forall>i. i < c \<or> int c + sz \<le> int i \<longrightarrow> m' i = m i))"
proof -
  have "rl_decode_array be' m' (c, sz) = Some (xs, c', sz')"
    if "rl_encode_array be m (c, sz) xs = Some (m', c', sz')"
    using warray.encode_some [OF assms(2) that] warray.decode_wire [OF assms(2) _ assms(3), of m' c]
    by (simp add: mread_mwrite_same')
  then show ?thesis
    using wstring.encode_decode [OF assms(1,3)] wstring.encode_frame [OF assms(1)]
      warray.encode_frame [OF assms(2)]
    by blast
qed

theorem string_array_roundtrip_witness:
  "\<exists>m' c' sz'. rl_encode_string (\<lambda>_. 9) (3, 10) [65, 66] = Some (m', c', sz') \<and>
     rl_decode_string m' (3, 10) = Some ([65, 66], c', sz')"
proof -
  obtain m' c' sz' where e: "rl_encode_string (\<lambda>_. 9) (3, 10) [65, 66] = Some (m', c', sz')"
    by (simp add: rl_encode_string_def to_int32_id)
  show ?thesis
    using string_array_roundtrip [of "[65, 66]" "[]" 10 "\<lambda>_. 9" 3 m' c' sz' True True] e
    by (simp add: valid_string_def valid_array_def)
qed

text \<open>
  What \<open>rl_decode_string\<close> returns is a terminated C string inside the buffer: its bytes
  and its terminator lie at most one byte past the given size, and exactly inside the buffer
  whenever the remaining size it reports is not negative.
\<close>

theorem decode_string_terminated:
  assumes "rl_decode_string m (c, sz) = Some (s, c', sz')"
  shows "str_at m (c + 1) s \<and> int (c + 1 + length s) < int c + sz + 1 \<and> int c' \<le> int c + sz + 1 \<and>
         (0 \<le> sz' \<longrightarrow> int (c + 1 + length s) < int c + sz \<and> int c' = int c + sz - sz')"
  using rl_decode_string_some [OF assms] by auto

theorem decode_string_terminated_witness:
  "rl_decode_string (\<lambda>i. if i = 5 then 1 else if i = 6 then 65 else 0) (5, 3) =
       Some ([65], 8, 0) \<and>
   str_at (\<lambda>i. if i = 5 then 1 else if i = 6 then 65 else 0) 6 [65]"
proof -
  have "rl_decode_string (\<lambda>i. if i = 5 then 1 else if i = 6 then 65 else 0) (5, 3) =
       Some ([65], 8, 0)"
    by (simp add: rl_decode_string_def mread_Suc)
  from decode_string_terminated [OF this] this show ?thesis by simp
qed

text \<open>
  Claim C37: two defects of the decoders. With two bytes left and a length byte of 1,
  \<open>rl_decode_string\<close> succeeds or fails on the value of the byte after the buffer, and leaves
  the remaining size at -1. \<open>rl_decode_array\<close> refuses a length only if it exceeds, read as a
  signed number, the size before the length field was taken off: with four bytes left it
  accepts any length up to 4 and any length with the top bit set.
\<close>

theorem decoders_overread:
  "rl_decode_string ((\<lambda>_. 1)(2 := 0)) (0, 2) = Some ([1], 3, - 1) \<and>
   rl_decode_string (\<lambda>_. 1) (0, 2) = None \<and>
   (mread m c 4 = wire32 n \<longrightarrow>
      (rl_decode_array be m (c, 4) \<noteq> None) = (uint n \<le> 4 \<or> 2 ^ 31 \<le> uint n))"
  using rl_decode_array_len [of 4 m c n be]
  by (auto simp: rl_decode_string_def mread_Suc)

theorem decoders_overread_witness:
  "rl_decode_array True (\<lambda>_. 255) (0, 4) \<noteq> None"
proof -
  have "mread (\<lambda>_. 255) 0 4 = wire32 0xffffffff"
    by (simp add: mread4 wire32_def)
  then show ?thesis
    using decoders_overread [of "\<lambda>_. 255" 0 "0xffffffff" True] by simp
qed

end
