(* ===== verification/Rl_Messages.thy ===== *)
theory Rl_Messages
  imports Rl_Protocol
begin

text \<open>
  The message codec. Its C code is generated at build time by \<^verbatim>\<open>src/src/mkmsg.py\<close> from the
  description \<^verbatim>\<open>src/src/rlnet.msg\<close>. Both are modelled: the description as the list of its
  lines, the generator's treatment of it (\<open>mkmsg\<close>: sections, fields, the common header
  fields that are put in front of every message, the split into fixed and variable
  fields), and the C code the generator emits for a message, as encoders and decoders that
  follow the same field lists. Guarded fields are left out: the description has none.

  A message value is a \<open>rl_msg\<close>: the header fields every struct of the C union starts with
  and a body with one constructor per message. \<open>hdr_seq\<close> is the field at offset 4, which is
  called \<open>hdr_sequence_num\<close> in requests and \<open>hdr_in_reply_to\<close> in answers and is read under
  either name by the program.
\<close>

section \<open>The generator\<close>

datatype net_type = NT_string | NT_array | NT_byte | NT_word | NT_longword

fun variable_length :: "net_type \<Rightarrow> bool" where
  "variable_length NT_string = True"
| "variable_length NT_array = True"
| "variable_length NT_byte = False"
| "variable_length NT_word = False"
| "variable_length NT_longword = False"

fun nt_size :: "net_type \<Rightarrow> nat" where
  "nt_size NT_byte = 1"
| "nt_size NT_word = 2"
| "nt_size NT_longword = 4"
| "nt_size _ = 0"

datatype msg_dir = Request | Answer

record message =
  msg_name :: string
  msg_type :: msg_dir
  all_fields :: "(string \<times> net_type) list"
  fixed_fields :: "(string \<times> net_type) list"
  var_fields :: "(string \<times> net_type) list"
  fixed_size :: nat

definition new_message :: "string \<Rightarrow> msg_dir \<Rightarrow> message" where
  "new_message n t =
     \<lparr>msg_name = n, msg_type = t, all_fields = [], fixed_fields = [], var_fields = [],
      fixed_size = 0\<rparr>"

definition append_or_prepend :: "'a list \<Rightarrow> 'a \<Rightarrow> bool \<Rightarrow> 'a list" where
  "append_or_prepend lst v app = (if app then lst @ [v] else v # lst)"

definition insert_field :: "message \<Rightarrow> string \<Rightarrow> net_type \<Rightarrow> bool \<Rightarrow> message" where
  "insert_field msg key ty app =
     (let v = (key, ty);
          msg = (if variable_length ty
                 then msg\<lparr>var_fields := append_or_prepend (var_fields msg) v app\<rparr>
                 else msg\<lparr>fixed_fields := append_or_prepend (fixed_fields msg) v app,
                          fixed_size := fixed_size msg + nt_size ty\<rparr>)
      in msg\<lparr>all_fields := append_or_prepend (all_fields msg) v app\<rparr>)"

definition prepend_field :: "message \<Rightarrow> string \<times> net_type \<Rightarrow> message" where
  "prepend_field msg f = insert_field msg (fst f) (snd f) False"

definition add_field :: "message \<Rightarrow> string \<times> net_type \<Rightarrow> message" where
  "add_field msg f = insert_field msg (fst f) (snd f) True"

text \<open>The lines of a description, without comments and blank lines.\<close>

datatype desc_line = Section string msg_dir | Field string net_type

datatype current = Common_request | Common_answer | Last_message

record mkmsg_state =
  ms_current :: "current option"
  common_request :: message
  common_answer :: message
  ms_messages :: "message list"

fun mkmsg_line :: "desc_line \<Rightarrow> mkmsg_state \<Rightarrow> mkmsg_state option" where
  "mkmsg_line (Section n t) st =
     Some (if n = ''*''
           then st\<lparr>ms_current := Some (case t of Request \<Rightarrow> Common_request | Answer \<Rightarrow> Common_answer)\<rparr>
           else st\<lparr>ms_current := Some Last_message,
                   ms_messages := ms_messages st @ [new_message n t]\<rparr>)"
| "mkmsg_line (Field key ty) st =
     (case ms_current st of
        None \<Rightarrow> None
      | Some Common_request \<Rightarrow>
          Some (st\<lparr>common_request := add_field (common_request st) (key, ty)\<rparr>)
      | Some Common_answer \<Rightarrow>
          Some (st\<lparr>common_answer := add_field (common_answer st) (key, ty)\<rparr>)
      | Some Last_message \<Rightarrow>
          Some (st\<lparr>ms_messages :=
                     butlast (ms_messages st) @ [add_field (last (ms_messages st)) (key, ty)]\<rparr>))"

fun mkmsg_lines :: "desc_line list \<Rightarrow> mkmsg_state \<Rightarrow> mkmsg_state option" where
  "mkmsg_lines [] st = Some st"
| "mkmsg_lines (l # ls) st =
     (case mkmsg_line l st of None \<Rightarrow> None | Some st \<Rightarrow> mkmsg_lines ls st)"

definition mkmsg :: "desc_line list \<Rightarrow> message list option" where
  "mkmsg desc =
     (case mkmsg_lines desc
             \<lparr>ms_current = None, common_request = new_message ''*common*'' Request,
              common_answer = new_message ''*common*'' Answer, ms_messages = []\<rparr> of
        None \<Rightarrow> None
      | Some st \<Rightarrow>
          Some (map (\<lambda>msg.
                  foldl prepend_field msg
                    (rev (all_fields
                       (case msg_type msg of
                          Request \<Rightarrow> common_request st
                        | Answer \<Rightarrow> common_answer st))))
                (ms_messages st)))"

definition rlnet_desc :: "desc_line list" where
  "rlnet_desc =
    [Section ''*'' Request,
       Field ''hdr_type'' NT_byte, Field ''hdr_flags'' NT_byte,
       Field ''hdr_length'' NT_word, Field ''hdr_sequence_num'' NT_longword,
     Section ''*'' Answer,
       Field ''hdr_type'' NT_byte, Field ''hdr_flags'' NT_byte,
       Field ''hdr_length'' NT_word, Field ''hdr_in_reply_to'' NT_longword,
     Section ''error'' Answer,
       Field ''error_code'' NT_longword,
     Section ''ping'' Request,
     Section ''ping'' Answer,
     Section ''handshake'' Request,
       Field ''version_major'' NT_byte, Field ''version_minor'' NT_byte,
       Field ''node_name'' NT_string, Field ''platform_name'' NT_string,
       Field ''platform_version'' NT_string, Field ''password_hash'' NT_string,
     Section ''handshake'' Answer,
       Field ''version_major'' NT_byte, Field ''version_minor'' NT_byte,
       Field ''host_name'' NT_string, Field ''platform_name'' NT_string,
       Field ''platform_version'' NT_string,
     Section ''open_handle'' Request,
       Field ''path'' NT_string, Field ''mode'' NT_longword,
     Section ''open_handle'' Answer,
       Field ''handle'' NT_longword, Field ''size'' NT_longword, Field ''type'' NT_byte,
     Section ''close_handle'' Request,
       Field ''handle'' NT_longword,
     Section ''read_file'' Request,
       Field ''handle'' NT_longword, Field ''offset_hi'' NT_longword,
       Field ''offset_lo'' NT_longword, Field ''length'' NT_longword,
     Section ''read_file'' Answer,
       Field ''data'' NT_array,
     Section ''write_file'' Request,
       Field ''handle'' NT_longword, Field ''data'' NT_array,
     Section ''write_file'' Answer,
     Section ''find_next_file'' Request,
       Field ''handle'' NT_longword, Field ''reset'' NT_byte,
     Section ''find_next_file'' Answer,
       Field ''end_of_sequence'' NT_byte, Field ''type'' NT_byte,
       Field ''name'' NT_string, Field ''size'' NT_longword,
     Section ''launch_executable'' Request,
       Field ''path'' NT_string, Field ''arguments'' NT_string,
     Section ''launch_executable'' Answer,
     Section ''executable_done'' Request,
       Field ''result_code'' NT_longword,
     Section ''executable_done'' Answer]"

definition messages :: "message list" where
  "messages = (case mkmsg rlnet_desc of None \<Rightarrow> [] | Some ms \<Rightarrow> ms)"

definition RL_MSG_MAX :: nat where
  "RL_MSG_MAX = length messages - 1"

section \<open>Message values\<close>

datatype rl_body =
    Error_answer rl_uint32
  | Ping_request
  | Ping_answer
  | Handshake_request rl_uint8 rl_uint8 cstring cstring cstring cstring
  | Handshake_answer rl_uint8 rl_uint8 cstring cstring cstring
  | Open_handle_request cstring rl_uint32
  | Open_handle_answer rl_uint32 rl_uint32 rl_uint8
  | Close_handle_request rl_uint32
  | Read_file_request rl_uint32 rl_uint32 rl_uint32 rl_uint32
  | Read_file_answer "rl_uint8 list"
  | Write_file_request rl_uint32 "rl_uint8 list"
  | Write_file_answer
  | Find_next_file_request rl_uint32 rl_uint8
  | Find_next_file_answer rl_uint8 rl_uint8 cstring rl_uint32
  | Launch_executable_request cstring cstring
  | Launch_executable_answer
  | Executable_done_request rl_uint32
  | Executable_done_answer

record rl_msg =
  hdr_flags :: rl_uint8
  hdr_length :: rl_uint16
  hdr_seq :: rl_uint32
  body :: rl_body

text \<open>The message kinds: the positions in the description, counted from 0.\<close>

fun kind_of :: "rl_body \<Rightarrow> nat" where
  "kind_of (Error_answer _) = 0"
| "kind_of Ping_request = 1"
| "kind_of Ping_answer = 2"
| "kind_of (Handshake_request _ _ _ _ _ _) = 3"
| "kind_of (Handshake_answer _ _ _ _ _) = 4"
| "kind_of (Open_handle_request _ _) = 5"
| "kind_of (Open_handle_answer _ _ _) = 6"
| "kind_of (Close_handle_request _) = 7"
| "kind_of (Read_file_request _ _ _ _) = 8"
| "kind_of (Read_file_answer _) = 9"
| "kind_of (Write_file_request _ _) = 10"
| "kind_of Write_file_answer = 11"
| "kind_of (Find_next_file_request _ _) = 12"
| "kind_of (Find_next_file_answer _ _ _ _) = 13"
| "kind_of (Launch_executable_request _ _) = 14"
| "kind_of Launch_executable_answer = 15"
| "kind_of (Executable_done_request _) = 16"
| "kind_of Executable_done_answer = 17"

definition rl_msg_kind_of :: "rl_msg \<Rightarrow> nat" where
  "rl_msg_kind_of msg = kind_of (body msg)"

text \<open>\<open>RL_MSG_INIT\<close>: everything zero but the kind.\<close>

definition RL_MSG_INIT :: "rl_body \<Rightarrow> rl_msg" where
  "RL_MSG_INIT b = \<lparr>hdr_flags = 0, hdr_length = 0, hdr_seq = 0, body = b\<rparr>"

datatype fval = FInt8 rl_uint8 | FInt16 rl_uint16 | FInt32 rl_uint32 | FStr cstring
  | FArr "rl_uint8 list"

text \<open>The struct of a body: its fields by name.\<close>

fun body_fields :: "rl_body \<Rightarrow> (string \<times> fval) list" where
  "body_fields (Error_answer c) = [(''error_code'', FInt32 c)]"
| "body_fields (Handshake_request mj mn node pn pv pw) =
     [(''version_major'', FInt8 mj), (''version_minor'', FInt8 mn), (''node_name'', FStr node),
      (''platform_name'', FStr pn), (''platform_version'', FStr pv), (''password_hash'', FStr pw)]"
| "body_fields (Handshake_answer mj mn host pn pv) =
     [(''version_major'', FInt8 mj), (''version_minor'', FInt8 mn), (''host_name'', FStr host),
      (''platform_name'', FStr pn), (''platform_version'', FStr pv)]"
| "body_fields (Open_handle_request p md) = [(''path'', FStr p), (''mode'', FInt32 md)]"
| "body_fields (Open_handle_answer h sz ty) =
     [(''handle'', FInt32 h), (''size'', FInt32 sz), (''type'', FInt8 ty)]"
| "body_fields (Close_handle_request h) = [(''handle'', FInt32 h)]"
| "body_fields (Read_file_request h oh ol n) =
     [(''handle'', FInt32 h), (''offset_hi'', FInt32 oh), (''offset_lo'', FInt32 ol),
      (''length'', FInt32 n)]"
| "body_fields (Read_file_answer d) = [(''data'', FArr d)]"
| "body_fields (Write_file_request h d) = [(''handle'', FInt32 h), (''data'', FArr d)]"
| "body_fields (Find_next_file_request h r) = [(''handle'', FInt32 h), (''reset'', FInt8 r)]"
| "body_fields (Find_next_file_answer e ty n sz) =
     [(''end_of_sequence'', FInt8 e), (''type'', FInt8 ty), (''name'', FStr n),
      (''size'', FInt32 sz)]"
| "body_fields (Launch_executable_request p a) = [(''path'', FStr p), (''arguments'', FStr a)]"
| "body_fields (Executable_done_request rc) = [(''result_code'', FInt32 rc)]"
| "body_fields _ = []"

definition msg_fields :: "rl_msg \<Rightarrow> (string \<times> fval) list" where
  "msg_fields msg =
     [(''hdr_type'', FInt8 (of_nat (rl_msg_kind_of msg))), (''hdr_flags'', FInt8 (hdr_flags msg)),
      (''hdr_length'', FInt16 (hdr_length msg)), (''hdr_sequence_num'', FInt32 (hdr_seq msg)),
      (''hdr_in_reply_to'', FInt32 (hdr_seq msg))] @ body_fields (body msg)"

text \<open>Reading the fields of a decoded struct.\<close>

definition f8 :: "(string \<rightharpoonup> fval) \<Rightarrow> string \<Rightarrow> rl_uint8" where
  "f8 f n = (case f n of Some (FInt8 v) \<Rightarrow> v | _ \<Rightarrow> 0)"
definition f16 :: "(string \<rightharpoonup> fval) \<Rightarrow> string \<Rightarrow> rl_uint16" where
  "f16 f n = (case f n of Some (FInt16 v) \<Rightarrow> v | _ \<Rightarrow> 0)"
definition f32 :: "(string \<rightharpoonup> fval) \<Rightarrow> string \<Rightarrow> rl_uint32" where
  "f32 f n = (case f n of Some (FInt32 v) \<Rightarrow> v | _ \<Rightarrow> 0)"
definition fstr :: "(string \<rightharpoonup> fval) \<Rightarrow> string \<Rightarrow> cstring" where
  "fstr f n = (case f n of Some (FStr v) \<Rightarrow> v | _ \<Rightarrow> [])"
definition farr :: "(string \<rightharpoonup> fval) \<Rightarrow> string \<Rightarrow> rl_uint8 list" where
  "farr f n = (case f n of Some (FArr v) \<Rightarrow> v | _ \<Rightarrow> [])"

definition make_body :: "nat \<Rightarrow> (string \<rightharpoonup> fval) \<Rightarrow> rl_body" where
  "make_body k f =
     (if k = 0 then Error_answer (f32 f ''error_code'')
      else if k = 1 then Ping_request
      else if k = 2 then Ping_answer
      else if k = 3 then
        Handshake_request (f8 f ''version_major'') (f8 f ''version_minor'') (fstr f ''node_name'')
          (fstr f ''platform_name'') (fstr f ''platform_version'') (fstr f ''password_hash'')
      else if k = 4 then
        Handshake_answer (f8 f ''version_major'') (f8 f ''version_minor'') (fstr f ''host_name'')
          (fstr f ''platform_name'') (fstr f ''platform_version'')
      else if k = 5 then Open_handle_request (fstr f ''path'') (f32 f ''mode'')
      else if k = 6 then
        Open_handle_answer (f32 f ''handle'') (f32 f ''size'') (f8 f ''type'')
      else if k = 7 then Close_handle_request (f32 f ''handle'')
      else if k = 8 then
        Read_file_request (f32 f ''handle'') (f32 f ''offset_hi'') (f32 f ''offset_lo'')
          (f32 f ''length'')
      else if k = 9 then Read_file_answer (farr f ''data'')
      else if k = 10 then Write_file_request (f32 f ''handle'') (farr f ''data'')
      else if k = 11 then Write_file_answer
      else if k = 12 then Find_next_file_request (f32 f ''handle'') (f8 f ''reset'')
      else if k = 13 then
        Find_next_file_answer (f8 f ''end_of_sequence'') (f8 f ''type'') (fstr f ''name'')
          (f32 f ''size'')
      else if k = 14 then Launch_executable_request (fstr f ''path'') (fstr f ''arguments'')
      else if k = 15 then Launch_executable_answer
      else if k = 16 then Executable_done_request (f32 f ''result_code'')
      else Executable_done_answer)"

definition make_msg :: "nat \<Rightarrow> (string \<rightharpoonup> fval) \<Rightarrow> rl_msg" where
  "make_msg k f =
     \<lparr>hdr_flags = f8 f ''hdr_flags'', hdr_length = f16 f ''hdr_length'',
      hdr_seq = (if f ''hdr_sequence_num'' \<noteq> None then f32 f ''hdr_sequence_num''
                 else f32 f ''hdr_in_reply_to''),
      body = make_body k f\<rparr>"

section \<open>The generated decoders\<close>

fun decode_fixed ::
  "bool \<Rightarrow> mem \<Rightarrow> (string \<times> net_type) list \<Rightarrow> nat \<Rightarrow> (string \<times> fval) list \<times> nat" where
  "decode_fixed be m [] buffer = ([], buffer)"
| "decode_fixed be m ((name, ty) # fs) buffer =
     (let (v, buffer) =
            (case ty of
               NT_byte \<Rightarrow> map_prod FInt8 id (rl_decode_int1 m buffer)
             | NT_word \<Rightarrow> map_prod FInt16 id (rl_decode_int2 be m buffer)
             | _ \<Rightarrow> map_prod FInt32 id (rl_decode_int4 be m buffer));
          (vs, buffer) = decode_fixed be m fs buffer
      in ((name, v) # vs, buffer))"

definition decode_var_field ::
  "bool \<Rightarrow> mem \<Rightarrow> net_type \<Rightarrow> nat \<times> int \<Rightarrow> (fval \<times> nat \<times> int) option" where
  "decode_var_field be m ty cs =
     (if ty = NT_array then map_option (map_prod FArr id) (rl_decode_array be m cs)
      else map_option (map_prod FStr id) (rl_decode_string m cs))"

fun decode_var ::
  "bool \<Rightarrow> mem \<Rightarrow> (string \<times> net_type) list \<Rightarrow> nat \<times> int \<Rightarrow> (string \<times> fval) list option" where
  "decode_var be m [] cs = Some []"
| "decode_var be m ((name, ty) # fs) cs =
     (case decode_var_field be m ty cs of
        None \<Rightarrow> None
      | Some (v, cs) \<Rightarrow> map_option ((#) (name, v)) (decode_var be m fs cs))"

definition decode_message ::
  "bool \<Rightarrow> message \<Rightarrow> mem \<Rightarrow> nat \<Rightarrow> int \<Rightarrow> (string \<times> fval) list option" where
  "decode_message be msg m buffer sz =
     (if sz < int (fixed_size msg) then None
      else
        let (fixed, buffer) = decode_fixed be m (fixed_fields msg) buffer
        in map_option ((@) fixed)
             (decode_var be m (var_fields msg) (buffer, sz - int (fixed_size msg))))"

text \<open>\<open>None\<close> is \<^verbatim>\<open>RL_MSG_BOGUS\<close>.\<close>

definition peek_msg_kind :: "mem \<Rightarrow> nat \<Rightarrow> int \<Rightarrow> nat option" where
  "peek_msg_kind m buffer sz =
     (if sz < 4 then None
      else if unat (m buffer) > RL_MSG_MAX then None
      else Some (unat (m buffer)))"

definition rl_decode_msg :: "bool \<Rightarrow> mem \<Rightarrow> nat \<Rightarrow> int \<Rightarrow> rl_msg option" where
  "rl_decode_msg be m buffer sz =
     (case peek_msg_kind m buffer sz of
        None \<Rightarrow> None
      | Some kind \<Rightarrow>
          map_option (\<lambda>fs. make_msg kind (map_of fs))
            (decode_message be (messages ! kind) m buffer sz))"

section \<open>The generated encoders\<close>

text \<open>
  The fixed fields are written without a look at the size; the slot of \<open>hdr_length\<close> is
  skipped and its position remembered.
\<close>

fun encode_fixed ::
  "bool \<Rightarrow> (string \<rightharpoonup> fval) \<Rightarrow> (string \<times> net_type) list \<Rightarrow> mem \<times> nat \<times> nat \<Rightarrow> mem \<times> nat \<times> nat" where
  "encode_fixed be src [] st = st"
| "encode_fixed be src ((name, ty) # fs) (m, buffer, length_pos) =
     (if name = ''hdr_length''
      then encode_fixed be src fs (m, buffer + nt_size ty, buffer)
      else
        let (m, buffer) =
              (case ty of
                 NT_byte \<Rightarrow> rl_encode_int1 m buffer (f8 src name)
               | NT_word \<Rightarrow> rl_encode_int2 be m buffer (f16 src name)
               | _ \<Rightarrow> rl_encode_int4 be m buffer (f32 src name))
        in encode_fixed be src fs (m, buffer, length_pos))"

fun encode_var ::
  "bool \<Rightarrow> (string \<rightharpoonup> fval) \<Rightarrow> (string \<times> net_type) list \<Rightarrow> mem \<times> nat \<times> int \<Rightarrow>
     (mem \<times> nat \<times> int) option" where
  "encode_var be src [] st = Some st"
| "encode_var be src ((name, ty) # fs) (m, cs) =
     (case (if ty = NT_array then rl_encode_array be m cs (farr src name)
            else rl_encode_string m cs (fstr src name)) of
        None \<Rightarrow> None
      | Some st \<Rightarrow> encode_var be src fs st)"

definition encode_message ::
  "bool \<Rightarrow> message \<Rightarrow> (string \<rightharpoonup> fval) \<Rightarrow> mem \<Rightarrow> nat \<Rightarrow> int \<Rightarrow> (mem \<times> int) option" where
  "encode_message be msg src m buffer initial_size =
     (let (m, buffer, length_pos) = encode_fixed be src (fixed_fields msg) (m, buffer, 0);
          sz = initial_size - int (fixed_size msg)
      in (case encode_var be src (var_fields msg) (m, buffer, sz) of
            None \<Rightarrow> None
          | Some (m, buffer, sz) \<Rightarrow>
              Some (fst (rl_encode_int2 be m length_pos (of_int (initial_size - sz))),
                    initial_size - sz)))"

definition rl_encode_msg ::
  "bool \<Rightarrow> rl_msg \<Rightarrow> mem \<Rightarrow> nat \<Rightarrow> int \<Rightarrow> (mem \<times> nat) option" where
  "rl_encode_msg be msg m buffer sz =
     map_option (map_prod id nat)
       (encode_message be (messages ! rl_msg_kind_of msg) (map_of (msg_fields msg)) m buffer sz)"

section \<open>The layout of the messages\<close>

text \<open>
  The specification the generator has to meet: every message starts with the eight header
  bytes; its fixed fields follow in the order of the description, then its variable fields.
\<close>

fun hdr_layout :: "msg_dir \<Rightarrow> (string \<times> net_type) list" where
  "hdr_layout Request =
     [(''hdr_type'', NT_byte), (''hdr_flags'', NT_byte), (''hdr_length'', NT_word),
      (''hdr_sequence_num'', NT_longword)]"
| "hdr_layout Answer =
     [(''hdr_type'', NT_byte), (''hdr_flags'', NT_byte), (''hdr_length'', NT_word),
      (''hdr_in_reply_to'', NT_longword)]"

definition layouts ::
  "(string \<times> msg_dir \<times> (string \<times> net_type) list \<times> (string \<times> net_type) list) list" where
  "layouts =
    [(''error'', Answer, [(''error_code'', NT_longword)], []),
     (''ping'', Request, [], []),
     (''ping'', Answer, [], []),
     (''handshake'', Request, [(''version_major'', NT_byte), (''version_minor'', NT_byte)],
        [(''node_name'', NT_string), (''platform_name'', NT_string),
         (''platform_version'', NT_string), (''password_hash'', NT_string)]),
     (''handshake'', Answer, [(''version_major'', NT_byte), (''version_minor'', NT_byte)],
        [(''host_name'', NT_string), (''platform_name'', NT_string),
         (''platform_version'', NT_string)]),
     (''open_handle'', Request, [(''mode'', NT_longword)], [(''path'', NT_string)]),
     (''open_handle'', Answer,
        [(''handle'', NT_longword), (''size'', NT_longword), (''type'', NT_byte)], []),
     (''close_handle'', Request, [(''handle'', NT_longword)], []),
     (''read_file'', Request,
        [(''handle'', NT_longword), (''offset_hi'', NT_longword), (''offset_lo'', NT_longword),
         (''length'', NT_longword)], []),
     (''read_file'', Answer, [], [(''data'', NT_array)]),
     (''write_file'', Request, [(''handle'', NT_longword)], [(''data'', NT_array)]),
     (''write_file'', Answer, [], []),
     (''find_next_file'', Request, [(''handle'', NT_longword), (''reset'', NT_byte)], []),
     (''find_next_file'', Answer,
        [(''end_of_sequence'', NT_byte), (''type'', NT_byte), (''size'', NT_longword)],
        [(''name'', NT_string)]),
     (''launch_executable'', Request, [], [(''path'', NT_string), (''arguments'', NT_string)]),
     (''launch_executable'', Answer, [], []),
     (''executable_done'', Request, [(''result_code'', NT_longword)], []),
     (''executable_done'', Answer, [], [])]"

lemma messages_layout:
  "map (\<lambda>m. (msg_name m, msg_type m, fixed_fields m, var_fields m, fixed_size m)) messages =
     map (\<lambda>(n, d, fx, vr). (n, d, hdr_layout d @ fx, vr, 8 + sum_list (map (nt_size \<circ> snd) fx)))
       layouts"
  by code_simp

lemma length_messages [simp]: "length messages = 18"
  by code_simp

lemma RL_MSG_MAX_eq [simp]: "RL_MSG_MAX = 17"
  by (simp add: RL_MSG_MAX_def)

lemma kind_of_less: "kind_of b < 18"
  by (cases b) simp_all

lemma length_layouts [simp]: "length layouts = 18"
  by (simp add: layouts_def)

definition msg_dir_of :: "rl_body \<Rightarrow> msg_dir" where
  "msg_dir_of b = fst (snd (layouts ! kind_of b))"
definition fixed_of :: "rl_body \<Rightarrow> (string \<times> net_type) list" where
  "fixed_of b = fst (snd (snd (layouts ! kind_of b)))"
definition var_of :: "rl_body \<Rightarrow> (string \<times> net_type) list" where
  "var_of b = snd (snd (snd (layouts ! kind_of b)))"

lemma message_of_kind:
  "fixed_fields (messages ! kind_of b) = hdr_layout (msg_dir_of b) @ fixed_of b"
  "var_fields (messages ! kind_of b) = var_of b"
  "fixed_size (messages ! kind_of b) = 8 + sum_list (map (nt_size \<circ> snd) (fixed_of b))"
proof -
  have k: "kind_of b < length messages" "kind_of b < length layouts"
    using kind_of_less [of b] by simp_all
  have "(\<lambda>m. (msg_name m, msg_type m, fixed_fields m, var_fields m, fixed_size m)) (messages ! kind_of b) =
     (\<lambda>(n, d, fx, vr). (n, d, hdr_layout d @ fx, vr, 8 + sum_list (map (nt_size \<circ> snd) fx)))
       (layouts ! kind_of b)"
    using arg_cong [OF messages_layout, of "\<lambda>xs. xs ! kind_of b"] k
    by (simp only: nth_map)
  then show "fixed_fields (messages ! kind_of b) = hdr_layout (msg_dir_of b) @ fixed_of b"
    "var_fields (messages ! kind_of b) = var_of b"
    "fixed_size (messages ! kind_of b) = 8 + sum_list (map (nt_size \<circ> snd) (fixed_of b))"
    by (simp_all add: msg_dir_of_def fixed_of_def var_of_def split: prod.splits)
qed

section \<open>The wire form of a message\<close>

fun wire_fval :: "fval \<Rightarrow> rl_uint8 list" where
  "wire_fval (FInt8 v) = [v]"
| "wire_fval (FInt16 v) = wire16 v"
| "wire_fval (FInt32 v) = wire32 v"
| "wire_fval (FStr s) = wire_string s"
| "wire_fval (FArr xs) = wire_array xs"

fun has_type :: "fval \<Rightarrow> net_type \<Rightarrow> bool" where
  "has_type (FInt8 _) t = (t = NT_byte)"
| "has_type (FInt16 _) t = (t = NT_word)"
| "has_type (FInt32 _) t = (t = NT_longword)"
| "has_type (FStr s) t = (t = NT_string \<and> valid_string s)"
| "has_type (FArr xs) t = (t = NT_array \<and> valid_array xs)"

definition typed :: "(string \<rightharpoonup> fval) \<Rightarrow> (string \<times> net_type) list \<Rightarrow> bool" where
  "typed src fs = list_all (\<lambda>(n, t). \<exists>v. src n = Some v \<and> has_type v t) fs"

definition wire_fields :: "(string \<rightharpoonup> fval) \<Rightarrow> (string \<times> net_type) list \<Rightarrow> rl_uint8 list" where
  "wire_fields src fs = concat (map (\<lambda>(n, t). wire_fval (the (src n))) fs)"

definition values_of :: "(string \<rightharpoonup> fval) \<Rightarrow> (string \<times> net_type) list \<Rightarrow> (string \<times> fval) list" where
  "values_of src fs = map (\<lambda>(n, t). (n, the (src n))) fs"

lemma typed_simps [simp]:
  "typed src []"
  "typed src ((n, t) # fs) = ((\<exists>v. src n = Some v \<and> has_type v t) \<and> typed src fs)"
  "typed src (fs @ gs) = (typed src fs \<and> typed src gs)"
  by (simp_all add: typed_def)

lemma wire_fields_simps [simp]:
  "wire_fields src [] = []"
  "wire_fields src ((n, t) # fs) = wire_fval (the (src n)) @ wire_fields src fs"
  "wire_fields src (fs @ gs) = wire_fields src fs @ wire_fields src gs"
  by (simp_all add: wire_fields_def)

lemma values_of_simps [simp]:
  "values_of src [] = []"
  "values_of src ((n, t) # fs) = (n, the (src n)) # values_of src fs"
  "values_of src (fs @ gs) = values_of src fs @ values_of src gs"
  by (simp_all add: values_of_def)

definition fixed_only :: "(string \<times> net_type) list \<Rightarrow> bool" where
  "fixed_only fs = list_all (\<lambda>(n, t). \<not> variable_length t) fs"

definition var_only :: "(string \<times> net_type) list \<Rightarrow> bool" where
  "var_only fs = list_all (\<lambda>(n, t). variable_length t) fs"

lemma mread_split:
  "mread m c (length (xs @ ys)) = xs @ ys \<longleftrightarrow>
     mread m c (length xs) = xs \<and> mread m (c + length xs) (length ys) = ys"
  unfolding length_append mread_add by auto

lemma decode_fixed_wire:
  assumes "typed src fs" and "fixed_only fs"
    and "mread m c (length (wire_fields src fs)) = wire_fields src fs"
  shows "decode_fixed be m fs c = (values_of src fs, c + length (wire_fields src fs))"
  using assms
proof (induction fs arbitrary: c)
  case Nil
  then show ?case by simp
next
  case (Cons f fs)
  obtain n t where f: "f = (n, t)" by (cases f)
  obtain v where v: "src n = Some v" "has_type v t"
    using Cons.prems(1) f by auto
  have rd: "mread m c (length (wire_fval v)) = wire_fval v"
    "mread m (c + length (wire_fval v)) (length (wire_fields src fs)) = wire_fields src fs"
    using Cons.prems(3) f v unfolding f wire_fields_simps v(1) option.sel mread_split by auto
  have IH: "decode_fixed be m fs (c + length (wire_fval v)) =
              (values_of src fs, c + length (wire_fval v) + length (wire_fields src fs))"
    using Cons.prems f rd(2) by (intro Cons.IH) (auto simp: fixed_only_def)
  show ?case
    using v rd(1) IH f Cons.prems(2)
    by (cases v) (auto simp: rl_decode_int1_def rl_decode_int2_wire rl_decode_int4_wire
        mread_Suc fixed_only_def)
qed

lemma decode_var_wire:
  assumes "typed src fs" and "var_only fs"
    and "mread m c (length (wire_fields src fs)) = wire_fields src fs"
    and "int (length (wire_fields src fs)) \<le> sz" and "sz < 2 ^ 31"
  shows "decode_var be m fs (c, sz) = Some (values_of src fs)"
  using assms
proof (induction fs arbitrary: c sz)
  case Nil
  then show ?case by simp
next
  case (Cons f fs)
  obtain n t where f: "f = (n, t)" by (cases f)
  obtain v where v: "src n = Some v" "has_type v t"
    using Cons.prems(1) f by auto
  have rd: "mread m c (length (wire_fval v)) = wire_fval v"
    "mread m (c + length (wire_fval v)) (length (wire_fields src fs)) = wire_fields src fs"
    using Cons.prems(3) f v unfolding f wire_fields_simps v(1) option.sel mread_split by auto
  have le: "int (length (wire_fval v)) + int (length (wire_fields src fs)) \<le> sz"
    using Cons.prems(4) f v by simp
  have IH: "decode_var be m fs (c + length (wire_fval v), sz - int (length (wire_fval v))) =
              Some (values_of src fs)"
    using Cons.prems f rd(2) le by (intro Cons.IH) (auto simp: var_only_def)
  have "decode_var_field be m t (c, sz) =
          Some (v, c + length (wire_fval v), sz - int (length (wire_fval v)))"
    using v rd(1) le Cons.prems(2,5) f wstring.decode_wire [of _ sz m c] warray.decode_wire [of _ sz m c]
    by (cases v) (auto simp: decode_var_field_def var_only_def)
  with v IH f show ?case by simp
qed


lemma encode_fixed_append:
  "encode_fixed be src (fs @ gs) st = encode_fixed be src gs (encode_fixed be src fs st)"
proof (induction fs arbitrary: st)
  case Nil
  then show ?case by simp
next
  case (Cons f fs)
  obtain n t where "f = (n, t)" by (cases f)
  moreover obtain m b l where "st = (m, b, l)" by (cases st)
  ultimately show ?case
    using Cons.IH by (auto simp: Let_def split: prod.splits net_type.splits)
qed

lemma encode_fixed_wire:
  assumes "typed src fs" and "fixed_only fs" and "''hdr_length'' \<notin> fst ` set fs"
  shows "encode_fixed be src fs (m, c, lp) =
           (mwrite m c (wire_fields src fs), c + length (wire_fields src fs), lp)"
  using assms
proof (induction fs arbitrary: m c)
  case Nil
  then show ?case by simp
next
  case (Cons f fs)
  obtain n t where f: "f = (n, t)" by (cases f)
  obtain v where v: "src n = Some v" "has_type v t"
    using Cons.prems(1) f by auto
  have IH: "encode_fixed be src fs (mwrite m c (wire_fval v), c + length (wire_fval v), lp) =
      (mwrite (mwrite m c (wire_fval v)) (c + length (wire_fval v)) (wire_fields src fs),
       c + length (wire_fval v) + length (wire_fields src fs), lp)"
    using Cons.prems f by (intro Cons.IH) (auto simp: fixed_only_def)
  show ?case
    using v IH f Cons.prems(2,3)
    by (cases v) (auto simp: rl_encode_int1_wire rl_encode_int2_wire rl_encode_int4_wire
        f8_def f16_def f32_def mwrite_append mwrite_Cons fixed_only_def)
qed

lemma encode_var_field:
  assumes "src n = Some v" and "has_type v t" and "variable_length t"
  shows "(if t = NT_array then rl_encode_array be m (c, sz) (farr src n)
          else rl_encode_string m (c, sz) (fstr src n)) =
         (if int (length (wire_fval v)) \<le> sz
          then Some (mwrite m c (wire_fval v), c + length (wire_fval v), sz - int (length (wire_fval v)))
          else None)"
  using assms wstring.encode_fits [of _ sz m c] warray.encode_fits [of _ sz be m c]
    wstring.encode_refuses [of _ sz m c] warray.encode_refuses [of _ sz be m c]
  by (cases v) (auto simp: farr_def fstr_def)

lemma encode_var_wire:
  assumes "typed src fs" and "var_only fs"
  shows "encode_var be src fs (m, c, sz) =
           (if fs = [] \<or> int (length (wire_fields src fs)) \<le> sz
            then Some (mwrite m c (wire_fields src fs), c + length (wire_fields src fs),
                       sz - int (length (wire_fields src fs)))
            else None)"
  using assms
proof (induction fs arbitrary: m c sz)
  case Nil
  then show ?case by simp
next
  case (Cons f fs)
  obtain n t where f: "f = (n, t)" by (cases f)
  obtain v where v: "src n = Some v" "has_type v t" "variable_length t"
    using Cons.prems f by (auto simp: var_only_def)
  have IH: "encode_var be src fs (m, c, sz) =
           (if fs = [] \<or> int (length (wire_fields src fs)) \<le> sz
            then Some (mwrite m c (wire_fields src fs), c + length (wire_fields src fs),
                       sz - int (length (wire_fields src fs)))
            else None)" for m c sz
    using Cons.prems f by (intro Cons.IH) (auto simp: var_only_def)
  show ?case
    using v(1) by (auto simp: f encode_var_field [where src = src and n = n, OF v] IH mwrite_append)
qed

lemma wire_fields_fixed_length:
  "typed src fs \<Longrightarrow> fixed_only fs \<Longrightarrow>
     length (wire_fields src fs) = sum_list (map (nt_size \<circ> snd) fs)"
proof (induction fs)
  case Nil
  then show ?case by simp
next
  case (Cons f fs)
  obtain n t where f: "f = (n, t)" by (cases f)
  obtain v where "src n = Some v" "has_type v t" "\<not> variable_length t"
    using Cons.prems f by (auto simp: fixed_only_def)
  then show ?case
    using Cons f by (cases v) (auto simp: fixed_only_def)
qed

text \<open>Which bodies can be sent: strings of at most 255 bytes without zeros, arrays below 2 GB.\<close>

definition valid_body :: "rl_body \<Rightarrow> bool" where
  "valid_body b =
     list_all (\<lambda>(n, v). case v of FStr s \<Rightarrow> valid_string s | FArr a \<Rightarrow> valid_array a | _ \<Rightarrow> True)
       (body_fields b)"

abbreviation src_of :: "rl_msg \<Rightarrow> string \<rightharpoonup> fval" where
  "src_of msg \<equiv> map_of (msg_fields msg)"

definition msg_size :: "rl_msg \<Rightarrow> nat" where
  "msg_size msg =
     8 + length (wire_fields (src_of msg) (fixed_of (body msg))) +
     length (wire_fields (src_of msg) (var_of (body msg)))"

definition wire_msg :: "rl_msg \<Rightarrow> rl_uint8 list" where
  "wire_msg msg =
     [of_nat (rl_msg_kind_of msg), hdr_flags msg] @ wire16 (of_nat (msg_size msg)) @
     wire32 (hdr_seq msg) @ wire_fields (src_of msg) (fixed_of (body msg)) @
     wire_fields (src_of msg) (var_of (body msg))"

lemma length_wire_msg [simp]: "length (wire_msg msg) = msg_size msg"
  by (simp add: wire_msg_def msg_size_def)

lemma body_layout:
  "fixed_only (fixed_of b)" "var_only (var_of b)" "''hdr_length'' \<notin> fst ` set (fixed_of b)"
  by (cases b; simp add: fixed_of_def var_of_def layouts_def fixed_only_def var_only_def)+

lemma body_typed:
  "valid_body (body msg) \<Longrightarrow> typed (src_of msg) (fixed_of (body msg)) \<and> typed (src_of msg) (var_of (body msg))"
  by (cases "body msg")
    (simp_all add: fixed_of_def var_of_def layouts_def msg_fields_def valid_body_def)

lemma mwrite_patch:
  assumes "length ys = length zs"
  shows "mwrite (mwrite m c (xs @ ys @ ws)) (c + length xs) zs = mwrite m c (xs @ zs @ ws)"
proof
  fix i
  show "mwrite (mwrite m c (xs @ ys @ ws)) (c + length xs) zs i = mwrite m c (xs @ zs @ ws) i"
    using assms by (auto simp: mwrite_def nth_append)
qed

lemma mwrite_gap:
  "mwrite (mwrite m c xs) (c + length xs + n) ws = mwrite m c (xs @ mread m (c + length xs) n @ ws)"
  by (rule ext) (auto simp: mwrite_def nth_append less_diff_conv2)

lemma rl_encode_msg_wire:
  assumes "valid_body (body msg)"
  shows "rl_encode_msg be msg m c sz =
           (if var_of (body msg) = [] \<or> int (msg_size msg) \<le> sz
            then Some (mwrite m c (wire_msg msg), msg_size msg) else None)"
proof -
  let ?b = "body msg" and ?src = "src_of msg"
  let ?F = "wire_fields ?src (fixed_of ?b)" and ?V = "wire_fields ?src (var_of ?b)"
  have ty: "typed ?src (fixed_of ?b)" "typed ?src (var_of ?b)"
    using body_typed [OF assms] by auto
  have sizes: "fixed_size (messages ! kind_of ?b) = 8 + length ?F"
    using wire_fields_fixed_length [OF ty(1) body_layout(1)] by (simp add: message_of_kind)
  have hdr: "encode_fixed be ?src (hdr_layout (msg_dir_of ?b)) (m, c, 0) =
      (mwrite m c ([of_nat (rl_msg_kind_of msg), hdr_flags msg] @ [m (c + 2), m (c + 3)] @
         wire32 (hdr_seq msg)), c + 8, c + 2)"
    using mwrite_gap [of m c "[of_nat (rl_msg_kind_of msg), hdr_flags msg]" 2 "wire32 (hdr_seq msg)"]
    by (cases "msg_dir_of ?b")
      (simp_all add: msg_fields_def f8_def f32_def rl_encode_int1_wire rl_encode_int4_wire Let_def
        mwrite_Cons eval_nat_numeral mread_Suc)
  have fx: "encode_fixed be ?src (fixed_fields (messages ! kind_of ?b)) (m, c, 0) =
      (mwrite m c ([of_nat (rl_msg_kind_of msg), hdr_flags msg] @ [m (c + 2), m (c + 3)] @
         wire32 (hdr_seq msg) @ ?F), c + 8 + length ?F, c + 2)"
    unfolding message_of_kind encode_fixed_append hdr
      encode_fixed_wire [OF ty(1) body_layout(1,3)]
    by (simp add: mwrite_append [of m c "[_, _, _, _] @ wire32 (hdr_seq msg)" ?F, simplified])
  have patch: "mwrite (mwrite m c ([of_nat (rl_msg_kind_of msg), hdr_flags msg] @ [m (c + 2), m (c + 3)] @
         wire32 (hdr_seq msg) @ ?F @ ?V)) (c + 2) (wire16 (of_nat (msg_size msg))) =
      mwrite m c (wire_msg msg)"
    using mwrite_patch [of "[m (c + 2), m (c + 3)]" "wire16 (of_nat (msg_size msg))" m c
        "[of_nat (rl_msg_kind_of msg), hdr_flags msg]" "wire32 (hdr_seq msg) @ ?F @ ?V"]
    by (simp add: wire_msg_def)
  show ?thesis
    using patch
    by (auto simp: rl_encode_msg_def encode_message_def rl_msg_kind_of_def fx sizes
        message_of_kind(2) encode_var_wire [OF ty(2) body_layout(2)] rl_encode_int2_wire
        msg_size_def mwrite_append [of m c "[_, _, _, _] @ wire32 (hdr_seq msg) @ ?F" ?V, simplified]
        add.assoc)
qed

section \<open>Decoding a wire message\<close>

lemma peek_msg_kind_wire:
  assumes "mread m c (msg_size msg) = wire_msg msg" and "4 \<le> sz"
  shows "peek_msg_kind m c sz = Some (kind_of (body msg))"
proof -
  have "m c = of_nat (kind_of (body msg))"
    using arg_cong [OF assms(1), of "\<lambda>xs. xs ! 0"]
    by (simp add: wire_msg_def rl_msg_kind_of_def msg_size_def)
  then show ?thesis
    using assms(2) kind_of_less [of "body msg"]
    by (simp add: peek_msg_kind_def unat_of_nat take_bit_eq_mod)
qed

text \<open>What a decoded copy of a message looks like: its length field is the real length.\<close>

definition as_sent :: "rl_msg \<Rightarrow> rl_msg" where
  "as_sent msg = msg\<lparr>hdr_length := of_nat (msg_size msg)\<rparr>"

lemma hdr_typed: "typed (src_of msg) (hdr_layout d)" "fixed_only (hdr_layout d)"
  by (cases d; simp add: msg_fields_def fixed_only_def)+

lemma as_sent_fields:
  "wire_fields (src_of (as_sent msg)) (fixed_of (body msg)) = wire_fields (src_of msg) (fixed_of (body msg))"
  "wire_fields (src_of (as_sent msg)) (var_of (body msg)) = wire_fields (src_of msg) (var_of (body msg))"
  by (cases "body msg"; simp add: fixed_of_def var_of_def layouts_def msg_fields_def as_sent_def)+

lemma wire_msg_fields:
  "wire_msg msg = wire_fields (src_of (as_sent msg))
     (hdr_layout (msg_dir_of (body msg)) @ fixed_of (body msg) @ var_of (body msg))"
proof -
  have "wire_fields (src_of (as_sent msg)) (hdr_layout (msg_dir_of (body msg))) =
      [of_nat (rl_msg_kind_of msg), hdr_flags msg] @ wire16 (of_nat (msg_size msg)) @ wire32 (hdr_seq msg)"
    by (cases "msg_dir_of (body msg)") (simp_all add: msg_fields_def as_sent_def rl_msg_kind_of_def)
  then show ?thesis by (simp add: wire_msg_def as_sent_fields)
qed

lemma make_msg_values:
  "make_msg (kind_of (body msg))
     (map_of (values_of (src_of msg)
        (hdr_layout (msg_dir_of (body msg)) @ fixed_of (body msg) @ var_of (body msg)))) = msg"
  by (cases msg; cases "body msg")
    (simp_all add: make_msg_def make_body_def fixed_of_def var_of_def msg_dir_of_def layouts_def
      msg_fields_def f8_def f16_def f32_def fstr_def farr_def)

lemma rl_decode_msg_wire:
  assumes "valid_body (body msg)" and "mread m c (msg_size msg) = wire_msg msg"
    and "int (msg_size msg) \<le> sz" and "sz < 2 ^ 31"
  shows "rl_decode_msg be m c sz = Some (as_sent msg)"
proof -
  let ?b = "body msg" and ?src = "src_of (as_sent msg)"
  let ?H = "hdr_layout (msg_dir_of ?b) @ fixed_of ?b"
  have ty: "typed ?src ?H" "typed ?src (var_of ?b)"
    using body_typed [of "as_sent msg"] assms(1) hdr_typed by (auto simp: as_sent_def)
  have fo: "fixed_only ?H"
    using hdr_typed(2) body_layout(1) by (simp add: fixed_only_def)
  have len: "length (wire_fields ?src ?H) = fixed_size (messages ! kind_of ?b)"
    unfolding wire_fields_fixed_length [OF ty(1) fo] message_of_kind
    by (cases "msg_dir_of ?b") simp_all
  have sz: "msg_size msg = length (wire_fields ?src ?H) + length (wire_fields ?src (var_of ?b))"
    using arg_cong [OF wire_msg_fields [of msg], of length] by simp
  have rd: "mread m c (length (wire_fields ?src ?H)) = wire_fields ?src ?H"
    "mread m (c + length (wire_fields ?src ?H)) (length (wire_fields ?src (var_of ?b))) =
       wire_fields ?src (var_of ?b)"
    using assms(2) mread_split [of m c "wire_fields ?src ?H" "wire_fields ?src (var_of ?b)"]
    unfolding wire_msg_fields length_append sz by (simp_all add: add.assoc)
  have dv: "decode_var be m (var_of ?b)
      (c + length (wire_fields ?src ?H), sz - int (fixed_size (messages ! kind_of ?b))) =
      Some (values_of ?src (var_of ?b))"
    using assms(3,4) rd(2) sz len by (intro decode_var_wire ty body_layout) simp_all
  have "decode_message be (messages ! kind_of ?b) m c sz = Some (values_of ?src (?H @ var_of ?b))"
    using assms(3) sz len decode_fixed_wire [OF ty(1) fo rd(1)] dv
    by (simp add: decode_message_def message_of_kind(1,2))
  moreover have "4 \<le> sz"
    using assms(3) by (simp add: msg_size_def)
  ultimately show ?thesis
    using peek_msg_kind_wire [OF assms(2)] make_msg_values [of "as_sent msg"]
    by (simp add: rl_decode_msg_def as_sent_def)
qed

section \<open>Properties of the codec\<close>

text \<open>
  Claim C9: a message that fits the buffer is encoded by a machine of either byte order into
  its wire form, whose length is the reported size; nothing outside that range of memory is
  touched; a machine of either byte order decodes the bytes to the same message, with the
  length field set to the size.
\<close>
theorem msg_roundtrip:
  assumes "valid_body (body msg)" and "int (msg_size msg) \<le> sz" and "sz < 2 ^ 31"
  shows "\<exists>m'. rl_encode_msg be msg m c sz = Some (m', msg_size msg) \<and>
           mread m' c (msg_size msg) = wire_msg msg \<and>
           (\<forall>i. i < c \<or> c + msg_size msg \<le> i \<longrightarrow> m' i = m i) \<and>
           rl_decode_msg be' m' c (int (msg_size msg)) = Some (msg\<lparr>hdr_length := of_nat (msg_size msg)\<rparr>)"
proof (intro exI conjI)
  show "rl_encode_msg be msg m c sz = Some (mwrite m c (wire_msg msg), msg_size msg)"
    using rl_encode_msg_wire [OF assms(1)] assms(2) by simp
  show rd: "mread (mwrite m c (wire_msg msg)) c (msg_size msg) = wire_msg msg"
    using mread_mwrite_same [of m c "wire_msg msg"] by simp
  show "\<forall>i. i < c \<or> c + msg_size msg \<le> i \<longrightarrow> mwrite m c (wire_msg msg) i = m i"
    by (simp add: mem_simps)
  show "rl_decode_msg be' (mwrite m c (wire_msg msg)) c (int (msg_size msg)) =
          Some (msg\<lparr>hdr_length := of_nat (msg_size msg)\<rparr>)"
    using rl_decode_msg_wire [OF assms(1) rd] assms(2,3) by (simp add: as_sent_def)
qed

theorem msg_roundtrip_witness:
  "\<exists>m'. rl_encode_msg True (RL_MSG_INIT (Open_handle_request (lit ''ab'') 3)) (\<lambda>_. 0) 7 64 =
          Some (m', 16) \<and>
        rl_decode_msg False m' 7 16 =
          Some ((RL_MSG_INIT (Open_handle_request (lit ''ab'') 3))\<lparr>hdr_length := 16\<rparr>)"
proof -
  have v: "valid_body (body (RL_MSG_INIT (Open_handle_request (lit ''ab'') 3)))" by code_simp
  have n: "msg_size (RL_MSG_INIT (Open_handle_request (lit ''ab'') 3)) = 16" by code_simp
  show ?thesis
    using msg_roundtrip [OF v, of 64 True "\<lambda>_. 0" 7 False] unfolding n by auto
qed

text \<open>
  Claim C36: the size check of the encoders. A message with a variable field that does not
  fit is refused. A message without variable fields is never refused: its bytes are stored
  whatever the size of the buffer is.
\<close>
theorem encode_size_check:
  assumes "valid_body (body msg)" and "sz < int (msg_size msg)"
  shows "rl_encode_msg be msg m c sz =
           (if var_fields (messages ! rl_msg_kind_of msg) \<noteq> [] then None
            else Some (mwrite m c (wire_msg msg), msg_size msg))"
  using rl_encode_msg_wire [OF assms(1)] assms(2) by (simp add: rl_msg_kind_of_def message_of_kind(2))

theorem encode_size_check_witness:
  "rl_encode_msg True (RL_MSG_INIT (Open_handle_request (lit ''ab'') 3)) (\<lambda>_. 0) 7 14 = None \<and>
   rl_encode_msg True (RL_MSG_INIT (Close_handle_request 3)) (\<lambda>_. 0) 7 4 =
     Some (mwrite (\<lambda>_. 0) 7 (wire_msg (RL_MSG_INIT (Close_handle_request 3))), 12)"
proof -
  have v: "valid_body (body (RL_MSG_INIT (Open_handle_request (lit ''ab'') 3)))"
    "valid_body (body (RL_MSG_INIT (Close_handle_request 3)))" by code_simp+
  have n: "msg_size (RL_MSG_INIT (Open_handle_request (lit ''ab'') 3)) = 16"
    "msg_size (RL_MSG_INIT (Close_handle_request 3)) = 12"
    "var_fields (messages ! rl_msg_kind_of (RL_MSG_INIT (Open_handle_request (lit ''ab'') 3))) \<noteq> []"
    "var_fields (messages ! rl_msg_kind_of (RL_MSG_INIT (Close_handle_request 3))) = []"
    by code_simp+
  show ?thesis
    using encode_size_check [OF v(1), of 14 True "\<lambda>_. 0" 7] encode_size_check [OF v(2), of 4 True "\<lambda>_. 0" 7] n by simp
qed

end
