(* ===== verification/Rl_Format.thy ===== *)
theory Rl_Format
  imports Rl_Memory "HOL-Library.Monad_Syntax"
begin

unbundle bit_operations_syntax

text \<open>
  The formatting engine and the log of \<^verbatim>\<open>src/src/util.c\<close>: \<open>format_message\<close> and its helpers,
  written over an arbitrary writer callback as in the source; the two writers the program
  uses, \<open>safe_format_writer\<close> (the bounded buffer of \<open>rl_format_msg\<close>) and \<open>write_log\<close> (the
  line-buffered log); \<open>rl_dump_buffer\<close> and \<open>rl_toggle_log_bits\<close>.

  The locale \<open>format_writer\<close> is the contract between the engine and a writer. Inside it the
  engine is shown to hand the writer exactly the text of the message, independently of the
  pieces it is cut into; both writers are interpretations.

  \<open>None\<close> stands for undefined behaviour of the C code: a missing or ill-typed variadic
  argument, a format that ends inside a conversion, a width that overflows an \<^verbatim>\<open>int\<close>, digits
  that overrun the 64-byte conversion buffer.
\<close>

section \<open>Arguments and integer conversion\<close>

datatype platform = Posix | Amiga

text \<open>The width of \<^verbatim>\<open>size_t\<close>, \<^verbatim>\<open>ssize_t\<close> and pointers.\<close>

fun ptr_bits :: "platform \<Rightarrow> nat" where
  "ptr_bits Posix = 64"
| "ptr_bits Amiga = 32"

text \<open>
  The variadic arguments: an \<^verbatim>\<open>int\<close> or \<^verbatim>\<open>unsigned int\<close> (its 32 bits), a string, a
  pointer, and a pointer to a length-prefixed BCPL string.
\<close>

datatype fmt_arg = AInt rl_uint32 | AStr cstring | APtr nat | ABstr "rl_uint8 list"

definition format_base_digits :: cstring where
  "format_base_digits = lit ''0123456789abcdefghijklmnopqrstuvwxyz''"

text \<open>
  The conversion buffer with the pointer \<open>p\<close> into it: \<^verbatim>\<open>*p-- = c\<close> stores at \<open>p\<close> and moves down;
  \<open>None\<close> is a store outside the buffer.
\<close>

definition put_back :: "rl_uint8 \<Rightarrow> cstring \<times> int \<Rightarrow> (cstring \<times> int) option" where
  "put_back c bp =
     (case bp of (buf, p) \<Rightarrow> if 0 \<le> p \<and> p < int (length buf) then Some (buf[nat p := c], p - 1) else None)"

text \<open>
  The \<^verbatim>\<open>do ... while (v > 0)\<close> loop that fills the buffer from its end. The program calls it
  with base 2, 10 or 16; the test \<open>1 < base\<close> only makes the recursion total.
\<close>

function put_digits :: "nat \<Rightarrow> nat \<Rightarrow> cstring \<times> int \<Rightarrow> (cstring \<times> int) option" where
  "put_digits base v bp = do {
     bp \<leftarrow> put_back (format_base_digits ! (v mod base)) bp;
     let v = v div base;
     if v > 0 \<and> 1 < base then put_digits base v bp else Some bp
   }"
  by pat_completeness auto
termination
  by (relation "measure (\<lambda>(base, v, bp). v)") (auto simp: div_greater_zero_iff)

declare put_digits.simps [simp del]

text \<open>The string behind the pointer.\<close>

definition buffer_text :: "cstring \<times> int \<Rightarrow> cstring" where
  "buffer_text bp = (case bp of (buf, p) \<Rightarrow> takeWhile (\<lambda>c. c \<noteq> 0) (drop (nat (p + 1)) buf))"

text \<open>A reference for the loop: the digits it produces, however many.\<close>

function fmt_digits :: "nat \<Rightarrow> nat \<Rightarrow> cstring \<Rightarrow> cstring" where
  "fmt_digits base v acc =
     (let acc = format_base_digits ! (v mod base) # acc;
          v = v div base
      in if v > 0 \<and> 1 < base then fmt_digits base v acc else acc)"
  by pat_completeness auto
termination
  by (relation "measure (\<lambda>(base, v, acc). v)") (auto simp: div_greater_zero_iff)

declare fmt_digits.simps [simp del]

section \<open>The engine\<close>

text \<open>\<^verbatim>\<open>while (padding-- > 0) (*wf)(&fill, 1, writer_state)\<close>.\<close>

fun pad_loop :: "nat \<Rightarrow> rl_uint8 \<Rightarrow> (rl_uint8 list \<Rightarrow> 's \<Rightarrow> 's) \<Rightarrow> 's \<Rightarrow> 's" where
  "pad_loop 0 fill wfn s = s"
| "pad_loop (Suc n) fill wfn s = pad_loop n fill wfn (wfn [fill] s)"

definition format_string ::
  "rl_uint8 list \<Rightarrow> bool \<Rightarrow> nat \<Rightarrow> rl_uint8 \<Rightarrow> (rl_uint8 list \<Rightarrow> 's \<Rightarrow> 's) \<Rightarrow> 's \<Rightarrow> 's" where
  "format_string val falign_left fwidth fill wfn s =
     (let padding = int fwidth - to_int32 (int (length val))
      in if falign_left
         then pad_loop (nat padding) fill wfn (wfn val s)
         else wfn val (pad_loop (nat padding) fill wfn s))"

definition format_integer_unsigned ::
  "nat \<Rightarrow> nat \<Rightarrow> bool \<Rightarrow> nat \<Rightarrow> rl_uint8 \<Rightarrow> (rl_uint8 list \<Rightarrow> 's \<Rightarrow> 's) \<Rightarrow> 's \<Rightarrow> 's option" where
  "format_integer_unsigned val base falign_left fwidth fill wfn s =
     do {
       bp \<leftarrow> put_back 0 (replicate 64 0, 63);
       bp \<leftarrow> put_digits base val bp;
       Some (format_string (buffer_text bp) falign_left fwidth fill wfn s)
     }"

text \<open>\<open>v = -v\<close> in the width of \<^verbatim>\<open>ssize_t\<close>: it stays negative for the least value.\<close>

definition format_integer_signed ::
  "platform \<Rightarrow> int \<Rightarrow> nat \<Rightarrow> bool \<Rightarrow> nat \<Rightarrow> rl_uint8 \<Rightarrow>
     (rl_uint8 list \<Rightarrow> 's \<Rightarrow> 's) \<Rightarrow> 's \<Rightarrow> 's option" where
  "format_integer_signed plat val base falign_left fwidth fill wfn s =
     (let v = (if val < 0 then signed_take_bit (ptr_bits plat - 1) (- val) else val)
      in if v < 0 then None
         else do {
           bp \<leftarrow> put_back 0 (replicate 64 0, 63);
           bp \<leftarrow> put_digits base (nat v) bp;
           bp \<leftarrow> (if val < 0 then put_back (of_char CHR ''-'') bp else Some bp);
           Some (format_string (buffer_text bp) falign_left fwidth fill wfn s)
         })"

definition rl_isdigit :: "rl_uint8 \<Rightarrow> bool" where
  "rl_isdigit ch = (ch \<ge> of_char CHR ''0'' \<and> ch \<le> of_char CHR ''9'')"

definition rl_char_int_value :: "rl_uint8 \<Rightarrow> nat" where
  "rl_char_int_value ch = unat ch - unat (of_char CHR ''0'' :: rl_uint8)"

fun parse_width :: "nat \<Rightarrow> rl_uint8 list \<Rightarrow> nat \<times> rl_uint8 list" where
  "parse_width fwidth [] = (fwidth, [])"
| "parse_width fwidth (c # cursor) =
     (if rl_isdigit c then parse_width (fwidth * 10 + rl_char_int_value c) cursor
      else (fwidth, c # cursor))"

text \<open>
  The \<^verbatim>\<open>switch\<close> on the conversion character. An unknown character is skipped without a
  word: the switch has no default. \<^verbatim>\<open>B\<close> and \<^verbatim>\<open>Q\<close> exist in the Amiga build only.
\<close>

definition size_of_int :: "platform \<Rightarrow> rl_uint32 \<Rightarrow> nat" where
  "size_of_int plat w = nat (sint w mod 2 ^ ptr_bits plat)"

definition format_conv ::
  "platform \<Rightarrow> rl_uint8 \<Rightarrow> bool \<Rightarrow> nat \<Rightarrow> rl_uint8 \<Rightarrow> fmt_arg list \<Rightarrow>
     (rl_uint8 list \<Rightarrow> 's \<Rightarrow> 's) \<Rightarrow> 's \<Rightarrow> (fmt_arg list \<times> 's) option" where
  "format_conv plat conv falign_left fwidth fill args wfn s =
     (if conv = of_char CHR ''d'' then
        (case args of AInt w # args \<Rightarrow>
           map_option (Pair args)
             (format_integer_signed plat (sint w) 10 falign_left fwidth fill wfn s)
         | _ \<Rightarrow> None)
      else if conv = of_char CHR ''u'' then
        (case args of AInt w # args \<Rightarrow>
           map_option (Pair args)
             (format_integer_unsigned (unat w) 10 falign_left fwidth fill wfn s)
         | _ \<Rightarrow> None)
      else if conv = of_char CHR ''x'' then
        (case args of AInt w # args \<Rightarrow>
           map_option (Pair args)
             (format_integer_unsigned (size_of_int plat w) 16 falign_left fwidth fill wfn s)
         | _ \<Rightarrow> None)
      else if conv = of_char CHR ''b'' then
        (case args of AInt w # args \<Rightarrow>
           map_option (Pair args)
             (format_integer_unsigned (size_of_int plat w) 2 falign_left fwidth fill wfn s)
         | _ \<Rightarrow> None)
      else if conv = of_char CHR ''s'' then
        (case args of AStr v # args \<Rightarrow>
           Some (args, format_string v falign_left fwidth fill wfn s)
         | _ \<Rightarrow> None)
      else if plat = Amiga \<and> (conv = of_char CHR ''B'' \<or> conv = of_char CHR ''Q'') then
        (case args of ABstr (n # cs) # args \<Rightarrow>
           Some (args, format_string (take (unat n) cs) falign_left fwidth fill wfn s)
         | _ \<Rightarrow> None)
      else if conv = of_char CHR ''c'' then
        (case args of AInt w # args \<Rightarrow>
           Some (args, format_string [ucast w] falign_left fwidth fill wfn s)
         | _ \<Rightarrow> None)
      else if conv = of_char CHR ''p'' then
        (case args of APtr v # args \<Rightarrow>
           map_option (\<lambda>s. (args, wfn [of_char CHR ''>''] s))
             (format_integer_unsigned (v mod 2 ^ ptr_bits plat) 16 falign_left
                (ptr_bits plat div 4) (of_char CHR ''0'') wfn (wfn [of_char CHR ''<''] s))
         | _ \<Rightarrow> None)
      else if conv = of_char CHR ''%'' then Some (args, wfn [of_char CHR ''%''] s)
      else Some (args, s))"

text \<open>One round of the scan: the text before the percent sign, then the parsed conversion.\<close>

definition is_percent :: "rl_uint8 \<Rightarrow> bool" where
  "is_percent c = (c = of_char CHR ''%'')"

definition parse_spec :: "rl_uint8 list \<Rightarrow> bool \<times> rl_uint8 \<times> nat \<times> rl_uint8 list" where
  "parse_spec cursor =
     (let (falign_left, cursor) =
            (case cursor of c # cs \<Rightarrow>
               if c = of_char CHR ''-'' then (True, cs) else (False, cursor)
             | [] \<Rightarrow> (False, cursor));
          (fill, cursor) =
            (case cursor of c # cs \<Rightarrow>
               if c = of_char CHR ''0'' then (of_char CHR ''0'', cs)
               else (of_char CHR '' '', cursor)
             | [] \<Rightarrow> (of_char CHR '' '', cursor));
          (fwidth, cursor) = parse_width 0 cursor
      in (falign_left, fill, fwidth, cursor))"

lemma parse_width_length: "length (snd (parse_width w xs)) \<le> length xs"
  by (induction w xs rule: parse_width.induct) auto

lemma parse_spec_length:
  "parse_spec cursor = (l, f, w, rest) \<Longrightarrow> length rest \<le> length cursor"
  using parse_width_length
  by (auto simp: parse_spec_def Let_def split: list.splits if_splits prod.splits)
    (metis le_SucI snd_conv length_Cons)+

function format_message ::
  "platform \<Rightarrow> (rl_uint8 list \<Rightarrow> 's \<Rightarrow> 's) \<Rightarrow> rl_uint8 list \<Rightarrow> fmt_arg list \<Rightarrow> 's \<Rightarrow> 's option" where
  "format_message plat wfn cursor args s =
     (case dropWhile (\<lambda>c. \<not> is_percent c) cursor of
        [] \<Rightarrow> Some (wfn cursor s)
      | _ # spec \<Rightarrow>
          let s = wfn (takeWhile (\<lambda>c. \<not> is_percent c) cursor) s
          in (case parse_spec spec of
                (falign_left, fill, fwidth, []) \<Rightarrow> None
              | (falign_left, fill, fwidth, conv # rest) \<Rightarrow>
                  if fwidth \<ge> 2 ^ 31 then None
                  else
                    (case format_conv plat conv falign_left fwidth fill args wfn s of
                       None \<Rightarrow> None
                     | Some (args, s) \<Rightarrow> format_message plat wfn rest args s)))"
  by pat_completeness auto
termination
proof (relation "measure (\<lambda>(plat, wfn, cursor, args, s). length cursor)", goal_cases)
  case 1
  show ?case by simp
next
  case (2 plat wfn cursor args s c spec)
  then show ?case
    using length_dropWhile_lt [of _ cursor] parse_spec_length
    by (fastforce dest!: sym [of _ "parse_spec spec"])
qed

declare format_message.simps [simp del]

text \<open>The text of a message: what a writer that only collects receives.\<close>

definition collect_writer :: "rl_uint8 list \<Rightarrow> rl_uint8 list \<Rightarrow> rl_uint8 list" where
  "collect_writer xs out = out @ xs"

definition format_text :: "platform \<Rightarrow> cstring \<Rightarrow> fmt_arg list \<Rightarrow> rl_uint8 list option" where
  "format_text plat fmt args = format_message plat collect_writer fmt args []"

section \<open>The two writers\<close>

record safe_format_state =
  next_char :: nat
  space_left :: nat

definition safe_format_writer ::
  "rl_uint8 list \<Rightarrow> mem \<times> safe_format_state \<Rightarrow> mem \<times> safe_format_state" where
  "safe_format_writer input ms =
     (case ms of (m, state) \<Rightarrow>
        let amount = (if length input > space_left state then space_left state
                      else length input);
            state = state\<lparr>space_left := space_left state - amount\<rparr>;
            m = mwrite m (next_char state) (take amount input)
        in (m, state\<lparr>next_char := next_char state + amount\<rparr>))"

text \<open>
  The value is the number of characters before the terminator. \<open>None\<close> is the failed
  assertion \<^verbatim>\<open>buffer_size > 0\<close> or undefined behaviour of the engine.
\<close>

definition rl_format_msg ::
  "platform \<Rightarrow> mem \<Rightarrow> nat \<Rightarrow> nat \<Rightarrow> cstring \<Rightarrow> fmt_arg list \<Rightarrow> (mem \<times> nat) option" where
  "rl_format_msg plat m buffer buffer_size fmt args =
     (if buffer_size > 0 then
        (case format_message plat safe_format_writer fmt args
                (m, \<lparr>next_char = buffer, space_left = buffer_size - 1\<rparr>) of
           None \<Rightarrow> None
         | Some (m, state) \<Rightarrow> Some (m(next_char state := 0), next_char state - buffer))
      else None)"

text \<open>
  The log: \<^verbatim>\<open>log_buffer[256]\<close>, the offset of \<open>log_cursor\<close> in it, and what was written to
  standard output so far. \<open>log_flush\<close> is the branch of the hosted builds, \<^verbatim>\<open>fputs\<close>.
\<close>

record log_state =
  log_buffer :: mem
  log_cursor :: nat
  log_out :: "rl_uint8 list"

definition log_max :: nat where
  "log_max = 256 - 1"

definition log_flush :: "log_state \<Rightarrow> log_state" where
  "log_flush st =
     (let m = (log_buffer st)(log_cursor st := 0)
      in st\<lparr>log_buffer := m,
            log_out := log_out st @ takeWhile (\<lambda>c. c \<noteq> 0) (mread m 0 256),
            log_cursor := 0\<rparr>)"

definition write_log_ch :: "log_state \<Rightarrow> rl_uint8 \<Rightarrow> log_state" where
  "write_log_ch st ch =
     (let st = st\<lparr>log_buffer := (log_buffer st)(log_cursor st := ch),
                  log_cursor := log_cursor st + 1\<rparr>
      in if log_cursor st = log_max \<or> ch = 10 then log_flush st else st)"

definition write_log :: "rl_uint8 list \<Rightarrow> log_state \<Rightarrow> log_state" where
  "write_log str st = foldl write_log_ch st str"

definition do_log :: "platform \<Rightarrow> cstring \<Rightarrow> fmt_arg list \<Rightarrow> log_state \<Rightarrow> log_state option" where
  "do_log plat fmt args st = format_message plat write_log fmt args st"

definition rl_log_message ::
  "platform \<Rightarrow> cstring \<Rightarrow> fmt_arg list \<Rightarrow> log_state \<Rightarrow> log_state option" where
  "rl_log_message plat fmt args st =
     map_option (write_log [10]) (format_message plat write_log fmt args st)"

text \<open>The loop of \<open>rl_dump_buffer\<close> from index \<open>i\<close>, over the bytes that are left.\<close>

fun dump_loop :: "platform \<Rightarrow> nat \<Rightarrow> rl_uint8 list \<Rightarrow> log_state \<Rightarrow> log_state option" where
  "dump_loop plat i [] st = Some st"
| "dump_loop plat i (b # bs) st =
     (case (if i mod 8 = 0
            then do_log plat ([10] @ lit ''%08x   '') [AInt (of_nat i)] st
            else Some st) of
        None \<Rightarrow> None
      | Some st \<Rightarrow>
          (case do_log plat (lit ''%02x '') [AInt (ucast b)] st of
             None \<Rightarrow> None
           | Some st \<Rightarrow> dump_loop plat (i + 1) bs st))"

definition rl_dump_buffer :: "platform \<Rightarrow> rl_uint8 list \<Rightarrow> log_state \<Rightarrow> log_state option" where
  "rl_dump_buffer plat bytes st =
     (case dump_loop plat 0 bytes st of
        None \<Rightarrow> None
      | Some st \<Rightarrow> do_log plat [10] [] st)"

section \<open>Log channels\<close>

definition RL_DEBUG :: rl_uint32 where "RL_DEBUG = 1"
definition RL_NETWORK :: rl_uint32 where "RL_NETWORK = 2"
definition RL_INFO :: rl_uint32 where "RL_INFO = 4"
definition RL_WARNING :: rl_uint32 where "RL_WARNING = 8"
definition RL_CONSOLE :: rl_uint32 where "RL_CONSOLE = 16"
definition RL_PACKET :: rl_uint32 where "RL_PACKET = 32"
definition RL_SERIAL_OUT :: rl_uint32 where "RL_SERIAL_OUT = 64"

definition RL_ALL_LOG_BITS :: rl_uint32 where
  "RL_ALL_LOG_BITS =
     RL_DEBUG OR RL_NETWORK OR RL_INFO OR RL_WARNING OR RL_CONSOLE OR RL_PACKET"

text \<open>The bit a letter toggles; 0 for the two letters that assign and for unknown ones.\<close>

definition log_bit :: "rl_uint8 \<Rightarrow> rl_uint32" where
  "log_bit c =
     (if c = of_char CHR ''d'' then RL_DEBUG
      else if c = of_char CHR ''n'' then RL_NETWORK
      else if c = of_char CHR ''i'' then RL_INFO
      else if c = of_char CHR ''w'' then RL_WARNING
      else if c = of_char CHR ''c'' then RL_CONSOLE
      else if c = of_char CHR ''p'' then RL_PACKET
      else if c = of_char CHR ''s'' then RL_SERIAL_OUT
      else 0)"

definition toggle_log_ch ::
  "platform \<Rightarrow> rl_uint8 \<Rightarrow> rl_uint32 \<times> log_state \<Rightarrow> (rl_uint32 \<times> log_state) option" where
  "toggle_log_ch plat c bl =
     (case bl of (rl_log_bits, log) \<Rightarrow>
        if c = of_char CHR ''a'' then Some (RL_ALL_LOG_BITS XOR 0, log)
        else if c = of_char CHR ''0'' then Some (0 XOR 0, log)
        else if log_bit c \<noteq> 0 then Some (rl_log_bits XOR log_bit c, log)
        else
          map_option (\<lambda>log. (rl_log_bits XOR 0, log))
            (if rl_log_bits AND RL_CONSOLE \<noteq> 0
             then rl_log_message plat (lit ''Invalid log bit: %c'') [AInt (ucast c)] log
             else Some log))"

fun rl_toggle_log_bits ::
  "platform \<Rightarrow> cstring \<Rightarrow> rl_uint32 \<times> log_state \<Rightarrow> (rl_uint32 \<times> log_state) option" where
  "rl_toggle_log_bits plat [] bl = Some bl"
| "rl_toggle_log_bits plat (c # argument) bl =
     (case toggle_log_ch plat c bl of
        None \<Rightarrow> None
      | Some bl \<Rightarrow> rl_toggle_log_bits plat argument bl)"

section \<open>The contract of a writer\<close>

locale format_writer =
  fixes wfn :: "rl_uint8 list \<Rightarrow> 's \<Rightarrow> 's"
  assumes write_nil: "wfn [] s = s"
    and write_append: "wfn (xs @ ys) s = wfn ys (wfn xs s)"
begin

lemma pad_loop_collect:
  "pad_loop n fill wfn (wfn acc s) = wfn (pad_loop n fill collect_writer acc) s"
  by (induction n arbitrary: acc)
    (simp_all add: collect_writer_def write_append [symmetric])

lemma format_string_collect:
  "format_string v l w f wfn (wfn acc s) = wfn (format_string v l w f collect_writer acc) s"
proof -
  have [simp]: "wfn v (wfn acc' s) = wfn (collect_writer v acc') s" for v acc'
    by (simp add: collect_writer_def write_append)
  show ?thesis
    by (auto simp: format_string_def Let_def pad_loop_collect)
qed

lemma format_integer_collect:
  "format_integer_unsigned v b l w f wfn (wfn acc s) =
     map_option (\<lambda>out. wfn out s) (format_integer_unsigned v b l w f collect_writer acc)"
  "format_integer_signed plat i b l w f wfn (wfn acc s) =
     map_option (\<lambda>out. wfn out s) (format_integer_signed plat i b l w f collect_writer acc)"
  by (simp_all add: format_integer_unsigned_def format_integer_signed_def Let_def format_string_collect split: bind_split)

lemma format_conv_collect:
  "format_conv plat c l w f args wfn (wfn acc s) =
     map_option (\<lambda>(args, out). (args, wfn out s))
       (format_conv plat c l w f args collect_writer acc)"
proof -
  have wr: "wfn v (wfn acc' s) = wfn (collect_writer v acc') s" for v acc'
    by (simp add: collect_writer_def write_append)
  show ?thesis
    by (auto simp: format_conv_def format_integer_collect format_string_collect wr
        option.map_comp comp_def split: list.splits fmt_arg.splits)
qed

lemma format_message_collect:
  "format_message plat wfn cursor args (wfn acc s) =
     map_option (\<lambda>out. wfn out s) (format_message plat collect_writer cursor args acc)"
proof (induction "length cursor" arbitrary: cursor args acc rule: less_induct)
  case less
  have wr: "wfn v (wfn acc' s) = wfn (collect_writer v acc') s" for v acc'
    by (simp add: collect_writer_def write_append)
  show ?case
  proof (cases "dropWhile (\<lambda>c. \<not> is_percent c) cursor")
    case Nil
    then show ?thesis
      by (simp add: format_message.simps [of plat _ cursor] wr del: dropWhile_eq_Nil_conv)
  next
    case (Cons c spec)
    obtain l f w rest where ps: "parse_spec spec = (l, f, w, rest)"
      by (cases "parse_spec spec")
    have len: "length rest < length cursor"
      using parse_spec_length [OF ps] length_dropWhile_lt [OF Cons] by simp
    show ?thesis
    proof (cases rest)
      case Nil
      with Cons ps show ?thesis
        by (simp add: format_message.simps [of plat _ cursor])
    next
      case (Cons conv rest')
      with len have "length rest' < length cursor" by simp
      then show ?thesis
        using \<open>dropWhile _ cursor = c # spec\<close> ps Cons less
        by (auto simp: format_message.simps [of plat _ cursor] wr format_conv_collect Let_def
            split: option.splits)
    qed
  qed
qed

text \<open>The writer receives the text of the message, whatever pieces the engine cuts it into.\<close>

lemma format_message_text:
  "format_message plat wfn fmt args s = map_option (\<lambda>out. wfn out s) (format_text plat fmt args)"
  using format_message_collect [of plat fmt args "[]" s]
  by (simp add: format_text_def write_nil)

end

interpretation safe_writer: format_writer safe_format_writer
proof
  fix s :: "mem \<times> safe_format_state"
  show "safe_format_writer [] s = s"
    by (simp add: safe_format_writer_def split: prod.splits)
next
  fix xs ys and s :: "mem \<times> safe_format_state"
  show "safe_format_writer (xs @ ys) s = safe_format_writer ys (safe_format_writer xs s)"
    by (cases s) (auto simp: safe_format_writer_def Let_def mwrite_append min_def)
qed

interpretation log_writer: format_writer write_log
  by unfold_locales (simp_all add: write_log_def)

section \<open>Correctness of the formatting engine\<close>

lemma safe_format_writer_eq:
  "safe_format_writer xs (m, \<lparr>next_char = p, space_left = k\<rparr>) =
     (mwrite m p (take k xs), \<lparr>next_char = p + min k (length xs), space_left = k - length xs\<rparr>)"
  by (auto simp: safe_format_writer_def Let_def)

lemma rl_format_msg_eq:
  assumes "0 < n" and "format_text plat fmt args = Some out"
  shows "rl_format_msg plat m buf n fmt args =
           Some (mwrite m buf (take (n - 1) out @ [0]), min (n - 1) (length out))"
  using assms
  by (auto simp: rl_format_msg_def safe_writer.format_message_text safe_format_writer_eq
      mwrite_append mwrite_Cons min_def)

lemma rl_format_msg_none:
  "format_text plat fmt args = None \<Longrightarrow> rl_format_msg plat m buf n fmt args = None"
  by (simp add: rl_format_msg_def safe_writer.format_message_text)

subsection \<open>Integers\<close>

definition digit_value :: "rl_uint8 \<Rightarrow> nat" where
  "digit_value c = length (takeWhile (\<lambda>d. d \<noteq> c) format_base_digits)"

definition digits_value :: "nat \<Rightarrow> cstring \<Rightarrow> nat" where
  "digits_value base ds = foldl (\<lambda>a d. a * base + digit_value d) 0 ds"

lemma length_format_base_digits [simp]: "length format_base_digits = 36"
  by (simp add: format_base_digits_def)

lemma distinct_format_base_digits: "distinct format_base_digits"
  by code_simp

lemma takeWhile_nth_distinct:
  "distinct xs \<Longrightarrow> i < length xs \<Longrightarrow> length (takeWhile (\<lambda>d. d \<noteq> xs ! i) xs) = i"
proof (induction xs arbitrary: i)
  case Nil
  then show ?case by simp
next
  case (Cons x xs)
  then show ?case by (cases i) auto
qed

lemma digit_value_nth [simp]: "i < 36 \<Longrightarrow> digit_value (format_base_digits ! i) = i"
  by (simp add: digit_value_def takeWhile_nth_distinct distinct_format_base_digits)

lemma fmt_digits_small:
  "v div base = 0 \<or> base \<le> 1 \<Longrightarrow> fmt_digits base v acc = format_base_digits ! (v mod base) # acc"
  by (subst fmt_digits.simps) auto

lemma fmt_digits_step:
  "v div base \<noteq> 0 \<Longrightarrow> 1 < base \<Longrightarrow>
     fmt_digits base v acc = fmt_digits base (v div base) (format_base_digits ! (v mod base) # acc)"
  by (subst fmt_digits.simps) (simp add: Let_def)

lemma div_less_self: "v div base \<noteq> 0 \<Longrightarrow> 1 < base \<Longrightarrow> v div base < (v :: nat)"
  by (metis div_0 div_less_dividend gr0I)

lemma fmt_digits_acc: "fmt_digits base v (xs @ ys) = fmt_digits base v xs @ ys"
proof (induction v arbitrary: xs rule: less_induct)
  case (less v)
  show ?case
  proof (cases "v div base = 0 \<or> base \<le> 1")
    case True
    then show ?thesis by (simp add: fmt_digits_small)
  next
    case False
    then show ?thesis
      using less.IH [of "v div base" "format_base_digits ! (v mod base) # xs"]
      by (simp add: fmt_digits_step div_less_self)
  qed
qed

lemma fmt_digits_value:
  "2 \<le> base \<Longrightarrow> base \<le> 36 \<Longrightarrow> digits_value base (fmt_digits base v []) = v"
proof (induction v rule: less_induct)
  case (less v)
  have d: "v mod base < 36"
    using less.prems mod_less_divisor [of base v] by linarith
  show ?case
  proof (cases "v div base = 0")
    case True
    with less.prems have "v < base" by (auto simp: div_eq_0_iff)
    with less.prems True d show ?thesis
      by (simp add: fmt_digits_small digits_value_def)
  next
    case False
    have "fmt_digits base v [] = fmt_digits base (v div base) [] @ [format_base_digits ! (v mod base)]"
      using False less.prems
        fmt_digits_step [of v base "[]"]
        fmt_digits_acc [of base "v div base" "[]" "[format_base_digits ! (v mod base)]"]
      by simp
    moreover have "digits_value base (fmt_digits base (v div base) []) = v div base"
      using less.prems False by (intro less.IH div_less_self) simp_all
    ultimately show ?thesis
      using d by (simp add: digits_value_def)
  qed
qed

lemma fmt_digits_length:
  "v < base ^ k \<Longrightarrow> 0 < k \<Longrightarrow> length (fmt_digits base v acc) \<le> length acc + k"
proof (induction k arbitrary: v acc)
  case 0
  then show ?case by simp
next
  case (Suc k)
  show ?case
  proof (cases "v div base = 0 \<or> base \<le> 1")
    case True
    then show ?thesis by (simp add: fmt_digits_small)
  next
    case False
    then have "v div base < base ^ k"
      using Suc.prems(1) by (auto simp: less_mult_imp_div_less mult.commute)
    moreover from this False have "0 < k"
      by (cases k) auto
    ultimately show ?thesis
      using Suc.IH [of "v div base" "format_base_digits ! (v mod base) # acc"] False
      by (simp add: fmt_digits_step)
  qed
qed


lemma fmt_digits_nonempty [simp]: "fmt_digits base v [] \<noteq> []"
proof -
  have "fmt_digits base v [c] = fmt_digits base v [] @ [c]" for v c using fmt_digits_acc [of base v "[]" "[c]"] by simp
  then show ?thesis by (subst fmt_digits.simps) (simp add: Let_def)
qed

lemma fmt_digits_set: "base \<le> 36 \<Longrightarrow> v < base \<or> 1 < base \<Longrightarrow>
    set (fmt_digits base v acc) \<subseteq> set format_base_digits \<union> set acc"
proof (induction v arbitrary: acc rule: less_induct)
  case (less v)
  have "v mod base < length format_base_digits"
    using less.prems mod_less_divisor [of base v] by (simp, linarith)
  then have d: "format_base_digits ! (v mod base) \<in> set format_base_digits"
    by (rule nth_mem)
  show ?case
  proof (cases "v div base = 0 \<or> base \<le> 1")
    case True
    with d show ?thesis by (auto simp: fmt_digits_small)
  next
    case False
    then show ?thesis
      using less.IH [of "v div base" "format_base_digits ! (v mod base) # acc"] less.prems d
      by (auto simp: fmt_digits_step div_less_self)
  qed
qed

lemma fmt_digits_long:
  "base ^ k \<le> v \<Longrightarrow> 1 < base \<Longrightarrow> length acc + k < length (fmt_digits base v acc)"
proof (induction k arbitrary: v acc)
  case 0
  then show ?case using fmt_digits_acc [of base v "[]" acc] by simp
next
  case (Suc k)
  then have "base ^ k \<le> v div base" by (simp add: less_eq_div_iff_mult_less_eq mult.commute)
  moreover from this have "v div base \<noteq> 0" using Suc.prems(2) by (metis le_zero_eq not_one_less_zero power_not_zero)
  ultimately show ?case
    using Suc.IH [of "v div base" "format_base_digits ! (v mod base) # acc"] Suc.prems(2) by (simp add: fmt_digits_step)
qed

text \<open>The loop over the buffer and the reference: at most 63 digits fit in front of the terminator.\<close>

definition holds_digits :: "cstring \<times> int \<Rightarrow> cstring \<Rightarrow> bool" where
  "holds_digits bp ds \<longleftrightarrow>
     (case bp of (buf, p) \<Rightarrow> length buf = 64 \<and> length ds \<le> 63 \<and> p = 62 - int (length ds) \<and> drop (63 - length ds) buf = ds @ [0])"

lemma put_back_holds:
  assumes "holds_digits bp ds"
  shows "if length ds < 63 then \<exists>bp'. put_back c bp = Some bp' \<and> holds_digits bp' (c # ds) else put_back c bp = None"
proof -
  obtain buf p where b: "bp = (buf, p)" "length buf = 64" "length ds \<le> 63" "p = 62 - int (length ds)" "drop (63 - length ds) buf = ds @ [0]"
    using assms by (cases bp) (auto simp: holds_digits_def)
  show ?thesis
  proof (cases "length ds < 63")
    case True
    define i where "i = 62 - length ds"
    have i: "nat p = i" "i < length buf" "Suc i = 63 - length ds" using True b by (auto simp: i_def)
    then have "drop i (buf[i := c]) = c # ds @ [0]" using b(5) Cons_nth_drop_Suc [of i "buf[i := c]"] by simp
    then have "holds_digits (buf[i := c], p - 1) (c # ds)" using True b i by (simp add: holds_digits_def i_def)
    moreover have "put_back c bp = Some (buf[i := c], p - 1)" using True b i by (simp add: put_back_def)
    ultimately show ?thesis using True by auto
  qed (use b in \<open>simp add: put_back_def\<close>)
qed

lemma put_digits_holds:
  "holds_digits bp ds \<Longrightarrow>
     if length (fmt_digits base v ds) \<le> 63 then \<exists>bp'. put_digits base v bp = Some bp' \<and> holds_digits bp' (fmt_digits base v ds)
     else put_digits base v bp = None"
proof (induction v arbitrary: bp ds rule: less_induct)
  case (less v)
  let ?d = "format_base_digits ! (v mod base)"
  show ?case
  proof (cases "length ds < 63")
    case True
    then obtain bp' where b: "put_back ?d bp = Some bp'" "holds_digits bp' (?d # ds)" using put_back_holds [OF less.prems, of ?d] by auto
    show ?thesis
    proof (cases "v div base = 0 \<or> base \<le> 1")
      case small: True
      then have "put_digits base v bp = Some bp'" using b(1) by (subst put_digits.simps) auto
      then show ?thesis using b(2) small True by (simp add: fmt_digits_small)
    next
      case False
      then have "put_digits base v bp = put_digits base (v div base) bp'" using b(1) by (subst put_digits.simps) (simp add: Let_def)
      moreover have "v div base < v" using False by (auto simp: div_less_self)
      moreover have "fmt_digits base v ds = fmt_digits base (v div base) (?d # ds)" using False by (simp add: fmt_digits_step)
      ultimately show ?thesis using less.IH [OF _ b(2), of "v div base"] by presburger
    qed
  next
    case False
    then have "put_digits base v bp = None" using put_back_holds [OF less.prems, of ?d] by (subst put_digits.simps) simp
    moreover have "length ds < length (fmt_digits base v ds)"
      using fmt_digits_acc [of base v "[]" ds] by (simp add: fmt_digits_nonempty)
    ultimately show ?thesis using False by simp
  qed
qed

lemma digit_nonzero: "c \<in> set format_base_digits \<Longrightarrow> c \<noteq> 0"
  by (auto simp: format_base_digits_def)

lemma buffer_text_digits: "holds_digits bp ds \<Longrightarrow> 0 \<notin> set ds \<Longrightarrow> buffer_text bp = ds"
proof -
  assume h: "holds_digits bp ds" "0 \<notin> set ds"
  obtain buf p where b: "bp = (buf, p)" by (cases bp)
  have "nat (p + 1) = 63 - length ds" using h(1) b by (auto simp: holds_digits_def)
  then have "drop (nat (p + 1)) buf = ds @ [0]" using h(1) b by (auto simp: holds_digits_def)
  moreover have "takeWhile (\<lambda>c. c \<noteq> 0) (ds @ [0]) = ds" using h(2) by (subst takeWhile_append2) auto
  ultimately show ?thesis using b by (simp add: buffer_text_def)
qed

lemma empty_buffer: "\<exists>bp. put_back 0 (replicate 64 0, 63) = Some bp \<and> holds_digits bp []"
  by (simp add: put_back_def holds_digits_def drop_update_swap numeral_eq_Suc)

lemma format_integer_unsigned_eq:
  assumes "1 < base" and "base \<le> 36"
  shows "format_integer_unsigned val base l w f wfn s =
           (let digits = fmt_digits base val []
            in if length digits \<le> 63 then Some (format_string digits l w f wfn s) else None)"
proof -
  obtain bp where b: "put_back 0 (replicate 64 0, 63) = Some bp" "holds_digits bp []" using empty_buffer by blast
  have "0 \<notin> set (fmt_digits base val [])" using fmt_digits_set [of base val "[]"] assms digit_nonzero by auto
  then show ?thesis
    using b(1) put_digits_holds [OF b(2), of base val] buffer_text_digits
    by (auto simp: format_integer_unsigned_def Let_def split: if_splits)
qed

lemma format_integer_signed_eq:
  assumes "1 < base" and "base \<le> 36"
  shows "format_integer_signed plat val base l w f wfn s =
     (let v = (if val < 0 then signed_take_bit (ptr_bits plat - 1) (- val) else val)
      in if v < 0 then None
         else
           let digits = fmt_digits base (nat v) [];
               digits = (if val < 0 then of_char CHR ''-'' # digits else digits)
           in if length digits \<le> 63 then Some (format_string digits l w f wfn s) else None)"
proof -
  obtain bp where b: "put_back 0 (replicate 64 0, 63) = Some bp" "holds_digits bp []" using empty_buffer by blast
  define v where "v = (if val < 0 then signed_take_bit (ptr_bits plat - 1) (- val) else val)"
  define ds where "ds = fmt_digits base (nat v) []"
  have n: "0 \<notin> set ds" "0 \<notin> set (of_char CHR ''-'' # ds)"
    using fmt_digits_set [of base "nat v" "[]"] assms digit_nonzero by (auto simp: ds_def)
  have p: "if length ds \<le> 63 then \<exists>bp'. put_digits base (nat v) bp = Some bp' \<and> holds_digits bp' ds else put_digits base (nat v) bp = None"
    using put_digits_holds [OF b(2), of base "nat v"] unfolding ds_def .
  have "v \<ge> 0 \<Longrightarrow> do {
      bp \<leftarrow> put_digits base (nat v) bp;
      bp \<leftarrow> (if val < 0 then put_back (of_char CHR ''-'') bp else Some bp);
      Some (format_string (buffer_text bp) l w f wfn s) } =
    (let digits = (if val < 0 then of_char CHR ''-'' # ds else ds)
     in if length digits \<le> 63 then Some (format_string digits l w f wfn s) else None)"
  proof (cases "length ds \<le> 63")
    case True
    then obtain bp' where q: "put_digits base (nat v) bp = Some bp'" "holds_digits bp' ds" using p by auto
    then show ?thesis
      using put_back_holds [OF q(2), of "of_char CHR ''-''"] buffer_text_digits [OF q(2) n(1)] buffer_text_digits [OF _ n(2)] True
      by (auto simp: Let_def split: if_splits)
  qed (use p in \<open>simp add: Let_def\<close>)
  then show ?thesis
    unfolding format_integer_signed_def v_def [symmetric] Let_def ds_def [symmetric] using b(1) by simp
qed

subsection \<open>The text of a message, conversion by conversion\<close>

interpretation collect: format_writer collect_writer
  by unfold_locales (simp_all add: collect_writer_def)

lemma format_text_literal:
  "list_all (\<lambda>c. \<not> is_percent c) s \<Longrightarrow> format_text plat s args = Some s"
proof -
  assume "list_all (\<lambda>c. \<not> is_percent c) s"
  then have "dropWhile (\<lambda>c. \<not> is_percent c) s = []"
    by (simp add: list_all_iff)
  then show ?thesis
    by (simp add: format_text_def format_message.simps collect_writer_def del: dropWhile_eq_Nil_conv)
qed

lemma format_text_step:
  assumes "list_all (\<lambda>c. \<not> is_percent c) pre"
    and "parse_spec spec = (l, f, w, conv # rest)" and "w < 2 ^ 31"
    and "format_conv plat conv l w f args collect_writer pre = Some (args', pre @ v)"
  shows "format_text plat (pre @ of_char CHR ''%'' # spec) args =
           map_option (\<lambda>out. pre @ v @ out) (format_text plat rest args')"
proof -
  have pc: "\<not> is_percent c" if "c \<in> set pre" for c
    using assms(1) that by (auto simp: list_all_iff)
  have "dropWhile (\<lambda>c. \<not> is_percent c) (pre @ of_char CHR ''%'' # spec) = of_char CHR ''%'' # spec"
    using pc by (simp add: dropWhile_append2 is_percent_def)
  moreover have "takeWhile (\<lambda>c. \<not> is_percent c) (pre @ of_char CHR ''%'' # spec) = pre"
    using pc by (simp add: takeWhile_append2 is_percent_def)
  ultimately have "format_text plat (pre @ of_char CHR ''%'' # spec) args =
      format_message plat collect_writer rest args' (pre @ v)"
    using assms(2-4)
    by (simp add: format_text_def format_message.simps [of plat _ "pre @ _"] collect_writer_def)
  then show ?thesis
    by (simp add: collect.format_message_text collect_writer_def)
qed

lemma format_text_none:
  assumes "list_all (\<lambda>c. \<not> is_percent c) pre"
    and "parse_spec spec = (l, f, w, conv # rest)"
    and "format_conv plat conv l w f args collect_writer pre = None"
  shows "format_text plat (pre @ of_char CHR ''%'' # spec) args = None"
proof -
  have pc: "\<not> is_percent c" if "c \<in> set pre" for c
    using assms(1) that by (auto simp: list_all_iff)
  show ?thesis
    using pc assms(2,3)
    by (simp add: format_text_def format_message.simps [of plat _ "pre @ _"] collect_writer_def
        dropWhile_append2 takeWhile_append2 is_percent_def)
qed

text \<open>The conversions \<^verbatim>\<open>%s\<close> and \<^verbatim>\<open>%d\<close> without width, as the program's messages use them.\<close>

definition signed_text :: "int \<Rightarrow> cstring" where
  "signed_text i =
     (if i < 0 then of_char CHR ''-'' # fmt_digits 10 (nat (- i)) [] else fmt_digits 10 (nat i) [])"

lemma format_string_plain:
  "length v < 2 ^ 31 \<Longrightarrow> format_string v False 0 f collect_writer out = out @ v"
  by (simp add: format_string_def Let_def collect_writer_def to_int32_id)

lemma format_text_s:
  assumes "list_all (\<lambda>c. \<not> is_percent c) pre" and "length v < 2 ^ 31"
  shows "format_text plat (pre @ lit ''%s'' @ rest) (AStr v # args) =
           map_option (\<lambda>out. pre @ v @ out) (format_text plat rest args)"
proof -
  have "parse_spec (lit ''s'' @ rest) = (False, 32, 0, 115 # rest)"
    by (simp add: parse_spec_def rl_isdigit_def)
  moreover have "format_conv plat 115 False 0 32 (AStr v # args) collect_writer pre =
                   Some (args, pre @ v)"
    by (simp add: format_conv_def format_string_plain [OF assms(2)])
  ultimately show ?thesis
    using format_text_step [OF assms(1), of "lit ''s'' @ rest" False 32 0 115 rest] by simp
qed

lemma format_s_some:
  assumes "\<exists>out. format_text plat rest args = Some out" and "list_all (\<lambda>c. \<not> is_percent c) pre"
  shows "\<exists>out. format_text plat (pre @ lit ''%s'' @ rest) (AStr v # args) = Some out"
proof -
  have "\<exists>x. pad_loop n f collect_writer pre = pre @ x" for n f pre
  proof (induction n arbitrary: pre)
    case 0
    then show ?case by simp
  next
    case (Suc n)
    obtain x where "pad_loop n f collect_writer (pre @ [f]) = (pre @ [f]) @ x" using Suc.IH by blast
    moreover have "collect_writer [f] pre = pre @ [f]" by (simp add: collect_writer_def)
    ultimately show ?case by simp
  qed
  then have "\<exists>x. format_string v False 0 32 collect_writer pre = pre @ x"
    by (auto simp: format_string_def Let_def collect_writer_def) (metis append.assoc)
  then obtain x where x: "format_string v False 0 32 collect_writer pre = pre @ x" by blast
  have "parse_spec (lit ''s'' @ rest) = (False, 32, 0, 115 # rest)"
    by (simp add: parse_spec_def rl_isdigit_def)
  moreover have "format_conv plat 115 False 0 32 (AStr v # args) collect_writer pre = Some (args, pre @ x)"
    using x by (simp add: format_conv_def)
  ultimately show ?thesis
    using format_text_step [OF assms(2), of "lit ''s'' @ rest" False 32 0 115 rest] assms(1) by auto
qed

lemma signed_text_length: "- (2 ^ 31) \<le> i \<Longrightarrow> i < 2 ^ 31 \<Longrightarrow> length (signed_text i) \<le> 11"
  using fmt_digits_length [of "nat (- i)" 10 10 "[]"] fmt_digits_length [of "nat i" 10 10 "[]"]
  by (cases "i < 0") (simp_all add: signed_text_def nat_less_iff)

lemma sint32_bounds: "- (2 ^ 31) \<le> sint (w :: rl_uint32)" "sint (w :: rl_uint32) < 2 ^ 31"
  using sint_ge [of w] sint_lt [of w] by simp_all

lemma format_text_d:
  assumes "list_all (\<lambda>c. \<not> is_percent c) pre" and "plat = Posix \<or> sint w \<noteq> - (2 ^ 31)"
  shows "format_text plat (pre @ lit ''%d'' @ rest) (AInt w # args) =
           map_option (\<lambda>out. pre @ signed_text (sint w) @ out) (format_text plat rest args)"
proof -
  have v: "(if sint w < 0 then signed_take_bit (ptr_bits plat - 1) (- sint w) else sint w) =
             \<bar>sint w\<bar>"
    using assms(2) sint32_bounds [of w]
    by (cases plat) (auto simp: signed_take_bit_int_eq_self)
  have "format_integer_signed plat (sint w) 10 False 0 32 collect_writer pre =
          Some (pre @ signed_text (sint w))"
    using signed_text_length [OF sint32_bounds, of w] v
    by (auto simp: format_integer_signed_eq signed_text_def Let_def format_string_plain
        split: if_splits)
  then have "format_conv plat 100 False 0 32 (AInt w # args) collect_writer pre =
               Some (args, pre @ signed_text (sint w))"
    by (simp add: format_conv_def)
  moreover have "parse_spec (lit ''d'' @ rest) = (False, 32, 0, 100 # rest)"
    by (simp add: parse_spec_def rl_isdigit_def)
  ultimately show ?thesis
    using format_text_step [OF assms(1), of "lit ''d'' @ rest" False 32 0 100 rest] by simp
qed


subsection \<open>Reading numbers back\<close>

definition signed_value :: "cstring \<Rightarrow> int" where
  "signed_value s =
     (case s of c # ds \<Rightarrow>
        if c = of_char CHR ''-'' then - int (digits_value 10 ds) else int (digits_value 10 s)
      | [] \<Rightarrow> 0)"

lemma minus_not_digit: "of_char CHR ''-'' \<notin> set format_base_digits"
  by code_simp

lemma signed_text_value: "signed_value (signed_text i) = i"
proof (cases "i < 0")
  case True
  then show ?thesis
    by (simp add: signed_text_def signed_value_def fmt_digits_value)
next
  case False
  have "set (fmt_digits 10 (nat i) []) \<subseteq> set format_base_digits"
    using fmt_digits_set [of 10 "nat i" "[]"] by simp
  then have "hd (fmt_digits 10 (nat i) []) \<noteq> of_char CHR ''-''" if "fmt_digits 10 (nat i) [] \<noteq> []"
    using minus_not_digit that by (metis hd_in_set subsetD)
  moreover have "digits_value 10 (fmt_digits 10 (nat i) []) = nat i"
    by (rule fmt_digits_value) simp_all
  ultimately show ?thesis
    using False
    by (cases "fmt_digits 10 (nat i) []")
      (auto simp: signed_text_def signed_value_def digits_value_def)
qed

section \<open>Correctness of the log\<close>

text \<open>
  The cursor never reaches the last byte of the buffer between two characters, and the
  text logged so far is what was written out followed by what the buffer still holds.
\<close>

definition log_inv :: "log_state \<Rightarrow> bool" where
  "log_inv st = (log_cursor st < log_max \<and> nul_free (mread (log_buffer st) 0 (log_cursor st)))"

definition log_text :: "log_state \<Rightarrow> rl_uint8 list" where
  "log_text st = log_out st @ mread (log_buffer st) 0 (log_cursor st)"

lemma mread_upd_snoc: "mread (m(a + n := c)) a (Suc n) = mread m a n @ [c]"
proof -
  have "mread (m(a + n := c)) a n = mread m a n"
    by (rule mread_cong) simp
  then show ?thesis
    using mread_add [of "m(a + n := c)" a n 1] by (simp add: mread_Suc)
qed

lemma log_cursor_flush [simp]: "log_cursor (log_flush st) = 0"
  by (simp add: log_flush_def Let_def)

lemma log_flush_text:
  assumes "log_cursor st \<le> log_max" and "nul_free (mread (log_buffer st) 0 (log_cursor st))"
  shows "log_out (log_flush st) = log_text st" and "log_text (log_flush st) = log_text st"
proof -
  let ?m = "(log_buffer st)(log_cursor st := 0)"
  have "mread ?m 0 (log_cursor st + (256 - log_cursor st)) =
          mread ?m 0 (log_cursor st) @ mread ?m (log_cursor st) (256 - log_cursor st)"
    using mread_add [of ?m 0] by simp
  moreover have "mread ?m 0 (log_cursor st) = mread (log_buffer st) 0 (log_cursor st)"
    by (rule mread_cong) simp
  moreover have "mread ?m (log_cursor st) (256 - log_cursor st) =
                   0 # mread ?m (Suc (log_cursor st)) (255 - log_cursor st)"
  proof -
    have "256 - log_cursor st = Suc (255 - log_cursor st)"
      using assms(1) by (simp add: log_max_def)
    then show ?thesis
      by (simp add: mread_Suc [of ?m "log_cursor st"])
  qed
  ultimately have "mread ?m 0 256 =
      mread (log_buffer st) 0 (log_cursor st) @ 0 # mread ?m (Suc (log_cursor st)) (255 - log_cursor st)"
    using assms(1) by (simp add: log_max_def del: fun_upd_apply)
  then show out: "log_out (log_flush st) = log_text st"
    using assms(2) by (simp add: log_flush_def Let_def log_text_def del: fun_upd_apply)
  show "log_text (log_flush st) = log_text st"
    unfolding log_text_def [of "log_flush st"] by (simp add: out)
qed

lemma write_log_ch_text:
  assumes "log_inv st" and "c \<noteq> 0"
  shows "log_inv (write_log_ch st c) \<and> log_text (write_log_ch st c) = log_text st @ [c] \<and>
         (c = 10 \<longrightarrow> log_cursor (write_log_ch st c) = 0)"
proof -
  let ?st = "st\<lparr>log_buffer := (log_buffer st)(log_cursor st := c), log_cursor := log_cursor st + 1\<rparr>"
  have rd: "mread (log_buffer ?st) 0 (log_cursor ?st) =
              mread (log_buffer st) 0 (log_cursor st) @ [c]"
    using mread_upd_snoc [of "log_buffer st" 0 "log_cursor st" c] by simp
  have le: "log_cursor ?st \<le> log_max"
    using assms(1) by (simp add: log_inv_def)
  have nf: "nul_free (mread (log_buffer ?st) 0 (log_cursor ?st))"
    unfolding rd using assms by (simp add: log_inv_def)
  have tx: "log_text ?st = log_text st @ [c]"
    unfolding log_text_def rd by simp
  show ?thesis
  proof (cases "log_cursor ?st = log_max \<or> c = 10")
    case True
    then have eq: "write_log_ch st c = log_flush ?st"
      by (simp add: write_log_ch_def Let_def)
    show ?thesis
      unfolding eq using log_flush_text [OF le nf] tx
      by (simp add: log_inv_def log_max_def)
  next
    case False
    then have eq: "write_log_ch st c = ?st"
      by (auto simp: write_log_ch_def Let_def)
    show ?thesis
      unfolding eq using False le nf tx by (auto simp: log_inv_def)
  qed
qed

lemma write_log_text:
  "log_inv st \<Longrightarrow> nul_free xs \<Longrightarrow>
     log_inv (write_log xs st) \<and> log_text (write_log xs st) = log_text st @ xs"
proof (induction xs arbitrary: st)
  case Nil
  then show ?case by (simp add: write_log_def)
next
  case (Cons c xs)
  then show ?case
    using write_log_ch_text [of st c] by (simp add: write_log_def)
qed


section \<open>Properties\<close>

text \<open>
  \<open>rl_format_msg\<close> stores the text of the message cut to the buffer, always
  terminated, returns its length and leaves every byte outside the buffer alone.
\<close>

theorem format_msg_bounded:
  assumes "0 < n" and "format_text plat fmt args = Some out" and "nul_free out"
  shows "\<exists>m' r. rl_format_msg plat m buf n fmt args = Some (m', r) \<and>
           str_at m' buf (take (n - 1) out) \<and> r = length (take (n - 1) out) \<and> r < n \<and>
           (\<forall>i. i < buf \<or> buf + n \<le> i \<longrightarrow> m' i = m i)"
  using assms
  by (auto simp: rl_format_msg_eq str_at_mwrite min_def mem_simps)

theorem format_msg_bounded_witness:
  "\<exists>m' r. rl_format_msg Posix (\<lambda>_. 255) 10 4 (lit ''ab%s'') [AStr (lit ''cd'')] = Some (m', r) \<and>
     str_at m' 10 (lit ''abc'') \<and> r = 3"
proof -
  have t: "format_text Posix (lit ''ab%s'') [AStr (lit ''cd'')] = Some (lit ''abcd'')"
    using format_text_s [of "lit ''ab''" "lit ''cd''" Posix "[]" "[]"]
    by (simp add: is_percent_def format_text_literal)
  show ?thesis
    using format_msg_bounded [OF _ t, of 4 "\<lambda>_. 255" 10] by auto
qed

text \<open>
  A number printed by \<^verbatim>\<open>%d\<close>, anywhere in a message, reads back as the same number;
  on the Amiga, where \<^verbatim>\<open>ssize_t\<close> has 32 bits, the least \<^verbatim>\<open>int\<close> is the one exception.
\<close>

theorem format_int_roundtrip:
  assumes "list_all (\<lambda>c. \<not> is_percent c) pre" and "list_all (\<lambda>c. \<not> is_percent c) post"
    and "plat = Posix \<or> sint w \<noteq> - (2 ^ 31)"
  shows "\<exists>t. format_text plat (pre @ lit ''%d'' @ post) [AInt w] = Some (pre @ t @ post) \<and>
           signed_value t = sint w \<and> length t \<le> 11"
  using format_text_d [OF assms(1,3), of post "[]"] format_text_literal [OF assms(2)]
    signed_text_length [OF sint32_bounds] signed_text_value
  by auto

theorem format_int_roundtrip_witness:
  "\<exists>t. format_text Amiga (lit ''V%d'') [AInt (- 7)] = Some (lit ''V'' @ t) \<and> signed_value t = - 7"
  using format_int_roundtrip [of "lit ''V''" "[]" Amiga "- 7"] by (auto simp: is_percent_def)

text \<open>
  Claim C39: \<^verbatim>\<open>%b\<close> writes out of bounds for negative numbers on a 64-bit host. The number is widened to
  \<^verbatim>\<open>size_t\<close> with its sign, so a negative one has 64 binary digits there, one more than the conversion buffer
  holds before its terminator: the last store is at \<^verbatim>\<open>buffer[-1]\<close>. For every number that is not negative,
  and for every number on the Amiga, the conversion succeeds, and its text is the binary numeral
  of the 32-bit pattern.
\<close>

theorem format_binary_overruns:
  "case format_text plat (lit ''%b'') [AInt w] of
     None \<Rightarrow> plat = Posix \<and> sint w < 0
   | Some ds \<Rightarrow> (plat = Amiga \<or> 0 \<le> sint w) \<and> digits_value 2 ds = unat w \<and> length ds \<le> 32"
proof -
  have p: "parse_spec (lit ''b'') = (False, 32, 0, [98])" by (simp add: parse_spec_def rl_isdigit_def)
  define ds where "ds = fmt_digits 2 (size_of_int plat w) []"
  have conv: "format_conv plat 98 False 0 32 [AInt w] collect_writer [] = (if length ds \<le> 63 then Some ([], ds) else None)"
    by (simp add: format_conv_def format_integer_unsigned_eq Let_def format_string_plain ds_def)
  have t: "format_text plat (lit ''%b'') [AInt w] = (if length ds \<le> 63 then Some ds else None)"
    using p conv format_text_step [of "[]" "lit ''b''" False 32 0 98 "[]" plat "[AInt w]" "[]" ds]
      format_text_none [of "[]" "lit ''b''" False 32 0 98 "[]" plat "[AInt w]"]
    by (simp add: format_text_literal)
  show ?thesis
  proof (cases "plat = Posix \<and> sint w < 0")
    case True
    have "sint w mod 2 ^ 64 = (sint w + 2 ^ 64) mod 2 ^ 64" by simp
    also have "\<dots> = sint w + 2 ^ 64" using True sint32_bounds [of w] by (intro mod_pos_pos_trivial) simp_all
    finally have "int (size_of_int plat w) = sint w + 2 ^ 64" using True sint32_bounds [of w] by (simp add: size_of_int_def)
    then have "int (2 ^ 63) \<le> int (size_of_int plat w)" using sint32_bounds [of w] by simp
    then have "(2 :: nat) ^ 63 \<le> size_of_int plat w" unfolding of_nat_le_iff .
    then have "63 < length ds" using fmt_digits_long [of 2 63 "size_of_int plat w" "[]"] by (simp add: ds_def)
    then show ?thesis using t True by simp
  next
    case False
    have u: "size_of_int plat w = unat w"
    proof (cases plat)
      case Posix
      have "take_bit 32 (sint w) = sint w" using Posix False sint32_bounds [of w] by (intro take_bit_int_eq_self) simp_all
      then have "uint w = sint w" by (simp add: uint_sint)
      then show ?thesis using Posix False sint32_bounds [of w] by (simp add: size_of_int_def unat_eq_nat_uint)
    next
      case Amiga
      have "uint w = sint w mod 2 ^ 32" by (simp add: uint_sint take_bit_eq_mod)
      then show ?thesis using Amiga by (simp add: size_of_int_def unat_eq_nat_uint)
    qed
    have "unat w < 2 ^ 32" using unsigned_less [of w, where ?'a = nat] by simp
    then have "length ds \<le> 32" using fmt_digits_length [of "unat w" 2 32 "[]"] u by (simp add: ds_def)
    moreover have "digits_value 2 ds = unat w" using fmt_digits_value [of 2 "unat w"] u by (simp add: ds_def)
    ultimately show ?thesis using t False by (cases plat) auto
  qed
qed

text \<open>
  \<open>rl_log_message\<close> brings out everything logged so far followed by the text of the
  message and a newline, whatever was buffered before and however long the message is.
\<close>

theorem log_message_flushed:
  assumes "log_inv st" and "format_text plat fmt args = Some out" and "nul_free out"
  shows "\<exists>st'. rl_log_message plat fmt args st = Some st' \<and> log_inv st' \<and>
           log_out st' = log_text st @ out @ [10]"
proof -
  let ?st = "write_log out st"
  have w: "log_inv ?st" "log_text ?st = log_text st @ out"
    using write_log_text [OF assms(1,3)] by auto
  have n: "log_inv (write_log_ch ?st 10)" "log_text (write_log_ch ?st 10) = log_text ?st @ [10]"
    "log_cursor (write_log_ch ?st 10) = 0"
    using write_log_ch_text [OF w(1), of 10] by auto
  have "rl_log_message plat fmt args st = Some (write_log_ch ?st 10)"
    using assms(2) log_writer.format_message_text [of plat fmt args st]
    by (simp add: rl_log_message_def write_log_def)
  with n w show ?thesis
    by (simp add: log_text_def)
qed

theorem log_message_flushed_witness:
  "\<exists>st'. rl_log_message Posix (lit ''hi'') [] \<lparr>log_buffer = (\<lambda>_. 65), log_cursor = 1, log_out = []\<rparr> =
           Some st' \<and> log_out st' = lit ''Ahi'' @ [10]"
proof -
  let ?st = "\<lparr>log_buffer = (\<lambda>_. 65), log_cursor = 1, log_out = []\<rparr> :: log_state"
  have i: "log_inv ?st"
    by (simp add: log_inv_def log_max_def mread_Suc)
  have t: "format_text Posix (lit ''hi'') [] = Some (lit ''hi'')"
    by code_simp
  show ?thesis
    using log_message_flushed [OF i t] by (auto simp: log_text_def mread_Suc)
qed

end
