(* ===== verification/Rl_Peer.thy ===== *)
theory Rl_Peer
  imports Rl_Transport Rl_Messages Rl_Format
begin

unbundle bit_operations_syntax

text \<open>
  The peer (\<^verbatim>\<open>src/src/peer.c\<close>, \<^verbatim>\<open>src/src/peer.h\<close>): one end of a connection. It is a state machine
  that is driven by a table of actions, encodes messages into the output queue of its
  transport, decodes the messages the transport delivers, answers pings and sends its own.

  The record \<open>peer\<close> extends \<open>rl_transport\<close>; the owner's data (\<^verbatim>\<open>userdata\<close>) is a further
  extension, so that the callbacks \<open>on_message\<close> and \<open>on_connected\<close> are functions on the extended
  record. What the code asks the machine for (byte order, \<^verbatim>\<open>uname\<close>, the clock) is a record
  \<open>host\<close>. As in \<open>Rl_Transport\<close>, a result \<open>None\<close> is an access to memory that is not allocated, or a
  call that does not return.

  The calls between the actions form a cycle in the C code (\<open>invoke_action\<close> calls a handler,
  which may call \<open>invoke_action\<close>). The cycle is cut at depth two, and \<open>invoke_action_unfold\<close>
  shows that the cut function satisfies the recursion equation of the code.

  Log output is left out.
\<close>

section \<open>The machine\<close>

record utsname =
  un_sysname :: cstring
  un_nodename :: cstring
  un_release :: cstring
  un_version :: cstring
  un_machine :: cstring

text \<open>
  \<open>host_uname\<close> is the result of \<^verbatim>\<open>uname\<close>, or \<open>None\<close> when it fails; \<open>host_garbage\<close> is what a read
  through the pointer \<open>platform_name\<close> finds when nothing was stored there;
  \<open>host_lib_version\<close> is the Kickstart version.
\<close>

record host =
  host_be :: bool
  host_platform :: platform
  host_uname :: "utsname option"
  host_garbage :: cstring
  host_lib_version :: rl_uint32
  host_inet_ntoa :: "rl_uint32 \<Rightarrow> cstring"
  host_now :: int

definition RLAUNCH_VER_MAJOR :: rl_uint8 where "RLAUNCH_VER_MAJOR = 1"
definition RLAUNCH_VER_MINOR :: rl_uint8 where "RLAUNCH_VER_MINOR = 0"

text \<open>The string that \<open>rl_format_msg\<close> leaves in a local buffer of \<open>n\<close> bytes.\<close>

definition formatted :: "platform \<Rightarrow> nat \<Rightarrow> cstring \<Rightarrow> fmt_arg list \<Rightarrow> cstring option" where
  "formatted plat n fmt args =
     map_option (\<lambda>(m, len). mread m 0 len) (rl_format_msg plat (\<lambda>_. 0) 0 n fmt args)"

section \<open>States and actions\<close>

datatype peer_state =
    PEER_INITIAL
  | PEER_WAIT_HANDSHAKE
  | PEER_CONNECTED
  | PEER_ERROR
  | PEER_DISCONNECTED

datatype peer_init_mode = PEER_INIT_CONTROLLER | PEER_INIT_TARGET

datatype peer_action =
    PEER_ACTION_RECEIVE_MESSAGE
  | PEER_ACTION_TRANSMIT_MESSAGE
  | PEER_ACTION_RECEIVE_HANDSHAKE
  | PEER_ACTION_TRANSMIT_HANDSHAKE
  | PEER_ACTION_DISCONNECT
  | PEER_ACTION_UPDATE

record peer = rl_transport +
  peer_state :: peer_state
  fd_open :: bool
  ident :: cstring
  peer_index :: int
  update_result :: int
  init_mode :: peer_init_mode
  last_activity :: int
  ping_on_wire :: bool

record 'p peer_callbacks =
  on_message :: "'p \<Rightarrow> rl_msg \<Rightarrow> (int \<times> 'p) option"
  on_connected :: "'p \<Rightarrow> (int \<times> 'p) option"

definition RL_PING_TIMEOUT :: int where "RL_PING_TIMEOUT = 30"
definition PEER_STATUS_NEED_OUTPUT :: int where "PEER_STATUS_NEED_OUTPUT = push_bit 0 1"
definition PEER_STATUS_REMOVE_ME :: int where "PEER_STATUS_REMOVE_ME = push_bit 1 1"

text \<open>The names in the table of handlers.\<close>

datatype peer_action_fn =
    Fn_on_transmit_handshake
  | Fn_on_receive_handshake
  | Fn_on_transmit_message
  | Fn_on_receive_message
  | Fn_on_disconnect
  | Fn_action_nop
  | Fn_on_update_connected

fun state_actions :: "peer_state \<Rightarrow> peer_action \<Rightarrow> peer_action_fn option" where
  "state_actions PEER_INITIAL a =
     (case a of
        PEER_ACTION_TRANSMIT_HANDSHAKE \<Rightarrow> Some Fn_on_transmit_handshake
      | PEER_ACTION_UPDATE \<Rightarrow> Some Fn_action_nop
      | _ \<Rightarrow> None)"
| "state_actions PEER_WAIT_HANDSHAKE a =
     (case a of
        PEER_ACTION_RECEIVE_HANDSHAKE \<Rightarrow> Some Fn_on_receive_handshake
      | PEER_ACTION_TRANSMIT_HANDSHAKE \<Rightarrow> Some Fn_on_transmit_handshake
      | PEER_ACTION_DISCONNECT \<Rightarrow> Some Fn_on_disconnect
      | PEER_ACTION_UPDATE \<Rightarrow> Some Fn_action_nop
      | _ \<Rightarrow> None)"
| "state_actions PEER_CONNECTED a =
     (case a of
        PEER_ACTION_RECEIVE_MESSAGE \<Rightarrow> Some Fn_on_receive_message
      | PEER_ACTION_TRANSMIT_MESSAGE \<Rightarrow> Some Fn_on_transmit_message
      | PEER_ACTION_DISCONNECT \<Rightarrow> Some Fn_on_disconnect
      | PEER_ACTION_UPDATE \<Rightarrow> Some Fn_on_update_connected
      | _ \<Rightarrow> None)"
| "state_actions PEER_ERROR a =
     (case a of
        PEER_ACTION_DISCONNECT \<Rightarrow> Some Fn_on_disconnect
      | PEER_ACTION_UPDATE \<Rightarrow> Some Fn_action_nop
      | _ \<Rightarrow> None)"
| "state_actions PEER_DISCONNECTED a =
     (case a of
        PEER_ACTION_DISCONNECT \<Rightarrow> Some Fn_action_nop
      | PEER_ACTION_UPDATE \<Rightarrow> Some Fn_action_nop
      | _ \<Rightarrow> None)"

section \<open>The handlers\<close>

definition peer_set_state ::
  "'a peer_scheme peer_callbacks \<Rightarrow> 'a peer_scheme \<Rightarrow> peer_state \<Rightarrow> 'a peer_scheme option" where
  "peer_set_state cb self new_state =
     (if peer_state self \<noteq> new_state
      then
        let self = self\<lparr>peer_state := new_state\<rparr>
        in if new_state = PEER_CONNECTED then map_option snd (on_connected cb self)
           else Some self
      else Some self)"

definition enqueue_output_message ::
  "host \<Rightarrow> 'a peer_scheme \<Rightarrow> rl_msg \<Rightarrow> (int \<times> 'a peer_scheme) option" where
  "enqueue_output_message host peer msg = do {
     (buf, peer) \<leftarrow> rl_transport_alloc_buffer peer;
     if buf = None then Some (- 1, peer)
     else do {
       b \<leftarrow> deref (heap peer) buf;
       (case rl_encode_msg (host_be host) msg (buffer b) 0 (int (buffer_size b)) of
          None \<Rightarrow> do {
            peer \<leftarrow> rl_transport_free_buffer peer buf;
            Some (- 1, peer)
          }
        | Some (m, used) \<Rightarrow> do {
            h \<leftarrow> store (heap peer) buf (\<lambda>b. b\<lparr>buffer := m, used_size := used\<rparr>);
            (rc, peer) \<leftarrow> rl_transport_add_output_message (peer\<lparr>heap := h\<rparr>) buf;
            if rc \<noteq> 0
            then do {
              peer \<leftarrow> rl_transport_free_buffer peer buf;
              Some (- 1, peer)
            }
            else Some (0, peer)
          })
     }
   }"

text \<open>
  The message \<open>on_transmit_handshake\<close> builds: the platform, node and version it reports in the Amiga and
  in the POSIX build (the Windows build is left out), and the whole request.
\<close>

definition amiga_strings :: "host \<Rightarrow> (cstring \<times> cstring \<times> cstring) option" where
  "amiga_strings host = do {
     v \<leftarrow> formatted Amiga 128 (lit ''Kickstart V%d'') [AInt (host_lib_version host)];
     Some (lit ''AmigaOS'', lit ''unknown'', v)
   }"

definition posix_strings :: "host \<Rightarrow> (cstring \<times> cstring \<times> cstring) option" where
  "posix_strings host =
     (case host_uname host of
        Some u \<Rightarrow> do {
          v \<leftarrow> formatted Posix 128 (lit ''%s %s (%s)'')
                 [AStr (un_version u), AStr (un_release u), AStr (un_machine u)];
          Some (un_sysname u, un_nodename u, v)
        }
      | None \<Rightarrow> Some (host_garbage host, lit ''unknown'', lit ''unknown''))"

definition handshake_msg :: "host \<Rightarrow> rl_msg option" where
  "handshake_msg host = do {
     (platform_name, node_name, platform_version) \<leftarrow>
       (case host_platform host of Amiga \<Rightarrow> amiga_strings host | Posix \<Rightarrow> posix_strings host);
     Some (RL_MSG_INIT (Handshake_request RLAUNCH_VER_MAJOR RLAUNCH_VER_MINOR node_name
                          platform_name platform_version (lit ''****'')))
   }"

lemmas handshake_defs = handshake_msg_def amiga_strings_def posix_strings_def

definition on_transmit_handshake ::
  "host \<Rightarrow> 'a peer_scheme peer_callbacks \<Rightarrow> 'a peer_scheme \<Rightarrow> 'a peer_scheme option" where
  "on_transmit_handshake host cb self = do {
     msg \<leftarrow> handshake_msg host;
     (rc, self) \<leftarrow> enqueue_output_message host self msg;
     peer_set_state cb self (if rc \<noteq> 0 then PEER_ERROR else PEER_WAIT_HANDSHAKE)
   }"

text \<open>
  \<open>on_receive_handshake\<close> reads the fields of a handshake request; it is only invoked with one.
  \<open>invoke\<close> is the nested call of \<open>invoke_action\<close>.
\<close>

type_synonym 'p invoker = "'p \<Rightarrow> peer_action \<Rightarrow> rl_msg option \<Rightarrow> 'p option"

definition on_receive_handshake ::
  "'a peer_scheme invoker \<Rightarrow> 'a peer_scheme peer_callbacks \<Rightarrow> 'a peer_scheme \<Rightarrow> rl_msg option \<Rightarrow>
     'a peer_scheme option" where
  "on_receive_handshake invoke cb self param =
     (case map_option body param of
        Some (Handshake_request version_major version_minor _ _ _ _) \<Rightarrow>
          if version_major = RLAUNCH_VER_MAJOR \<and> version_major = RLAUNCH_VER_MAJOR
          then do {
            self \<leftarrow> (if init_mode self = PEER_INIT_TARGET
                     then invoke self PEER_ACTION_TRANSMIT_HANDSHAKE None
                     else Some self);
            peer_set_state cb self PEER_CONNECTED
          }
          else peer_set_state cb self PEER_ERROR
      | _ \<Rightarrow> None)"

definition on_transmit_message ::
  "host \<Rightarrow> 'a peer_scheme peer_callbacks \<Rightarrow> 'a peer_scheme \<Rightarrow> rl_msg option \<Rightarrow> 'a peer_scheme option" where
  "on_transmit_message host cb self param = do {
     msg \<leftarrow> param;
     (rc, self) \<leftarrow> enqueue_output_message host self msg;
     if rc \<noteq> 0 then peer_set_state cb self PEER_ERROR else Some self
   }"

definition on_receive_message ::
  "host \<Rightarrow> 'a peer_scheme invoker \<Rightarrow> 'a peer_scheme peer_callbacks \<Rightarrow> 'a peer_scheme \<Rightarrow>
     rl_msg option \<Rightarrow> 'a peer_scheme option" where
  "on_receive_message host invoke cb self param = do {
     msg \<leftarrow> param;
     let self = self\<lparr>last_activity := host_now host\<rparr>;
     (case body msg of
        Ping_request \<Rightarrow>
          invoke self PEER_ACTION_TRANSMIT_MESSAGE
            (Some ((RL_MSG_INIT Ping_answer)\<lparr>hdr_seq := hdr_seq msg\<rparr>))
      | Ping_answer \<Rightarrow> Some (self\<lparr>ping_on_wire := False\<rparr>)
      | _ \<Rightarrow> do {
          (rc, self) \<leftarrow> on_message cb self msg;
          if rc \<noteq> 0 then peer_set_state cb self PEER_ERROR else Some self
        })
   }"

definition on_disconnect ::
  "'a peer_scheme peer_callbacks \<Rightarrow> 'a peer_scheme \<Rightarrow> 'a peer_scheme option" where
  "on_disconnect cb self = peer_set_state cb self PEER_DISCONNECTED"

definition on_update_connected ::
  "host \<Rightarrow> 'a peer_scheme invoker \<Rightarrow> 'a peer_scheme peer_callbacks \<Rightarrow> 'a peer_scheme \<Rightarrow>
     'a peer_scheme option" where
  "on_update_connected host invoke cb self =
     (let time_diff = host_now host - last_activity self;
          threshold = (if init_mode self = PEER_INIT_TARGET then RL_PING_TIMEOUT
                       else RL_PING_TIMEOUT + 1)
      in if time_diff > threshold \<and> \<not> ping_on_wire self
         then do {
           self \<leftarrow> invoke self PEER_ACTION_TRANSMIT_MESSAGE (Some (RL_MSG_INIT Ping_request));
           Some (self\<lparr>ping_on_wire := True\<rparr>)
         }
         else if ping_on_wire self \<and> time_diff > push_bit 1 threshold
         then peer_set_state cb self PEER_ERROR
         else Some self)"

text \<open>One level of \<open>invoke_action\<close>, over the nested calls.\<close>

definition dispatch ::
  "host \<Rightarrow> 'a peer_scheme peer_callbacks \<Rightarrow> 'a peer_scheme invoker \<Rightarrow> 'a peer_scheme invoker" where
  "dispatch host cb invoke peer action arg =
     (case state_actions (peer_state peer) action of
        Some fn \<Rightarrow>
          (case fn of
             Fn_on_transmit_handshake \<Rightarrow> on_transmit_handshake host cb peer
           | Fn_on_receive_handshake \<Rightarrow> on_receive_handshake invoke cb peer arg
           | Fn_on_transmit_message \<Rightarrow> on_transmit_message host cb peer arg
           | Fn_on_receive_message \<Rightarrow> on_receive_message host invoke cb peer arg
           | Fn_on_disconnect \<Rightarrow> on_disconnect cb peer
           | Fn_action_nop \<Rightarrow> Some peer
           | Fn_on_update_connected \<Rightarrow> on_update_connected host invoke cb peer)
      | None \<Rightarrow> peer_set_state cb peer PEER_ERROR)"

definition invoke_action ::
  "host \<Rightarrow> 'a peer_scheme peer_callbacks \<Rightarrow> 'a peer_scheme invoker" where
  "invoke_action host cb = dispatch host cb (dispatch host cb (\<lambda>_ _ _. None))"

text \<open>
  Sending never reaches a callback (\<open>transmit_no_callback\<close>): the owner's callbacks themselves
  call it, so it is defined without them.
\<close>

definition no_callbacks :: "'p peer_callbacks" where
  "no_callbacks = \<lparr>on_message = (\<lambda>_ _. None), on_connected = (\<lambda>_. None)\<rparr>"

definition peer_transmit_message ::
  "host \<Rightarrow> 'a peer_scheme \<Rightarrow> rl_msg \<Rightarrow> (int \<times> 'a peer_scheme) option" where
  "peer_transmit_message host self msg =
     map_option (Pair 0) (invoke_action host no_callbacks self PEER_ACTION_TRANSMIT_MESSAGE (Some msg))"

section \<open>The transport callbacks\<close>

definition peer_peek_incoming :: "mem \<Rightarrow> nat \<Rightarrow> nat \<Rightarrow> int" where
  "peer_peek_incoming buf c len =
     (if len < 4 then 4
      else uint (push_bit 8 (ucast (buf (c + 2)) :: rl_uint16) OR ucast (buf (c + 3))))"

definition peer_deliver_incoming ::
  "host \<Rightarrow> 'a peer_scheme peer_callbacks \<Rightarrow> 'a peer_scheme \<Rightarrow> nat \<Rightarrow> nat \<Rightarrow>
     (int \<times> 'a peer_scheme) option" where
  "peer_deliver_incoming host cb peer buf len =
     (case rl_decode_msg (host_be host) (io_mem (inbuf peer)) buf (int len) of
        None \<Rightarrow> Some (1, peer)
      | Some msg \<Rightarrow>
          map_option (Pair 0)
            (invoke_action host cb peer
               (if rl_msg_kind_of msg = 3 then PEER_ACTION_RECEIVE_HANDSHAKE
                else PEER_ACTION_RECEIVE_MESSAGE) (Some msg)))"

section \<open>The operations of a peer\<close>

text \<open>
  The address is \<open>Some (s_addr, sin_port)\<close> for \<^verbatim>\<open>AF_INET\<close>; \<open>peer_count\<close> is the static counter.
\<close>

definition peer_ident :: "host \<Rightarrow> (rl_uint32 \<times> rl_uint16) option \<Rightarrow> cstring option" where
  "peer_ident host address =
     (case address of
        Some (s_addr, sin_port) \<Rightarrow> do {
          addr_buffer \<leftarrow>
            (case host_platform host of
               Amiga \<Rightarrow>
                 formatted Amiga 64 (lit ''%d.%d.%d.%d'')
                   [AInt (drop_bit 24 s_addr AND 0xff), AInt (drop_bit 16 s_addr AND 0xff),
                    AInt (drop_bit 8 s_addr AND 0xff), AInt (s_addr AND 0xff)]
             | Posix \<Rightarrow> formatted Posix 64 (lit ''%s'') [AStr (host_inet_ntoa host s_addr)]);
          formatted (host_platform host) 32 (lit ''%s:%d'') [AStr addr_buffer, AInt (ucast sin_port)]
        }
      | None \<Rightarrow> formatted (host_platform host) 32 (lit ''<non-tcp/ip address>'') [])"

definition peer_init ::
  "host \<Rightarrow> 'a peer_scheme peer_callbacks \<Rightarrow> 'a peer_scheme \<Rightarrow> (rl_uint32 \<times> rl_uint16) option \<Rightarrow>
     peer_init_mode \<Rightarrow> int \<Rightarrow> (int \<times> 'a peer_scheme \<times> int) option" where
  "peer_init host cb self address mode peer_count = do {
     let self = self\<lparr>peer_state := PEER_INITIAL, fd_open := True, update_result := 0,
                     init_mode := mode, ping_on_wire := False, last_activity := host_now host\<rparr>;
     (rc, self) \<leftarrow> rl_transport_init self 32768;
     if rc \<noteq> 0 then Some (1, self, peer_count)
     else do {
       name \<leftarrow> peer_ident host address;
       let self = self\<lparr>ident := name\<rparr>;
       self \<leftarrow> (if mode = PEER_INIT_CONTROLLER
                then invoke_action host cb self PEER_ACTION_TRANSMIT_HANDSHAKE None
                else peer_set_state cb self PEER_WAIT_HANDSHAKE);
       Some (0, self\<lparr>peer_index := peer_count mod 10\<rparr>, peer_count + 1)
     }
   }"

definition peer_destroy :: "'a peer_scheme \<Rightarrow> 'a peer_scheme option" where
  "peer_destroy self = rl_transport_destroy (self\<lparr>fd_open := False\<rparr>)"

definition peer_update ::
  "host \<Rightarrow> 'a peer_scheme peer_callbacks \<Rightarrow> 'a peer_scheme \<Rightarrow> bool \<Rightarrow> bool \<Rightarrow>
     (int \<times> 'a peer_scheme) option" where
  "peer_update host cb self can_read can_write = do {
     let self = (if can_read then rl_transport_on_input_arrived self else self);
     self \<leftarrow> (if can_write then rl_transport_on_output_possible self else Some self);
     (transport_status, self) \<leftarrow>
       rl_transport_update peer_peek_incoming (peer_deliver_incoming host cb) self;
     self \<leftarrow> (if RL_TRANSPORT_ERROR AND transport_status \<noteq> 0
              then invoke_action host cb self PEER_ACTION_DISCONNECT None else Some self);
     self \<leftarrow> (if RL_TRANSPORT_DISCONNECTED AND transport_status \<noteq> 0
              then invoke_action host cb self PEER_ACTION_DISCONNECT None else Some self);
     self \<leftarrow> invoke_action host cb self PEER_ACTION_UPDATE None;
     self \<leftarrow> rl_transport_on_output_possible self;
     let result =
       (if peer_state self = PEER_ERROR \<or> peer_state self = PEER_DISCONNECTED
        then PEER_STATUS_REMOVE_ME
        else if RL_TRANSPORT_NEED_OUTPUT AND transport_status \<noteq> 0 then PEER_STATUS_NEED_OUTPUT
        else 0);
     Some (result, self\<lparr>update_result := result\<rparr>)
   }"

section \<open>The output of a peer as a stream\<close>

text \<open>The addresses of the queue, found by following the links, and the whole output: sent and waiting.\<close>

fun follow :: "nat \<Rightarrow> buf_heap \<Rightarrow> nat option \<Rightarrow> nat list" where
  "follow 0 h p = []"
| "follow (Suc n) h p =
     (case p of
        None \<Rightarrow> []
      | Some a \<Rightarrow> (case deref h p of None \<Rightarrow> [] | Some b \<Rightarrow> a # follow n h (next_buf b)))"

definition queue_of :: "'a rl_transport_scheme \<Rightarrow> nat list" where
  "queue_of t = follow (length (cells (heap t))) (heap t) (out_queue t)"

definition out_text :: "'a rl_transport_scheme \<Rightarrow> rl_uint8 list" where
  "out_text t = sk_sent (sock t) @ pend t (queue_of t)"

lemma follow_chain: "chain (cell h) p as \<Longrightarrow> length as \<le> n \<Longrightarrow> follow n h p = as"
proof (induction as arbitrary: p n)
  case Nil
  then show ?case by (cases n) simp_all
next
  case (Cons a as)
  then show ?case by (cases n) (auto split: option.splits)
qed

lemma chain_bound:
  assumes "chain (cell h) p as" and "distinct as"
  shows "length as \<le> length (cells h)"
proof -
  have "set as \<subseteq> {..<length (cells h)}"
    using chain_allocated [OF assms(1)] by (fastforce simp: cell_lookup split: if_splits)
  then have "card (set as) \<le> length (cells h)"
    using card_mono [of "{..<length (cells h)}"] by fastforce
  then show ?thesis using distinct_card [OF assms(2)] by simp
qed

lemma tinv_queue: "tinv t qs fs hs \<Longrightarrow> queue_of t = qs"
  by (auto simp: queue_of_def tinv_def intro!: follow_chain chain_bound)

lemma tinv_out_text: "tinv t qs fs hs \<Longrightarrow> out_text t = sk_sent (sock t) @ pend t qs"
  by (simp add: out_text_def tinv_queue)

definition transport_ok :: "'a rl_transport_scheme \<Rightarrow> bool" where
  "transport_ok t = (\<exists>qs fs. tinv t qs fs [])"

text \<open>What an operation that only queues output leaves alone.\<close>

definition queued :: "'a rl_transport_scheme \<Rightarrow> 'a rl_transport_scheme \<Rightarrow> bool" where
  "queued t t' \<longleftrightarrow>
     inbuf t' = inbuf t \<and> sock t' = sock t \<and> t_error t' = t_error t \<and> disconnect t' = disconnect t \<and>
     rl_transport.more t' = rl_transport.more t"

text \<open>Messages whose arrays are below 2 GB. Strings need no condition: long ones are refused.\<close>

definition arrays_ok :: "rl_body \<Rightarrow> bool" where
  "arrays_ok b = list_all (\<lambda>(n, v). case v of FArr a \<Rightarrow> valid_array a | _ \<Rightarrow> True) (body_fields b)"

lemma arrays_ok_farr: "arrays_ok (body msg) \<Longrightarrow> valid_array (farr (src_of msg) n)"
  by (cases "body msg") (auto simp: arrays_ok_def farr_def msg_fields_def valid_array_def)

lemma valid_body_arrays: "valid_body b \<Longrightarrow> arrays_ok b"
  by (auto simp: valid_body_def arrays_ok_def list_all_iff split: fval.splits)

lemma encode_var_shrinks:
  "(\<And>n. valid_array (farr src n)) \<Longrightarrow> encode_var be src fs (m, c, sz) = Some (m', c', sz') \<Longrightarrow> sz' \<le> sz"
proof (induction fs arbitrary: m c sz)
  case Nil
  then show ?case by simp
next
  case (Cons f fs)
  obtain n t where f: "f = (n, t)" by (cases f)
  obtain m1 c1 sz1 where s: "(if t = NT_array then rl_encode_array be m (c, sz) (farr src n)
      else rl_encode_string m (c, sz) (fstr src n)) = Some (m1, c1, sz1)"
    "encode_var be src fs (m1, c1, sz1) = Some (m', c', sz')"
    using Cons.prems f by (auto split: option.splits)
  then have "sz1 \<le> sz"
    using Cons.prems(1) [of n]
    by (auto simp: rl_encode_array_def rl_encode_string_def Let_def array_length_word valid_array_def to_int32_id
        split: if_splits prod.splits)
  with Cons.IH [OF Cons.prems(1) s(2)] show ?case by simp
qed

lemma encode_used:
  assumes "rl_encode_msg be msg m c sz = Some (m', n)" and "arrays_ok (body msg)"
  shows "0 < n"
proof -
  let ?M = "messages ! rl_msg_kind_of msg"
  have "8 \<le> fixed_size ?M"
    by (simp add: rl_msg_kind_of_def message_of_kind)
  moreover obtain m1 c1 l1 m2 c2 sz2 where "encode_fixed be (src_of msg) (fixed_fields ?M) (m, c, 0) = (m1, c1, l1)"
    "encode_var be (src_of msg) (var_fields ?M) (m1, c1, sz - int (fixed_size ?M)) = Some (m2, c2, sz2)"
    "n = nat (sz - sz2)"
    using assms(1) by (auto simp: rl_encode_msg_def encode_message_def Let_def split: prod.splits option.splits)
  ultimately show ?thesis
    using encode_var_shrinks [OF arrays_ok_farr [OF assms(2)]] by fastforce
qed

lemma add_encoded:
  fixes p :: "'a rl_transport_scheme"
  assumes "tinv p qs fs [a]" and "cell (heap p) a = Some b" and "next_buf b = None" and "0 < n"
  shows "\<exists>h p'. store (heap p) (Some a) (\<lambda>b. b\<lparr>buffer := m, used_size := n\<rparr>) = Some h \<and>
           rl_transport_add_output_message (p\<lparr>heap := h\<rparr>) (Some a) = Some (0, p') \<and>
           tinv p' (qs @ [a]) fs [] \<and> queued p p' \<and> pend p' (qs @ [a]) = pend p qs @ mread m 0 n"
proof -
  let ?b = "b\<lparr>buffer := m, used_size := n\<rparr>"
  obtain h where h: "store (heap p) (Some a) (\<lambda>b. b\<lparr>buffer := m, used_size := n\<rparr>) = Some h"
    "cell h = (cell (heap p))(a \<mapsto> ?b)"
    using store_cell [OF assms(2)] by blast
  have na: "a \<notin> set (qs @ fs)" using assms(1) by (auto simp: tinv_def)
  have i2: "tinv (p\<lparr>heap := h\<rparr>) qs fs [a]"
    using assms(1,2) h(2) na by (auto simp: tinv_def)
  have pe: "pend (p\<lparr>heap := h\<rparr>) qs = pend p qs"
    using na h(2) by (intro pend_frame) auto
  obtain p' where f: "rl_transport_add_output_message (p\<lparr>heap := h\<rparr>) (Some a) = Some (0, p')"
    "tinv p' (qs @ [a]) fs []"
    "p' = p\<lparr>heap := h\<rparr>\<lparr>heap := heap p', out_queue := out_queue p', out_tail := out_tail p'\<rparr>"
    "pend p' (qs @ [a]) = pend (p\<lparr>heap := h\<rparr>) qs @ mread m 0 n"
    using add_output_ok [OF i2, of ?b] h(2) assms(3,4) by auto
  have "queued p p'" by (subst f(3)) (simp add: queued_def)
  then show ?thesis using h(1) f(1,2,4) pe by auto
qed

lemma queued_trans: "queued t t' \<Longrightarrow> queued t' t'' \<Longrightarrow> queued t t''"
  by (simp add: queued_def)

lemma queued_pool:
  "t' = t\<lparr>heap := h, num_free_buffers := n, next_free_buffer := f\<rparr> \<Longrightarrow> queued t t'"
  "t' = t\<lparr>heap := h\<rparr> \<Longrightarrow> queued t t'"
  by (simp_all add: queued_def)

text \<open>The result of queueing a message, in terms of the stream: all of it or nothing.\<close>

lemma enqueue_ok:
  fixes p :: "'a peer_scheme"
  assumes "transport_ok p" and "arrays_ok (body msg)"
  shows "\<exists>rc p'. enqueue_output_message host p msg = Some (rc, p') \<and> transport_ok p' \<and> queued p p' \<and>
           (rc = 0 \<and> (\<exists>m m' n. rl_encode_msg (host_be host) msg m 0 8192 = Some (m', n) \<and>
                          out_text p' = out_text p @ mread m' 0 n) \<or>
            rc = - 1 \<and> out_text p' = out_text p \<and>
              (mallocs (heap p) \<noteq> [] \<or> (\<exists>m. rl_encode_msg (host_be host) msg m 0 8192 = None)))"
proof -
  obtain qs fs where inv: "tinv p qs fs []" using assms(1) by (auto simp: transport_ok_def)
  note ot = tinv_out_text [OF inv]
  from alloc_buffer_ok [OF inv] show ?thesis
  proof (elim disjE exE conjE)
    fix p' assume a: "rl_transport_alloc_buffer p = Some (None, p')" "tinv p' qs fs []"
      "p' = p\<lparr>heap := heap p'\<rparr>" "pend p' qs = pend p qs"
    have "mallocs (heap p) \<noteq> []"
      using a(1) by (auto simp: rl_transport_alloc_buffer_def rl_alloc_sized_and_clear_def
          malloc_outcome_def Let_def split: if_splits bind_splits list.splits)
    then show ?thesis
      using a(1,2,4) ot tinv_out_text [OF a(2)] queued_pool(2) [OF a(3)]
      by (auto simp: enqueue_output_message_def transport_ok_def queued_def)
  next
    fix a p1 fs1 b
    assume a: "rl_transport_alloc_buffer p = Some (Some a, p1)" "tinv p1 qs fs1 [a]"
      "cell (heap p1) a = Some b" "next_buf b = None"
      "p1 = p\<lparr>heap := heap p1, num_free_buffers := num_free_buffers p1,
             next_free_buffer := next_free_buffer p1\<rparr>" "pend p1 qs = pend p qs"
    note q1 = queued_pool(1) [OF a(5)]
    have bs: "buffer_size b = 8192" using a(2,3) by (auto simp: tinv_def)
    show ?thesis
    proof (cases "rl_encode_msg (host_be host) msg (buffer b) 0 8192")
      case None
      obtain p' fs' where f: "rl_transport_free_buffer p1 (Some a) = Some p'" "tinv p' qs fs' []"
        "p' = p1\<lparr>heap := heap p', num_free_buffers := num_free_buffers p',
               next_free_buffer := next_free_buffer p'\<rparr>" "pend p' qs = pend p1 qs"
        using free_buffer_ok [OF a(2)] by blast
      show ?thesis
        using a(1,3,6) bs None f(1,2,4) q1 queued_pool(1) [OF f(3)] ot tinv_out_text [OF f(2)]
        by (auto simp: enqueue_output_message_def transport_ok_def queued_def)
    next
      case (Some r)
      obtain m n where r: "r = (m, n)" by (cases r)
      have "0 < n" using encode_used Some r assms(2) by blast
      from add_encoded [OF a(2-4) this, of m] obtain h p' where
        f: "store (heap p1) (Some a) (\<lambda>b. b\<lparr>buffer := m, used_size := n\<rparr>) = Some h"
          "rl_transport_add_output_message (p1\<lparr>heap := h\<rparr>) (Some a) = Some (0, p')"
          "tinv p' (qs @ [a]) fs1 []" "queued p1 p'" "pend p' (qs @ [a]) = pend p1 qs @ mread m 0 n"
        by blast
      have "out_text p' = out_text p @ mread m 0 n"
        using tinv_out_text [OF f(3)] f(4,5) a(6) ot q1 by (simp add: queued_def)
      then show ?thesis
        using a(1,3) bs Some r f(1-4) queued_trans [OF q1 f(4)]
        by (auto simp: enqueue_output_message_def transport_ok_def)
    qed
  qed
qed

lemma enqueue_wire:
  fixes p :: "'a peer_scheme"
  assumes "transport_ok p" and "valid_body (body msg)" and "msg_size msg \<le> 8192"
  shows "\<exists>rc p'. enqueue_output_message host p msg = Some (rc, p') \<and> transport_ok p' \<and> queued p p' \<and>
           (rc = 0 \<and> out_text p' = out_text p @ wire_msg msg \<or>
            rc = - 1 \<and> out_text p' = out_text p \<and> mallocs (heap p) \<noteq> [])"
proof -
  have enc: "rl_encode_msg (host_be host) msg m 0 8192 = Some (mwrite m 0 (wire_msg msg), msg_size msg)" for m
    using rl_encode_msg_wire [OF assms(2)] assms(3) by simp
  have rd: "mread (mwrite m 0 (wire_msg msg)) 0 (msg_size msg) = wire_msg msg" for m
    using mread_mwrite_same [of m 0 "wire_msg msg"] by simp
  show ?thesis
    using enqueue_ok [OF assms(1) valid_body_arrays [OF assms(2)], of host] enc rd by fastforce
qed

section \<open>The recursion of the actions\<close>

lemma set_state_quiet:
  "new_state \<noteq> PEER_CONNECTED \<Longrightarrow>
     peer_set_state cb self new_state = Some (self\<lparr>peer_state := new_state\<rparr>)"
  by (cases "peer_state self = new_state") (simp_all add: peer_set_state_def)

lemma dispatch_transmit:
  assumes "action = PEER_ACTION_TRANSMIT_MESSAGE \<or> action = PEER_ACTION_TRANSMIT_HANDSHAKE"
  shows "dispatch host cb invoke p action arg = dispatch host cb' invoke' p action arg"
  using assms
  by (cases "peer_state p")
    (auto simp: dispatch_def on_transmit_handshake_def on_transmit_message_def set_state_quiet
      intro!: Option.bind_cong split: if_splits)

lemma dispatch_nested:
  assumes "\<And>p action arg. action = PEER_ACTION_TRANSMIT_MESSAGE \<or> action = PEER_ACTION_TRANSMIT_HANDSHAKE \<Longrightarrow>
             invoke p action arg = invoke' p action arg"
  shows "dispatch host cb invoke p action arg = dispatch host cb invoke' p action arg"
  using assms
  by (auto simp: dispatch_def on_receive_handshake_def on_receive_message_def on_update_connected_def Let_def
      split: option.split peer_action_fn.split rl_body.split intro!: Option.bind_cong)

lemma invoke_action_unfold:
  "invoke_action host cb p action arg = dispatch host cb (invoke_action host cb) p action arg"
  unfolding invoke_action_def using dispatch_transmit by (rule dispatch_nested)

lemma transmit_no_callback:
  "invoke_action host cb p PEER_ACTION_TRANSMIT_MESSAGE arg =
     invoke_action host no_callbacks p PEER_ACTION_TRANSMIT_MESSAGE arg"
  unfolding invoke_action_def using dispatch_transmit by blast

text \<open>Initialising a peer does not run one either.\<close>

lemma init_no_callback: "peer_init host cb p addr mode n = peer_init host cb' p addr mode n"
proof -
  have "invoke_action host cb q PEER_ACTION_TRANSMIT_HANDSHAKE None = invoke_action host cb' q PEER_ACTION_TRANSMIT_HANDSHAKE None" for q
    unfolding invoke_action_def using dispatch_transmit by blast
  then show ?thesis unfolding peer_init_def Let_def by (simp add: set_state_quiet cong: if_cong)
qed

section \<open>The handshake message\<close>

definition host_ok :: "host \<Rightarrow> bool" where
  "host_ok host =
     (valid_string (host_garbage host) \<and>
      (\<forall>a. valid_string (host_inet_ntoa host a)) \<and>
      sint (host_lib_version host) \<noteq> - (2 ^ 31) \<and>
      (case host_uname host of
         None \<Rightarrow> True
       | Some u \<Rightarrow> list_all valid_string [un_sysname u, un_nodename u, un_release u, un_version u, un_machine u]))"

lemma formatted_eq:
  "0 < n \<Longrightarrow> format_text plat fmt args = Some out \<Longrightarrow> formatted plat n fmt args = Some (take (n - 1) out)"
proof -
  assume a: "0 < n" "format_text plat fmt args = Some out"
  have "mread (mwrite (\<lambda>_. 0) 0 (take (n - 1) out @ [0])) 0 (min (n - 1) (length out)) = take (n - 1) out"
    by (simp add: mwrite_append mem_simps min.commute)
  with a show ?thesis by (simp add: formatted_def rl_format_msg_eq)
qed

lemma uname_text:
  assumes "length v < 2 ^ 31" "length r < 2 ^ 31" "length m < 2 ^ 31"
  shows "format_text plat (lit ''%s %s (%s)'') [AStr v, AStr r, AStr m] =
           Some (v @ lit '' '' @ r @ lit '' ('' @ m @ lit '')'')"
proof -
  have "format_text plat (lit '' (%s)'') [AStr m] = Some (lit '' ('' @ m @ lit '')'')"
    using format_text_s [of "lit '' (''" m plat "lit '')''" "[]"] assms(3)
      format_text_literal [of "lit '')''" plat "[]"] by (simp add: is_percent_def)
  moreover have "format_text plat (lit '' %s (%s)'') [AStr r, AStr m] =
      map_option (\<lambda>out. lit '' '' @ r @ out) (format_text plat (lit '' (%s)'') [AStr m])"
    using format_text_s [of "lit '' ''" r plat "lit '' (%s)''" "[AStr m]"] assms(2) by (simp add: is_percent_def)
  ultimately show ?thesis
    using format_text_s [of "[]" v plat "lit '' %s (%s)''" "[AStr r, AStr m]"] assms(1) by simp
qed

lemma digits_nul_free: "base \<le> 36 \<Longrightarrow> 1 < base \<Longrightarrow> nul_free (fmt_digits base v [])"
proof -
  assume "base \<le> 36" "1 < base"
  then have "set (fmt_digits base v []) \<subseteq> set format_base_digits"
    using fmt_digits_set [of base v "[]"] by simp
  moreover have "nul_free format_base_digits" by code_simp
  ultimately show ?thesis by (auto simp: nul_free_iff)
qed

lemma signed_text_nul_free: "nul_free (signed_text i)"
  by (simp add: signed_text_def digits_nul_free)

lemma handshake_msg_ok:
  assumes "host_ok host"
  shows "\<exists>node name ver. handshake_msg host =
           Some (RL_MSG_INIT (Handshake_request 1 0 node name ver (lit ''****''))) \<and>
           valid_string node \<and> valid_string name \<and> valid_string ver"
proof (cases "host_platform host")
  case Amiga
  have l: "format_text Amiga (lit ''Kickstart V%d'') [AInt (host_lib_version host)] =
      Some (lit ''Kickstart V'' @ signed_text (sint (host_lib_version host)))"
    using format_text_d [of "lit ''Kickstart V''" Amiga "host_lib_version host" "[]" "[]"] assms
      format_text_literal [of "[]" Amiga "[]"]
    by (simp add: is_percent_def host_ok_def)
  have "valid_string (take 127 (lit ''Kickstart V'' @ signed_text (sint (host_lib_version host))))"
    unfolding valid_string_def by (simp add: signed_text_nul_free nul_free_drop)
  then show ?thesis
    using formatted_eq [OF _ l, of 128] Amiga
    by (simp add: RL_MSG_INIT_def handshake_defs RLAUNCH_VER_MAJOR_def RLAUNCH_VER_MINOR_def valid_string_def)
next
  case Posix
  show ?thesis
  proof (cases "host_uname host")
    case None
    then show ?thesis
      using Posix assms
      by (simp add: RL_MSG_INIT_def handshake_defs RLAUNCH_VER_MAJOR_def RLAUNCH_VER_MINOR_def valid_string_def host_ok_def)
  next
    case (Some u)
    let ?out = "un_version u @ lit '' '' @ un_release u @ lit '' ('' @ un_machine u @ lit '')''"
    have v: "valid_string (un_sysname u)" "valid_string (un_nodename u)" "valid_string (un_release u)"
      "valid_string (un_version u)" "valid_string (un_machine u)"
      using assms Some by (simp_all add: host_ok_def)
    have "formatted Posix 128 (lit ''%s %s (%s)'') [AStr (un_version u), AStr (un_release u), AStr (un_machine u)] =
        Some (take 127 ?out)"
      using formatted_eq [OF _ uname_text, of 128 "un_version u" "un_release u" "un_machine u" Posix] v
      by (simp add: valid_string_def)
    moreover have "nul_free (take 127 ?out)"
      using v by (intro nul_free_take) (simp add: valid_string_def)
    then have "valid_string (take 127 ?out)" unfolding valid_string_def by simp
    ultimately show ?thesis
      using Posix Some v by (simp add: RL_MSG_INIT_def handshake_defs RLAUNCH_VER_MAJOR_def RLAUNCH_VER_MINOR_def)
  qed
qed

section \<open>What an action may change\<close>

text \<open>The order of the states in the life of a connection.\<close>

fun state_rank :: "peer_state \<Rightarrow> nat" where
  "state_rank PEER_INITIAL = 0"
| "state_rank PEER_WAIT_HANDSHAKE = 1"
| "state_rank PEER_CONNECTED = 2"
| "state_rank PEER_ERROR = 3"
| "state_rank PEER_DISCONNECTED = 3"

lemma transport_ok_fields [simp]:
  "transport_ok (p\<lparr>peer_state := s\<rparr>) = transport_ok p" "out_text (p\<lparr>peer_state := s\<rparr>) = out_text p"
  "transport_ok (p\<lparr>last_activity := l\<rparr>) = transport_ok p" "out_text (p\<lparr>last_activity := l\<rparr>) = out_text p"
  "transport_ok (p\<lparr>ping_on_wire := b\<rparr>) = transport_ok p" "out_text (p\<lparr>ping_on_wire := b\<rparr>) = out_text p"
  "transport_ok (p\<lparr>update_result := r\<rparr>) = transport_ok p" "out_text (p\<lparr>update_result := r\<rparr>) = out_text p"
  "transport_ok (p\<lparr>ident := n\<rparr>) = transport_ok p" "out_text (p\<lparr>ident := n\<rparr>) = out_text p"
  "transport_ok (p\<lparr>peer_index := i\<rparr>) = transport_ok p" "out_text (p\<lparr>peer_index := i\<rparr>) = out_text p"
  for p :: "'a peer_scheme"
  by (simp_all add: transport_ok_def tinv_def out_text_def queue_of_def pend_def)

lemma transport_ok_inbuf [simp]:
  "transport_ok (t\<lparr>inbuf := b\<rparr>) = transport_ok t" "out_text (t\<lparr>inbuf := b\<rparr>) = out_text t"
  "transport_ok (t\<lparr>t_error := e\<rparr>) = transport_ok t" "out_text (t\<lparr>t_error := e\<rparr>) = out_text t"
  "transport_ok (t\<lparr>disconnect := d\<rparr>) = transport_ok t" "out_text (t\<lparr>disconnect := d\<rparr>) = out_text t"
  by (simp_all add: transport_ok_def tinv_def out_text_def queue_of_def pend_def)

lemma more_fields:
  fixes p p' :: "'a peer_scheme"
  assumes "rl_transport.more p' = rl_transport.more p"
  shows "peer_state p' = peer_state p" "fd_open p' = fd_open p" "ident p' = ident p"
    "peer_index p' = peer_index p" "update_result p' = update_result p" "init_mode p' = init_mode p"
    "last_activity p' = last_activity p" "ping_on_wire p' = ping_on_wire p" "peer.more p' = peer.more p"
  using assms by (cases p, cases p', simp)+

definition advances :: "'a peer_scheme \<Rightarrow> 'a peer_scheme \<Rightarrow> bool" where
  "advances p p' \<longleftrightarrow>
     transport_ok p' \<and> inbuf p' = inbuf p \<and> init_mode p' = init_mode p \<and>
     (\<exists>xs. out_text p' = out_text p @ xs) \<and> state_rank (peer_state p) \<le> state_rank (peer_state p')"

lemma advances_refl: "transport_ok p \<Longrightarrow> advances p p"
  by (simp add: advances_def)

lemma advances_trans: "advances p p' \<Longrightarrow> advances p' p'' \<Longrightarrow> advances p p''"
  by (auto simp: advances_def)

lemma enqueue_advances:
  fixes p :: "'a peer_scheme"
  assumes "transport_ok p" and "arrays_ok (body msg)"
  shows "\<exists>rc p'. enqueue_output_message host p msg = Some (rc, p') \<and> advances p p' \<and>
           rl_transport.more p' = rl_transport.more p"
proof -
  obtain rc p' where "enqueue_output_message host p msg = Some (rc, p')" "transport_ok p'" "queued p p'"
    "\<exists>xs. out_text p' = out_text p @ xs"
    using enqueue_ok [OF assms, of host] by auto
  then show ?thesis using more_fields [of p' p] by (simp add: advances_def queued_def)
qed


text \<open>
  The contract between a peer and its owner: the callbacks return, keep the invariant \<open>U\<close> of
  the owner's data and do to the peer only what an action may do.
\<close>

locale peer_owner =
  fixes host :: host and cb :: "'a peer_scheme peer_callbacks" and U :: "'a \<Rightarrow> bool"
  assumes host: "host_ok host"
    and message_ok: "transport_ok p \<Longrightarrow> U (peer.more p) \<Longrightarrow>
      \<exists>rc p'. on_message cb p m = Some (rc, p') \<and> advances p p' \<and> U (peer.more p')"
    and connected_ok: "transport_ok p \<Longrightarrow> U (peer.more p) \<Longrightarrow>
      \<exists>rc p'. on_connected cb p = Some (rc, p') \<and> advances p p' \<and> U (peer.more p')"
begin

text \<open>The result of an action.\<close>

definition acts :: "'a peer_scheme \<Rightarrow> 'a peer_scheme option \<Rightarrow> bool" where
  "acts p r \<longleftrightarrow> (\<exists>p'. r = Some p' \<and> advances p p' \<and> U (peer.more p'))"

lemma acts_set_state:
  assumes "advances p0 p" and "U (peer.more p)" and "state_rank (peer_state p0) \<le> state_rank s"
  shows "acts p0 (peer_set_state cb p s)"
proof (cases "s = PEER_CONNECTED \<and> peer_state p \<noteq> s")
  case True
  let ?p = "p\<lparr>peer_state := PEER_CONNECTED\<rparr>"
  obtain rc p' where "on_connected cb ?p = Some (rc, p')" "advances ?p p'" "U (peer.more p')"
    using connected_ok [of ?p] assms by (auto simp: advances_def)
  moreover have "advances p0 ?p" using assms True by (auto simp: advances_def)
  ultimately show ?thesis
    using True advances_trans by (fastforce simp: acts_def peer_set_state_def)
next
  case False
  then have "peer_set_state cb p s = Some (p\<lparr>peer_state := s\<rparr>)"
    by (cases "s = PEER_CONNECTED") (auto simp: peer_set_state_def set_state_quiet)
  then show ?thesis using assms by (auto simp: acts_def advances_def)
qed

lemma acts_transmit:
  assumes "transport_ok p" and "U (peer.more p)" and "arrays_ok (body msg)"
  shows "acts p (on_transmit_message host cb p (Some msg))"
proof -
  obtain rc p' where e: "enqueue_output_message host p msg = Some (rc, p')" "advances p p'"
    "rl_transport.more p' = rl_transport.more p"
    using enqueue_advances [OF assms(1,3)] by blast
  have "U (peer.more p')" using assms(2) more_fields(9) [OF e(3)] by simp
  moreover have "state_rank (peer_state p) \<le> state_rank PEER_ERROR" by (cases "peer_state p") simp_all
  ultimately show ?thesis
    using e acts_set_state [OF e(2)] by (auto simp: on_transmit_message_def acts_def)
qed

lemma acts_handshake:
  assumes "transport_ok p" and "U (peer.more p)" and "peer_state p = PEER_INITIAL \<or> peer_state p = PEER_WAIT_HANDSHAKE"
  shows "acts p (on_transmit_handshake host cb p)"
proof -
  obtain msg where m: "handshake_msg host = Some msg" "arrays_ok (body msg)"
    using handshake_msg_ok [OF host] by (auto simp: arrays_ok_def RL_MSG_INIT_def)
  obtain rc p' where e: "enqueue_output_message host p msg = Some (rc, p')" "advances p p'"
    "rl_transport.more p' = rl_transport.more p"
    using enqueue_advances [OF assms(1) m(2)] by blast
  have "U (peer.more p')" using assms(2) more_fields(9) [OF e(3)] by simp
  then show ?thesis
    using e m acts_set_state [OF e(2)] assms(3) by (auto simp: on_transmit_handshake_def)
qed

lemma acts_invoke_transmit:
  assumes "transport_ok p" and "U (peer.more p)" and "arrays_ok (body msg)"
  shows "acts p (invoke_action host cb p PEER_ACTION_TRANSMIT_MESSAGE (Some msg))"
proof -
  have "acts p (peer_set_state cb p PEER_ERROR)"
    using assms by (intro acts_set_state advances_refl) (cases "peer_state p"; simp)+
  then show ?thesis
    using acts_transmit [OF assms]
    by (cases "peer_state p") (simp_all add: invoke_action_def dispatch_def)
qed

lemma acts_receive_handshake:
  assumes "transport_ok p" and "U (peer.more p)" and "peer_state p = PEER_WAIT_HANDSHAKE"
    and "rl_msg_kind_of msg = 3"
  shows "acts p (on_receive_handshake (invoke_action host cb) cb p (Some msg))"
proof -
  obtain a b c d e f where b: "body msg = Handshake_request a b c d e f"
    using assms(4) by (cases "body msg") (auto simp: rl_msg_kind_of_def)
  have "acts p (invoke_action host cb p PEER_ACTION_TRANSMIT_HANDSHAKE None)"
    using acts_handshake [OF assms(1,2)] assms(3) by (simp add: invoke_action_def dispatch_def)
  then obtain p1 where p1: "invoke_action host cb p PEER_ACTION_TRANSMIT_HANDSHAKE None = Some p1"
    "advances p p1" "U (peer.more p1)"
    by (auto simp: acts_def)
  show ?thesis
    using assms b p1 acts_set_state [OF p1(2,3)] acts_set_state [OF advances_refl [OF assms(1)] assms(2)]
    by (auto simp: on_receive_handshake_def)
qed

lemma acts_receive_message:
  assumes "transport_ok p" and "U (peer.more p)" and "peer_state p = PEER_CONNECTED"
  shows "acts p (on_receive_message host (invoke_action host cb) cb p (Some msg))"
proof -
  let ?p = "p\<lparr>last_activity := host_now host\<rparr>"
  have adv: "advances p ?p" using assms(1) by (simp add: advances_def)
  have up: "acts ?p r \<Longrightarrow> acts p r" for r
    using advances_trans [OF adv] by (auto simp: acts_def)
  have ping: "acts ?p (invoke_action host cb ?p PEER_ACTION_TRANSMIT_MESSAGE
      (Some ((RL_MSG_INIT Ping_answer)\<lparr>hdr_seq := hdr_seq msg\<rparr>)))"
    using assms by (intro acts_invoke_transmit) (simp_all add: arrays_ok_def RL_MSG_INIT_def)
  obtain rc p' where m: "on_message cb ?p msg = Some (rc, p')" "advances ?p p'" "U (peer.more p')"
    using message_ok [of ?p msg] assms by auto
  have cbk: "acts ?p (do { (rc, self) \<leftarrow> on_message cb ?p msg;
      if rc \<noteq> 0 then peer_set_state cb self PEER_ERROR else Some self })"
    using m acts_set_state [OF m(2,3)] assms(3) by (auto simp: acts_def)
  have answer: "acts ?p (Some (?p\<lparr>ping_on_wire := False\<rparr>))"
    using assms by (simp add: acts_def advances_def)
  show ?thesis
    using up [OF ping] up [OF cbk] up [OF answer]
    by (simp add: on_receive_message_def Let_def split: rl_body.split)
qed

lemma acts_update:
  assumes "transport_ok p" and "U (peer.more p)" and "peer_state p = PEER_CONNECTED"
  shows "acts p (on_update_connected host (invoke_action host cb) cb p)"
proof -
  have "acts p (invoke_action host cb p PEER_ACTION_TRANSMIT_MESSAGE (Some (RL_MSG_INIT Ping_request)))"
    using assms by (intro acts_invoke_transmit) (simp_all add: arrays_ok_def RL_MSG_INIT_def)
  then obtain p1 where p1: "invoke_action host cb p PEER_ACTION_TRANSMIT_MESSAGE (Some (RL_MSG_INIT Ping_request)) = Some p1"
    "advances p p1" "U (peer.more p1)"
    by (auto simp: acts_def)
  moreover have "advances p (p1\<lparr>ping_on_wire := True\<rparr>)" using p1(2) by (simp add: advances_def)
  moreover have "acts p (peer_set_state cb p PEER_ERROR)"
    using assms by (intro acts_set_state advances_refl) simp_all
  ultimately show ?thesis
    using assms advances_refl [OF assms(1)]
    by (auto simp: on_update_connected_def Let_def acts_def)
qed

lemma acts_invoke:
  assumes "transport_ok p" and "U (peer.more p)"
    and "action = PEER_ACTION_RECEIVE_HANDSHAKE \<longrightarrow> (\<exists>msg. arg = Some msg \<and> rl_msg_kind_of msg = 3)"
    and "action = PEER_ACTION_RECEIVE_MESSAGE \<longrightarrow> arg \<noteq> None"
    and "action = PEER_ACTION_TRANSMIT_MESSAGE \<longrightarrow> (\<exists>msg. arg = Some msg \<and> arrays_ok (body msg))"
  shows "acts p (invoke_action host cb p action arg)"
proof (cases "state_actions (peer_state p) action")
  case None
  have "acts p (peer_set_state cb p PEER_ERROR)"
    using assms by (intro acts_set_state advances_refl) (cases "peer_state p"; simp)+
  then show ?thesis
    using None by (simp add: invoke_action_def dispatch_def)
next
  case (Some fn)
  have "acts p (on_disconnect cb p)"
    unfolding on_disconnect_def
    using assms by (intro acts_set_state advances_refl) (cases "peer_state p"; simp)+
  moreover have "acts p (Some p)" using assms advances_refl by (auto simp: acts_def)
  ultimately show ?thesis
    using Some assms acts_handshake acts_receive_handshake acts_transmit acts_receive_message acts_update
    by (subst invoke_action_unfold) (cases "peer_state p"; cases action; auto simp: dispatch_def)
qed

end

section \<open>The peer as a sink of its transport\<close>

definition peer_pk :: "rl_uint8 list \<Rightarrow> int" where
  "peer_pk bs =
     (if length bs < 4 then 4
      else uint (push_bit 8 (ucast (bs ! 2) :: rl_uint16) OR ucast (bs ! 3)))"

interpretation peer_framing: framing peer_peek_incoming peer_pk 32768
  by unfold_locales (auto simp: peer_peek_incoming_def peer_pk_def nth_append)

text \<open>\<open>advances\<close> without the input buffer, which the transport moves on itself.\<close>

definition follows :: "'a peer_scheme \<Rightarrow> 'a peer_scheme \<Rightarrow> bool" where
  "follows p0 p \<longleftrightarrow>
     transport_ok p \<and> init_mode p = init_mode p0 \<and> (\<exists>xs. out_text p = out_text p0 @ xs) \<and>
     state_rank (peer_state p0) \<le> state_rank (peer_state p)"

lemma follows_advances: "follows p0 p \<Longrightarrow> advances p p' \<Longrightarrow> follows p0 p'"
  by (auto simp: follows_def advances_def)

lemma follows_ok: "follows p0 p \<Longrightarrow> transport_ok p"
  by (simp add: follows_def)

context peer_owner
begin

lemma deliver_acts:
  assumes "transport_ok p" and "U (peer.more p)"
  shows "\<exists>rc p'. peer_deliver_incoming host cb p c n = Some (rc, p') \<and> advances p p' \<and> U (peer.more p')"
proof (cases "rl_decode_msg (host_be host) (io_mem (inbuf p)) c (int n)")
  case None
  then show ?thesis using assms advances_refl by (auto simp: peer_deliver_incoming_def)
next
  case (Some msg)
  have "acts p (invoke_action host cb p (if rl_msg_kind_of msg = 3 then PEER_ACTION_RECEIVE_HANDSHAKE
      else PEER_ACTION_RECEIVE_MESSAGE) (Some msg))"
    using assms by (intro acts_invoke) auto
  then show ?thesis using Some by (auto simp: peer_deliver_incoming_def acts_def)
qed

lemma sink:
  "transport_sink peer_peek_incoming peer_pk 32768 (peer_deliver_incoming host cb)
     (\<lambda>p. follows p0 p \<and> U (peer.more p))"
proof unfold_locales
  fix t c n assume "follows p0 t \<and> U (peer.more t)"
  then show "\<exists>rc t'. peer_deliver_incoming host cb t c n = Some (rc, t') \<and>
      (follows p0 t' \<and> U (peer.more t')) \<and> inbuf t' = inbuf t"
    using deliver_acts [of t c n] follows_advances follows_ok by (metis advances_def)
next
  fix t b assume "follows p0 t \<and> U (peer.more t)"
  then show "follows p0 (t\<lparr>inbuf := b\<rparr>) \<and> U (peer.more (t\<lparr>inbuf := b\<rparr>))"
    by (simp add: follows_def)
next
  fix t assume "follows p0 t \<and> U (peer.more t)"
  then show "follows p0 (t\<lparr>t_error := True\<rparr>) \<and> U (peer.more (t\<lparr>t_error := True\<rparr>))"
    by (simp add: follows_def)
qed

end

text \<open>In particular the peer of such an owner is a sink for its transport.\<close>

sublocale peer_owner \<subseteq> receiver: transport_sink peer_peek_incoming peer_pk 32768 "peer_deliver_incoming host cb"
    "\<lambda>p. transport_ok p \<and> U (peer.more p)"
proof unfold_locales
  fix t c n assume "transport_ok t \<and> U (peer.more t)"
  then show "\<exists>rc t'. peer_deliver_incoming host cb t c n = Some (rc, t') \<and>
      (transport_ok t' \<and> U (peer.more t')) \<and> inbuf t' = inbuf t"
    using deliver_acts [of t c n] by (auto simp: advances_def)
qed simp_all

text \<open>The invariant of a peer between two calls of its owner.\<close>

definition peer_ok :: "'a peer_scheme \<Rightarrow> bool" where
  "peer_ok p \<longleftrightarrow> transport_ok p \<and> iinv (inbuf p) \<and> end_address (inbuf p) = 32768"

lemma input_keeps:
  fixes t :: "'a rl_transport_scheme"
  assumes "iinv (inbuf t)"
  defines "t' \<equiv> rl_transport_on_input_arrived t"
  shows "iinv (inbuf t') \<and> end_address (inbuf t') = end_address (inbuf t) \<and> heap t' = heap t \<and>
           transport_ok t' = transport_ok t \<and> out_text t' = out_text t \<and> rl_transport.more t' = rl_transport.more t"
proof -
  obtain r sk where r: "recv (sock t) (end_address (inbuf t) - write_cursor (inbuf t)) = (r, sk)"
    by (cases "recv (sock t) (end_address (inbuf t) - write_cursor (inbuf t))")
  then have sk: "sk_sent sk = sk_sent (sock t)" "\<And>bs. r = Io bs \<Longrightarrow> length bs \<le> end_address (inbuf t) - write_cursor (inbuf t)"
    by (auto simp: recv_def split: list.splits recv_outcome.splits)
  show ?thesis
    using assms(1) r sk unfolding t'_def
    by (cases r) (auto simp: rl_transport_on_input_arrived_def Let_def iinv_def transport_ok_def tinv_def
        out_text_def queue_of_def pend_def)
qed

lemma output_keeps:
  assumes "transport_ok t"
  shows "\<exists>t'. rl_transport_on_output_possible t = Some t' \<and> transport_ok t' \<and> out_text t' = out_text t \<and> out_only t t'"
proof -
  obtain qs fs where inv: "tinv t qs fs []" using assms by (auto simp: transport_ok_def)
  obtain t' qs' fs' where o: "rl_transport_on_output_possible t = Some t'" "tinv t' qs' fs' []" "shipped t qs t' qs'"
    using output_ok [OF inv] by blast
  then show ?thesis
    using tinv_out_text [OF inv] tinv_out_text [OF o(2)] by (auto simp: transport_ok_def shipped_def)
qed

lemma out_only_follows:
  "out_only p p' \<Longrightarrow> transport_ok p' \<Longrightarrow> out_text p' = out_text p \<Longrightarrow> follows p0 p \<Longrightarrow> follows p0 p'"
  for p :: "'a peer_scheme"
  using more_fields [of p' p] by (simp add: follows_def out_only_def)

lemma status_bits:
  "RL_TRANSPORT_ERROR AND RL_TRANSPORT_ERROR \<noteq> 0" "RL_TRANSPORT_ERROR AND RL_TRANSPORT_DISCONNECTED = 0"
  "RL_TRANSPORT_DISCONNECTED AND RL_TRANSPORT_ERROR = 0" "RL_TRANSPORT_DISCONNECTED AND RL_TRANSPORT_DISCONNECTED \<noteq> 0"
  "RL_TRANSPORT_ERROR AND RL_TRANSPORT_NEED_OUTPUT = 0" "RL_TRANSPORT_DISCONNECTED AND RL_TRANSPORT_NEED_OUTPUT = 0"
  by (simp_all add: RL_TRANSPORT_ERROR_def RL_TRANSPORT_DISCONNECTED_def RL_TRANSPORT_NEED_OUTPUT_def)

lemma disconnect_removes:
  "\<exists>s. invoke_action host cb p PEER_ACTION_DISCONNECT None = Some (p\<lparr>peer_state := s\<rparr>) \<and> state_rank s = 3"
  by (cases "peer_state p")
    (auto simp: invoke_action_def dispatch_def on_disconnect_def set_state_quiet intro!: exI [of _ "if peer_state p = PEER_INITIAL then PEER_ERROR else PEER_DISCONNECTED"])

context peer_owner
begin

lemma acts_follows:
  assumes "follows p0 p" and "acts p r"
  shows "\<exists>p'. r = Some p' \<and> follows p0 p' \<and> U (peer.more p') \<and> inbuf p' = inbuf p"
  using assms follows_advances unfolding acts_def advances_def [of p] by (metis advances_def)

lemma output_follows:
  assumes "follows p0 p" and "U (peer.more p)"
  shows "\<exists>p'. rl_transport_on_output_possible p = Some p' \<and> follows p0 p' \<and> U (peer.more p') \<and> inbuf p' = inbuf p"
proof -
  obtain p' where "rl_transport_on_output_possible p = Some p'" "transport_ok p'" "out_text p' = out_text p" "out_only p p'"
    using output_keeps [OF follows_ok [OF assms(1)]] by blast
  then show ?thesis
    using out_only_follows [of p p' p0] assms more_fields(9) [of p' p] by (simp add: out_only_def)
qed

lemma peer_update_ok:
  assumes "peer_ok p" and "U (peer.more p)"
  shows "\<exists>result p'. peer_update host cb p can_read can_write = Some (result, p') \<and>
           peer_ok p' \<and> U (peer.more p') \<and> follows p p' \<and> update_result p' = result \<and>
           result \<in> {0, PEER_STATUS_NEED_OUTPUT, PEER_STATUS_REMOVE_ME} \<and>
           (result = PEER_STATUS_REMOVE_ME \<longleftrightarrow> peer_state p' = PEER_ERROR \<or> peer_state p' = PEER_DISCONNECTED)"
proof -
  let ?p1 = "if can_read then rl_transport_on_input_arrived p else p"
  have p1: "iinv (inbuf ?p1)" "end_address (inbuf ?p1) = 32768" "follows p ?p1" "U (peer.more ?p1)"
    using assms input_keeps [of p] more_fields [of "rl_transport_on_input_arrived p" p]
    by (simp_all add: peer_ok_def follows_def)
  obtain p2 where p2: "(if can_write then rl_transport_on_output_possible ?p1 else Some ?p1) = Some p2"
    "follows p p2" "U (peer.more p2)" "inbuf p2 = inbuf ?p1"
    using output_follows [OF p1(3,4)] p1(3,4) by (cases can_write) auto
  obtain st p3 where p3: "rl_transport_update peer_peek_incoming (peer_deliver_incoming host cb) p2 = Some (st, p3)"
    "follows p p3" "U (peer.more p3)" "iinv (inbuf p3)" "end_address (inbuf p3) = 32768"
    using transport_sink.update_ok [OF sink [of p], of p2] p1(1,2) p2 by auto
  have step: "\<exists>p'. (if b then invoke_action host cb q PEER_ACTION_DISCONNECT None else Some q) = Some p' \<and>
      follows p p' \<and> U (peer.more p') \<and> inbuf p' = inbuf q"
    if "follows p q" "U (peer.more q)" for q b
    using acts_follows [OF that(1) acts_invoke [of q PEER_ACTION_DISCONNECT None]] that follows_ok [OF that(1)]
    by auto
  obtain p4 where p4: "(if RL_TRANSPORT_ERROR AND st \<noteq> 0 then invoke_action host cb p3 PEER_ACTION_DISCONNECT None
      else Some p3) = Some p4" "follows p p4" "U (peer.more p4)" "inbuf p4 = inbuf p3"
    using step [OF p3(2,3)] by blast
  obtain p5 where p5: "(if RL_TRANSPORT_DISCONNECTED AND st \<noteq> 0 then invoke_action host cb p4 PEER_ACTION_DISCONNECT None
      else Some p4) = Some p5" "follows p p5" "U (peer.more p5)" "inbuf p5 = inbuf p4"
    using step [OF p4(2,3)] by blast
  obtain p6 where p6: "invoke_action host cb p5 PEER_ACTION_UPDATE None = Some p6" "follows p p6"
    "U (peer.more p6)" "inbuf p6 = inbuf p5"
    using acts_follows [OF p5(2) acts_invoke [of p5 PEER_ACTION_UPDATE None]] p5(3) follows_ok [OF p5(2)]
    by auto
  obtain p7 where p7: "rl_transport_on_output_possible p6 = Some p7" "follows p p7" "U (peer.more p7)"
    "inbuf p7 = inbuf p6"
    using output_follows [OF p6(2,3)] by blast
  show ?thesis
    using p2(1) p3(1,4,5) p4(1,4) p5(1,4) p6(1,4) p7
    by (simp add: peer_update_def Let_def peer_ok_def follows_def PEER_STATUS_NEED_OUTPUT_def
        PEER_STATUS_REMOVE_ME_def)
qed

end

lemma sint_small: "uint w < 2 ^ 31 \<Longrightarrow> sint w \<noteq> - (2 ^ 31)" for w :: rl_uint32
proof -
  assume "uint w < 2 ^ 31"
  moreover have ge: "- 2147483648 < uint w" by (rule order_less_le_trans [OF _ uint_ge_0]) simp
  ultimately have "sint w = uint w"
    using less_imp_le [OF ge] by (simp add: sint_uint signed_take_bit_int_eq_self_iff)
  with ge show ?thesis by simp
qed

lemma format_text_d_some:
  assumes "\<exists>t. format_text plat rest args = Some t" and "list_all (\<lambda>c. \<not> is_percent c) pre"
    and "uint w < 2 ^ 31"
  shows "\<exists>t. format_text plat (pre @ lit ''%d'' @ rest) (AInt w # args) = Some t"
  using format_text_d [OF assms(2), of plat w rest args] sint_small [OF assms(3)] assms(1) by auto

lemma byte_small: "uint (x AND 0xff) < 2 ^ 31" for x :: rl_uint32
proof -
  have "uint (x AND 0xff) = uint x AND 255" by (simp add: uint_and)
  also have "\<dots> \<le> 255" by (intro AND_upper2) simp
  finally show ?thesis by simp
qed

lemma port_small: "uint (ucast (x :: rl_uint16) :: rl_uint32) < 2 ^ 31"
proof -
  have b: "uint x < 2 ^ 16" using uint_bounded [of x] by simp
  then have "uint (ucast x :: rl_uint32) = uint x" by (simp add: unsigned_ucast_eq take_bit_int_eq_self_iff)
  then show ?thesis using b by simp
qed

lemma dotted_some:
  "\<exists>t. format_text plat (lit ''%d.%d.%d.%d'')
         [AInt (a AND 0xff), AInt (b AND 0xff), AInt (c AND 0xff), AInt (d AND 0xff)] = Some t"
proof -
  have "\<exists>t. format_text plat ([] :: cstring) [] = Some t" using format_text_literal [of "[]"] by simp
  from format_text_d_some [OF this _ byte_small, of "lit ''.''" d]
  have "\<exists>t. format_text plat (lit ''.%d'') [AInt (d AND 0xff)] = Some t"
    by (simp add: is_percent_def)
  from format_text_d_some [OF this _ byte_small, of "lit ''.''" c]
  have "\<exists>t. format_text plat (lit ''.%d.%d'') [AInt (c AND 0xff), AInt (d AND 0xff)] = Some t"
    by (simp add: is_percent_def)
  from format_text_d_some [OF this _ byte_small, of "lit ''.''" b]
  have "\<exists>t. format_text plat (lit ''.%d.%d.%d'') [AInt (b AND 0xff), AInt (c AND 0xff), AInt (d AND 0xff)] = Some t"
    by (simp add: is_percent_def)
  from format_text_d_some [OF this _ byte_small, of "[]" a] show ?thesis
    by simp
qed

lemma peer_ident_some:
  assumes "host_ok host"
  shows "\<exists>name. peer_ident host address = Some name"
proof (cases address)
  case None
  then show ?thesis
    using formatted_eq [OF _ format_text_literal, of 32 "lit ''<non-tcp/ip address>''"]
    by (auto simp: peer_ident_def is_percent_def)
next
  case (Some a)
  obtain s_addr port where a: "a = (s_addr, port)" by (cases a)
  have "\<exists>t. format_text plat ([] :: cstring) [] = Some t" for plat using format_text_literal [of "[]"] by simp
  from format_text_d_some [OF this _ port_small [of port], where pre = "lit '':''"]
  have "\<exists>t. format_text plat (lit '':%d'') [AInt (ucast port)] = Some t" for plat
    by (simp add: is_percent_def)
  then have full: "\<exists>t. format_text plat (lit ''%s:%d'') [AStr b, AInt (ucast port)] = Some t"
    if "length b < 2 ^ 31" for plat b
    using format_text_s [of "[]" b plat "lit '':%d''" "[AInt (ucast port)]"] that by fastforce
  have "\<exists>b. length b < 2 ^ 31 \<and> (case host_platform host of
               Amiga \<Rightarrow>
                 formatted Amiga 64 (lit ''%d.%d.%d.%d'')
                   [AInt (drop_bit 24 s_addr AND 0xff), AInt (drop_bit 16 s_addr AND 0xff),
                    AInt (drop_bit 8 s_addr AND 0xff), AInt (s_addr AND 0xff)]
             | Posix \<Rightarrow> formatted Posix 64 (lit ''%s'') [AStr (host_inet_ntoa host s_addr)]) = Some b"
  proof (cases "host_platform host")
    case Amiga
    then show ?thesis
      using dotted_some [of Amiga "drop_bit 24 s_addr" "drop_bit 16 s_addr" "drop_bit 8 s_addr" s_addr]
        formatted_eq [of 64 Amiga] by fastforce
  next
    case Posix
    have "length (host_inet_ntoa host s_addr) \<le> 255" using assms by (simp add: host_ok_def valid_string_def)
    then have "format_text Posix (lit ''%s'') [AStr (host_inet_ntoa host s_addr)] = Some (host_inet_ntoa host s_addr)"
      using format_text_s [of "[]" "host_inet_ntoa host s_addr" Posix "[]" "[]"]
        format_text_literal [of "[]" Posix "[]"] by simp
    then show ?thesis using Posix formatted_eq [of 64 Posix] by fastforce
  qed
  then show ?thesis
    using full formatted_eq [of 32 "host_platform host"] Some a unfolding peer_ident_def
    by (auto split: prod.splits) fastforce
qed

context peer_owner
begin

lemma peer_init_ok:
  assumes "cell (heap p) = Map.empty" and "U (peer.more p)"
  shows "\<exists>rc p' n. peer_init host cb p address mode count = Some (rc, p', n) \<and> U (peer.more p') \<and>
           transport_ok p' \<and> (rc \<noteq> 0 \<longrightarrow> cell (heap p') = Map.empty) \<and> (rc = 0 \<longrightarrow> peer_ok p' \<and> init_mode p' = mode \<and>
             peer_index p' = count mod 10 \<and> n = count + 1 \<and>
             (peer_state p' = PEER_WAIT_HANDSHAKE \<or> peer_state p' = PEER_ERROR))"
proof -
  let ?p = "p\<lparr>peer_state := PEER_INITIAL, fd_open := True, update_result := 0, init_mode := mode,
              ping_on_wire := False, last_activity := host_now host\<rparr>"
  obtain rc p1 where p1: "rl_transport_init ?p 32768 = Some (rc, p1)" "rc = 0 \<or> rc = 1"
    "rc = 0 \<longrightarrow> inbuf p1 = \<lparr>base_address = 0, read_cursor = 0, write_cursor = 0, end_address = 32768,
                             valid = True, io_mem = (\<lambda>_. 0)\<rparr> \<and> \<not> t_error p1 \<and> \<not> disconnect p1"
    "tinv p1 [] [] []" "rl_transport.more p1 = rl_transport.more ?p"
    using init_ok [of ?p 32768] assms(1) by auto
  have f1: "transport_ok p1" "U (peer.more p1)" "peer_state p1 = PEER_INITIAL" "init_mode p1 = mode"
    using p1(4) assms(2) more_fields [OF p1(5)] by (auto simp: transport_ok_def)
  obtain name where name: "peer_ident host address = Some name" using peer_ident_some [OF host] by blast
  let ?p2 = "p1\<lparr>ident := name\<rparr>"
  have "acts ?p2 (on_transmit_handshake host cb ?p2)"
    using f1 by (intro acts_handshake) simp_all
  then obtain p3 where p3: "on_transmit_handshake host cb ?p2 = Some p3" "advances ?p2 p3" "U (peer.more p3)"
    by (auto simp: acts_def)
  have st: "peer_state p3 = PEER_WAIT_HANDSHAKE \<or> peer_state p3 = PEER_ERROR"
    using p3(1) by (auto simp: on_transmit_handshake_def set_state_quiet split: bind_splits if_splits)
  show ?thesis
  proof (cases "rc = 0")
    case True
    then show ?thesis
      using p1 f1 name p3 st
      by (cases mode)
        (auto simp: peer_init_def Let_def invoke_action_def dispatch_def set_state_quiet peer_ok_def
          iinv_def advances_def)
  next
    case False
    then show ?thesis using p1 f1 by (auto simp: peer_init_def Let_def tinv_def)
  qed
qed

lemma peer_destroy_ok:
  assumes "transport_ok p"
  shows "\<exists>p'. peer_destroy p = Some p' \<and> (\<forall>a. deref (heap p') a = None) \<and> \<not> valid (inbuf p')"
proof -
  obtain qs fs where "tinv (p\<lparr>fd_open := False\<rparr>) qs fs []"
    using assms by (auto simp: transport_ok_def tinv_def)
  from destroy_ok [OF this] obtain p' where "peer_destroy p = Some p'" "cell (heap p') = Map.empty" "\<not> valid (inbuf p')"
    by (auto simp: peer_destroy_def)
  moreover from this have "deref (heap p') a = None" for a by (cases a) simp_all
  ultimately show ?thesis by blast
qed

end

text \<open>Destroying a peer closes its socket.\<close>

lemma free_buffer_more: "rl_transport_free_buffer t m = Some t' \<Longrightarrow> rl_transport.more t' = rl_transport.more t"
  by (auto simp: rl_transport_free_buffer_def bind_eq_Some_conv split: if_splits)

lemma destroy_more:
  "destroy_queue t m = Some t' \<Longrightarrow> rl_transport.more t' = rl_transport.more t"
  "destroy_pool t m = Some t' \<Longrightarrow> rl_transport.more t' = rl_transport.more t"
proof -
  show "destroy_queue t m = Some t' \<Longrightarrow> rl_transport.more t' = rl_transport.more t"
    by (rule destroy_queue.raw_induct [where P = "\<lambda>t m t'. rl_transport.more t' = rl_transport.more t"])
      (auto simp: bind_eq_Some_conv dest!: free_buffer_more split: if_splits)
  show "destroy_pool t m = Some t' \<Longrightarrow> rl_transport.more t' = rl_transport.more t"
    by (rule destroy_pool.raw_induct [where P = "\<lambda>t m t'. rl_transport.more t' = rl_transport.more t"])
      (fastforce simp: bind_eq_Some_conv split: if_splits)+
qed

lemma peer_destroy_closes: "peer_destroy p = Some q \<Longrightarrow> \<not> fd_open q"
proof -
  assume "peer_destroy p = Some q"
  then have "rl_transport.more q = rl_transport.more (p\<lparr>fd_open := False\<rparr>)"
    by (auto simp: peer_destroy_def rl_transport_destroy_def bind_eq_Some_conv dest!: destroy_more)
  from more_fields(2) [OF this] show ?thesis by simp
qed

section \<open>The life of a peer\<close>

text \<open>
  The owner's loop over one peer: an update per event, until the peer asks to be removed. An
  event is the machine at that moment (its clock moves on) and what \<^verbatim>\<open>select\<close> reported.
\<close>

fun peer_run ::
  "(host \<Rightarrow> 'a peer_scheme peer_callbacks) \<Rightarrow> 'a peer_scheme \<Rightarrow> (host \<times> bool \<times> bool) list \<Rightarrow>
     'a peer_scheme option" where
  "peer_run cb p [] = Some p"
| "peer_run cb p ((host, can_read, can_write) # es) = do {
     (result, p) \<leftarrow> peer_update host (cb host) p can_read can_write;
     if result AND PEER_STATUS_REMOVE_ME \<noteq> 0 then Some p else peer_run cb p es
   }"

lemma peer_run_ok:
  assumes "\<And>host. host_ok host \<Longrightarrow> peer_owner host (cb host) U"
  shows "peer_ok p \<Longrightarrow> U (peer.more p) \<Longrightarrow> list_all (\<lambda>(host, _). host_ok host) es \<Longrightarrow>
     \<exists>p'. peer_run cb p es = Some p' \<and> peer_ok p' \<and> U (peer.more p') \<and> follows p p'"
proof (induction es arbitrary: p)
  case Nil
  then show ?case by (auto simp: peer_ok_def follows_def)
next
  case (Cons e es)
  obtain host r w where e: "e = (host, r, w)" by (cases e)
  have own: "peer_owner host (cb host) U" using assms Cons.prems e by simp
  obtain res p1 where p1: "peer_update host (cb host) p r w = Some (res, p1)" "peer_ok p1" "U (peer.more p1)"
    "follows p p1"
    using peer_owner.peer_update_ok [OF own Cons.prems(1,2)] by blast
  obtain p' where "peer_run cb p1 es = Some p'" "peer_ok p'" "U (peer.more p')" "follows p1 p'"
    using Cons.IH [OF p1(2,3)] Cons.prems(3) e by auto
  moreover from this have "follows p p'" using p1(4) by (auto simp: follows_def)
  ultimately show ?case using p1 e by auto
qed

text \<open>An owner that does nothing, and a machine; both serve as examples.\<close>

definition quiet_callbacks :: "'a peer_scheme peer_callbacks" where
  "quiet_callbacks = \<lparr>on_message = (\<lambda>p _. Some (0, p)), on_connected = (\<lambda>p. Some (0, p))\<rparr>"

lemma quiet_owner: "host_ok host \<Longrightarrow> peer_owner host quiet_callbacks (\<lambda>_. True)"
  by unfold_locales (auto simp: quiet_callbacks_def advances_refl)

definition example_host :: host where
  "example_host =
     \<lparr>host_be = False, host_platform = Posix,
      host_uname = Some \<lparr>un_sysname = lit ''Linux'', un_nodename = lit ''box'', un_release = lit ''6.1'',
                         un_version = lit ''#1'', un_machine = lit ''x86_64''\<rparr>,
      host_garbage = [], host_lib_version = 40, host_inet_ntoa = (\<lambda>_. lit ''10.0.0.2''), host_now = 100\<rparr>"

lemma example_host_ok: "host_ok example_host"
  by (simp add: host_ok_def example_host_def valid_string_def)

definition example_peer :: peer where
  "example_peer =
     \<lparr>inbuf = \<lparr>base_address = 0, read_cursor = 0, write_cursor = 0, end_address = 32768, valid = True,
               io_mem = (\<lambda>_. 0)\<rparr>,
      out_queue = None, out_tail = None, num_free_buffers = 0, next_free_buffer = None,
      t_error = False, disconnect = False, heap = \<lparr>cells = [], mallocs = []\<rparr>,
      sock = \<lparr>sk_recvs = [], sk_sends = [], sk_sent = []\<rparr>,
      peer_state = PEER_CONNECTED, fd_open = True, ident = lit ''10.0.0.2:7001'', peer_index = 0, update_result = 0,
      init_mode = PEER_INIT_TARGET, last_activity = 0, ping_on_wire = False\<rparr>"

lemma example_peer_ok: "cell (heap example_peer) = Map.empty" "transport_ok example_peer" "peer_ok example_peer"
proof -
  show c: "cell (heap example_peer) = Map.empty"
    by (simp add: example_peer_def cell_lookup fun_eq_iff)
  show t: "transport_ok example_peer"
    unfolding transport_ok_def
    by (rule exI [of _ "[]"], rule exI [of _ "[]"])
      (use c in \<open>simp add: tinv_def\<close>, simp add: example_peer_def)
  show "peer_ok example_peer"
    using t by (simp add: peer_ok_def iinv_def) (simp add: example_peer_def)
qed

section \<open>Properties of the peer\<close>

text \<open>
  Claim C4: the whole life of a connection is memory safe and leaks nothing. Whatever the
  other side sends and whatever the socket and the allocator do, initialising a peer, any
  sequence of updates and destroying it return; no freed or unallocated buffer is touched;
  and afterwards none of the transport's buffers is allocated. It holds for every owner
  whose callbacks keep the contract.
\<close>
theorem peer_lifecycle_safe:
  assumes "\<And>host. host_ok host \<Longrightarrow> peer_owner host (cb host) U"
    and "cell (heap p) = Map.empty" and "U (peer.more p)"
    and "host_ok host" and "list_all (\<lambda>(host, _). host_ok host) es"
  shows "\<exists>rc p1 n. peer_init host (cb host) p address mode count = Some (rc, p1, n) \<and>
           (rc \<noteq> 0 \<longrightarrow> (\<forall>a. deref (heap p1) a = None)) \<and>
           (rc = 0 \<longrightarrow> (\<exists>p2 p3. peer_run cb p1 es = Some p2 \<and> peer_destroy p2 = Some p3 \<and>
              (\<forall>a. deref (heap p3) a = None) \<and> \<not> valid (inbuf p3)))"
proof -
  have own: "peer_owner host (cb host) U" using assms(1,4) by blast
  obtain rc p1 n where i: "peer_init host (cb host) p address mode count = Some (rc, p1, n)" "U (peer.more p1)"
    "rc \<noteq> 0 \<longrightarrow> cell (heap p1) = Map.empty" "rc = 0 \<longrightarrow> peer_ok p1"
    using peer_owner.peer_init_ok [OF own assms(2,3)] by blast
  have "deref (heap p1) a = None" if "rc \<noteq> 0" for a using i(3) that by (cases a) simp_all
  moreover have "\<exists>p2 p3. peer_run cb p1 es = Some p2 \<and> peer_destroy p2 = Some p3 \<and>
      (\<forall>a. deref (heap p3) a = None) \<and> \<not> valid (inbuf p3)" if rc0: "rc = 0"
  proof -
    obtain p2 where "peer_run cb p1 es = Some p2" "peer_ok p2"
      using peer_run_ok [OF assms(1), of p1 es] i(2,4) rc0 assms(5) by auto
    then show ?thesis using peer_owner.peer_destroy_ok [OF own, of p2] by (auto simp: peer_ok_def)
  qed
  ultimately show ?thesis using i(1) by blast
qed

theorem peer_lifecycle_safe_witness:
  "\<exists>rc p1 n. peer_init example_host quiet_callbacks example_peer (Some (1, 7001)) PEER_INIT_TARGET 0 =
               Some (rc, p1, n) \<and>
     (rc = 0 \<longrightarrow> (\<exists>p2 p3. peer_run (\<lambda>_. quiet_callbacks) p1 [(example_host, True, True), (example_host, True, False)] = Some p2 \<and>
        peer_destroy p2 = Some p3 \<and> (\<forall>a. deref (heap p3) a = None)))"
  using peer_lifecycle_safe [of "\<lambda>_. quiet_callbacks" "\<lambda>_. True" example_peer example_host
      "[(example_host, True, True), (example_host, True, False)]" "Some (1, 7001)" PEER_INIT_TARGET 0]
    quiet_owner example_peer_ok(1) example_host_ok
  by (simp del: peer_run.simps) blast

text \<open>
  Claim C8: a call of \<open>peer_update\<close> returns, keeps the cursors of the input buffer in order and
  the queue intact, and moves the state only forward in the order INITIAL, WAIT_HANDSHAKE,
  CONNECTED, then ERROR or DISCONNECTED; a peer that has failed never comes back. It asks to
  be removed exactly when it is in ERROR or DISCONNECTED, and output is only ever appended.
\<close>
theorem peer_update_forward:
  assumes "peer_owner host cb U" and "peer_ok p" and "U (peer.more p)"
  shows "\<exists>result p'. peer_update host cb p can_read can_write = Some (result, p') \<and> peer_ok p' \<and>
           state_rank (peer_state p) \<le> state_rank (peer_state p') \<and>
           (\<exists>xs. out_text p' = out_text p @ xs) \<and>
           (result = PEER_STATUS_REMOVE_ME \<longleftrightarrow> peer_state p' = PEER_ERROR \<or> peer_state p' = PEER_DISCONNECTED)"
  using peer_owner.peer_update_ok [OF assms] unfolding follows_def by blast

theorem peer_update_forward_witness:
  "\<exists>result p'. peer_update example_host quiet_callbacks example_peer True True = Some (result, p') \<and>
     2 \<le> state_rank (peer_state p')"
  using peer_update_forward [OF quiet_owner [OF example_host_ok] example_peer_ok(3), of True True]
  by (auto simp: example_peer_def)

text \<open>
  Claim C32: the handshake gate. A peer that waits for the handshake turns to ERROR, without a
  callback and without output, on any other message and on a handshake of another major
  version; on a handshake of its own major version the minor version has no influence.
\<close>
theorem handshake_gate:
  assumes "peer_state p = PEER_WAIT_HANDSHAKE"
  shows "invoke_action host cb p PEER_ACTION_RECEIVE_MESSAGE (Some msg) = Some (p\<lparr>peer_state := PEER_ERROR\<rparr>) \<and>
         (maj \<noteq> RLAUNCH_VER_MAJOR \<longrightarrow>
            invoke_action host cb p PEER_ACTION_RECEIVE_HANDSHAKE
              (Some (RL_MSG_INIT (Handshake_request maj mnr node name ver pw))) =
            Some (p\<lparr>peer_state := PEER_ERROR\<rparr>)) \<and>
         invoke_action host cb p PEER_ACTION_RECEIVE_HANDSHAKE
           (Some (RL_MSG_INIT (Handshake_request RLAUNCH_VER_MAJOR mnr node name ver pw))) =
         invoke_action host cb p PEER_ACTION_RECEIVE_HANDSHAKE
           (Some (RL_MSG_INIT (Handshake_request RLAUNCH_VER_MAJOR RLAUNCH_VER_MINOR node name ver pw)))"
  using assms
  by (simp add: invoke_action_def dispatch_def on_receive_handshake_def set_state_quiet RL_MSG_INIT_def)

theorem handshake_gate_witness:
  "invoke_action example_host quiet_callbacks (example_peer\<lparr>peer_state := PEER_WAIT_HANDSHAKE\<rparr>)
     PEER_ACTION_RECEIVE_HANDSHAKE (Some (RL_MSG_INIT (Handshake_request 2 0 [] [] [] []))) =
   Some (example_peer\<lparr>peer_state := PEER_ERROR\<rparr>)"
  using handshake_gate [of "example_peer\<lparr>peer_state := PEER_WAIT_HANDSHAKE\<rparr>" example_host quiet_callbacks
      "RL_MSG_INIT Ping_request" 2 0 "[]" "[]" "[]" "[]"]
  by (simp add: RLAUNCH_VER_MAJOR_def)

text \<open>
  Claim C34: a lost handshake goes unnoticed. On the target side, when there is no memory for
  its own handshake, the peer still becomes CONNECTED and tells its owner so, with nothing
  sent: the state ERROR that \<open>on_transmit_handshake\<close> sets is overwritten.
\<close>
theorem lost_handshake_ignored:
  assumes "host_ok host" and "peer_state p = PEER_WAIT_HANDSHAKE" and "init_mode p = PEER_INIT_TARGET"
    and "num_free_buffers p = 0" and "mallocs (heap p) = False # oks"
  shows "invoke_action host cb p PEER_ACTION_RECEIVE_HANDSHAKE
           (Some (RL_MSG_INIT (Handshake_request RLAUNCH_VER_MAJOR mnr node name ver pw))) =
         map_option snd (on_connected cb (p\<lparr>heap := (heap p)\<lparr>mallocs := oks\<rparr>, peer_state := PEER_CONNECTED\<rparr>))"
proof -
  obtain msg where m: "handshake_msg host = Some msg" using handshake_msg_ok [OF assms(1)] by blast
  have "enqueue_output_message host p msg = Some (- 1, p\<lparr>heap := (heap p)\<lparr>mallocs := oks\<rparr>\<rparr>)"
    using assms(4,5)
    by (simp add: enqueue_output_message_def rl_transport_alloc_buffer_def rl_alloc_sized_and_clear_def
        malloc_outcome_def)
  then show ?thesis
    using assms m
    by (simp add: invoke_action_def dispatch_def on_receive_handshake_def on_transmit_handshake_def
        set_state_quiet RL_MSG_INIT_def) (simp add: peer_set_state_def)
qed

theorem lost_handshake_ignored_witness:
  "invoke_action example_host quiet_callbacks
     (example_peer\<lparr>peer_state := PEER_WAIT_HANDSHAKE, heap := \<lparr>cells = [], mallocs = [False]\<rparr>\<rparr>)
     PEER_ACTION_RECEIVE_HANDSHAKE (Some (RL_MSG_INIT (Handshake_request 1 0 [] [] [] []))) = Some example_peer"
proof -
  let ?p = "example_peer\<lparr>peer_state := PEER_WAIT_HANDSHAKE, heap := \<lparr>cells = [], mallocs = [False]\<rparr>\<rparr>"
  have h: "peer_state ?p = PEER_WAIT_HANDSHAKE" "init_mode ?p = PEER_INIT_TARGET" "num_free_buffers ?p = 0"
    "mallocs (heap ?p) = False # []" "RLAUNCH_VER_MAJOR = 1"
    by (simp_all add: example_peer_def RLAUNCH_VER_MAJOR_def)
  show ?thesis
    using lost_handshake_ignored [OF example_host_ok h(1-4), of quiet_callbacks 0 "[]" "[]" "[]" "[]"]
    by (simp add: quiet_callbacks_def h(5)) (simp add: example_peer_def)
qed

text \<open>
  Claim C31: the keep-alive protocol of a connected peer. It sends one ping when the other side
  has been silent for longer than its threshold, does nothing while it waits for the answer,
  and gives the connection up when the silence has lasted more than twice the threshold;
  \<open>out_text\<close> gains exactly the ping, or nothing when there was no memory for it and the state
  is ERROR. The threshold of the target is smaller than that of the controller.
\<close>
theorem ping_protocol:
  fixes p :: "'a peer_scheme" and host :: host
  assumes "transport_ok p" and "peer_state p = PEER_CONNECTED"
  defines "limit \<equiv> (if init_mode p = PEER_INIT_TARGET then 30 else 31 :: int)"
    and "silence \<equiv> host_now host - last_activity p"
  shows "\<exists>p'. invoke_action host cb p PEER_ACTION_UPDATE None = Some p' \<and>
           (if silence > limit \<and> \<not> ping_on_wire p
            then ping_on_wire p' \<and>
                 (out_text p' = out_text p @ wire_msg (RL_MSG_INIT Ping_request) \<and> peer_state p' = PEER_CONNECTED \<or>
                  out_text p' = out_text p \<and> peer_state p' = PEER_ERROR \<and> mallocs (heap p) \<noteq> [])
            else if silence > 2 * limit then p' = p\<lparr>peer_state := PEER_ERROR\<rparr>
            else p' = p)"
proof -
  let ?ping = "RL_MSG_INIT Ping_request"
  have "valid_body (body ?ping)" "msg_size ?ping \<le> 8192" by code_simp+
  from enqueue_wire [OF assms(1) this, of host]
  obtain rc p1 where e: "enqueue_output_message host p ?ping = Some (rc, p1)" "queued p p1"
    "rc = 0 \<and> out_text p1 = out_text p @ wire_msg ?ping \<or>
     rc = - 1 \<and> out_text p1 = out_text p \<and> mallocs (heap p) \<noteq> []"
    by blast
  have st: "peer_state p1 = PEER_CONNECTED" using e(2) more_fields(1) [of p1 p] assms(2) by (simp add: queued_def)
  have lim: "(if init_mode p = PEER_INIT_TARGET then RL_PING_TIMEOUT else RL_PING_TIMEOUT + 1) = limit"
    "push_bit 1 limit = 2 * limit" "silence > 2 * limit \<Longrightarrow> silence > limit"
    by (simp_all add: limit_def RL_PING_TIMEOUT_def split: if_splits)
  show ?thesis
    using e(1,3) st assms(2) lim
    unfolding invoke_action_def dispatch_def on_update_connected_def Let_def
    by (auto simp: on_transmit_message_def set_state_quiet simp flip: silence_def)
qed

theorem ping_protocol_witness:
  "\<exists>p'. invoke_action example_host quiet_callbacks example_peer PEER_ACTION_UPDATE None = Some p' \<and>
     ping_on_wire p' \<and> out_text p' = wire_msg (RL_MSG_INIT Ping_request)"
proof -
  have "peer_state example_peer = PEER_CONNECTED" "init_mode example_peer = PEER_INIT_TARGET"
    "host_now example_host - last_activity example_peer = 100" "\<not> ping_on_wire example_peer"
    "out_text example_peer = []" "mallocs (heap example_peer) = []"
    by (simp_all add: example_peer_def example_host_def out_text_def queue_of_def)
  then show ?thesis
    using ping_protocol [OF example_peer_ok(2), of example_host quiet_callbacks] by auto
qed

section \<open>Streams of messages\<close>

lemma peer_pk_wire:
  assumes "msg_size msg < 65536"
  shows "peer_pk (wire_msg msg @ xs) = int (msg_size msg)"
proof -
  let ?w = "of_nat (msg_size msg) :: rl_uint16"
  have ix: "(wire_msg msg @ xs) ! 2 = ucast (drop_bit 8 ?w)" "(wire_msg msg @ xs) ! 3 = ucast ?w"
    by (simp_all add: wire_msg_def wire16_def eval_nat_numeral)
  have "uint (push_bit 8 (ucast ((wire_msg msg @ xs) ! 2)) OR ucast ((wire_msg msg @ xs) ! 3) :: rl_uint16) = uint ?w"
    unfolding ix join16 ..
  also have "\<dots> = int (msg_size msg)"
    using assms by (simp add: unsigned_of_nat take_bit_nat_eq_self)
  finally show ?thesis
    using length_wire_msg [of msg] by (auto simp: peer_pk_def msg_size_def)
qed

lemma deframe_wire_msgs:
  "list_all (\<lambda>m. msg_size m \<le> 32768) msgs \<Longrightarrow>
     deframe peer_pk 32768 (concat (map wire_msg msgs)) = (map wire_msg msgs, [], False)"
proof (induction msgs)
  case Nil
  then show ?case by (simp add: deframe_stop front_def)
next
  case (Cons m msgs)
  let ?bs = "wire_msg m @ concat (map wire_msg msgs)"
  have pk: "peer_pk ?bs = int (msg_size m)" using Cons.prems by (intro peer_pk_wire) simp
  have "0 < msg_size m" by (simp add: msg_size_def)
  then have "front peer_pk 32768 ?bs"
    using pk Cons.prems length_wire_msg [of m] by (auto simp: front_def simp flip: length_0_conv)
  from deframe_step [OF this] show ?case
    using Cons pk by simp
qed

lemma rounds_deliver:
  fixes t :: recorder
  assumes "deframe peer_pk 32768 (concat cs) = (ms, [], False)" and "list_all (\<lambda>c. c \<noteq> []) cs"
    and "iinv (inbuf t)" and "end_address (inbuf t) = 32768" and "incoming (inbuf t) = []"
    and "write_cursor (inbuf t) < 32768" and "\<not> t_error t" and "\<not> disconnect t" and "delivered t = []"
    and "sk_recvs (sock t) = map Recv_data cs" and "length (concat cs) \<le> k"
  shows "\<exists>t'. receive_rounds peer_peek_incoming k t = Some t' \<and> delivered t' = ms \<and>
           incoming (inbuf t') = [] \<and> \<not> t_error t' \<and> \<not> disconnect t'"
proof -
  have tc: "to_come (sock t) = concat cs"
    using assms(10) by (simp add: to_come_def comp_def)
  have "only_data (sock t)"
    using assms(2,10) by (simp add: only_data_def list_all_iff)
  moreover have "deframe peer_pk 32768 [] = ([], [], False)"
    by (simp add: deframe_stop front_def)
  ultimately have "between peer_pk 32768 ms t"
    using assms tc by (simp add: between_def)
  from peer_framing.rounds_between [OF this] show ?thesis
    using tc assms(11) by simp
qed

definition example_recorder :: "rl_uint8 list list \<Rightarrow> recorder" where
  "example_recorder cs =
     \<lparr>inbuf = \<lparr>base_address = 0, read_cursor = 0, write_cursor = 0, end_address = 32768, valid = True,
               io_mem = (\<lambda>_. 0)\<rparr>,
      out_queue = None, out_tail = None, num_free_buffers = 0, next_free_buffer = None,
      t_error = False, disconnect = False, heap = \<lparr>cells = [], mallocs = []\<rparr>,
      sock = \<lparr>sk_recvs = map Recv_data cs, sk_sends = [], sk_sent = []\<rparr>, delivered = []\<rparr>"

text \<open>
  Claim C35: a header whose length field is zero stops the input of a peer for good. Whatever
  the delivery callback is, the message loop neither delivers nor reports an error, and as
  long as only more bytes arrive it stays that way; when the buffer is full, the receive
  call with no space left is taken for the end of the connection.
\<close>
theorem zero_length_stalls:
  assumes "iinv (inbuf t)" and "4 \<le> length (incoming (inbuf t))"
    and "incoming (inbuf t) ! 2 = 0" and "incoming (inbuf t) ! 3 = 0"
  shows "update_loop peer_peek_incoming deliver t = Some (False, t) \<and>
         peer_pk (incoming (inbuf t) @ xs) = 0 \<and>
         (write_cursor (inbuf t) = end_address (inbuf t) \<and> sk_recvs (sock t) = Recv_data bs # rs \<longrightarrow>
            disconnect (rl_transport_on_input_arrived t))"
proof (intro conjI impI)
  let ?b = "inbuf t"
  have pk: "peer_pk (incoming ?b @ xs) = 0" for xs
    using assms by (simp add: peer_pk_def nth_append)
  then show "peer_pk (incoming ?b @ xs) = 0" .
  have "peer_peek_incoming (io_mem ?b) (read_cursor ?b) (write_cursor ?b - read_cursor ?b) = 0"
    using pk [of "[]"] by (simp add: peer_framing.peek_bytes incoming_def)
  then show "update_loop peer_peek_incoming deliver t = Some (False, t)"
    by (subst update_loop.simps) simp
  assume "write_cursor ?b = end_address ?b \<and> sk_recvs (sock t) = Recv_data bs # rs"
  then show "disconnect (rl_transport_on_input_arrived t)"
    by (simp add: rl_transport_on_input_arrived_def recv_def Let_def)
qed

theorem zero_length_stalls_witness:
  "update_loop peer_peek_incoming record_delivery
     ((example_recorder [])\<lparr>inbuf := (inbuf (example_recorder []))\<lparr>write_cursor := 8\<rparr>\<rparr>) =
   Some (False, (example_recorder [])\<lparr>inbuf := (inbuf (example_recorder []))\<lparr>write_cursor := 8\<rparr>\<rparr>)"
proof -
  let ?t = "(example_recorder [])\<lparr>inbuf := (inbuf (example_recorder []))\<lparr>write_cursor := 8\<rparr>\<rparr>"
  have "iinv (inbuf ?t)" "4 \<le> length (incoming (inbuf ?t))" "incoming (inbuf ?t) ! 2 = 0" "incoming (inbuf ?t) ! 3 = 0"
    by (simp_all add: example_recorder_def iinv_def incoming_def)
  from zero_length_stalls [OF this, of record_delivery "[]" "[]" "[]"] show ?thesis by blast
qed

section \<open>Sending from the owner\<close>

lemma transmit_advances:
  fixes p :: "'a peer_scheme"
  assumes "transport_ok p" and "arrays_ok (body m)"
  shows "\<exists>p'. peer_transmit_message host p m = Some (0, p') \<and> advances p p' \<and> peer.more p' = peer.more p"
proof -
  obtain rc p1 where e: "enqueue_output_message host p m = Some (rc, p1)" "advances p p1"
    "rl_transport.more p1 = rl_transport.more p"
    using enqueue_advances [OF assms] by blast
  have "state_rank (peer_state p) \<le> 3" by (cases "peer_state p") simp_all
  moreover have "peer.more p1 = peer.more p" using more_fields(9) [OF e(3)] .
  ultimately show ?thesis
    using e(1,2) assms(1)
    by (cases "peer_state p")
      (auto simp: peer_transmit_message_def invoke_action_def dispatch_def on_transmit_message_def set_state_quiet
        advances_def)
qed

lemma transmit_connected:
  fixes p :: "'a peer_scheme"
  assumes "transport_ok p" and "peer_state p = PEER_CONNECTED" and "mallocs (heap p) = []"
    and "valid_body (body m)" and "msg_size m \<le> 8192"
  shows "\<exists>p'. peer_transmit_message host p m = Some (0, p') \<and> transport_ok p' \<and> queued p p' \<and>
           out_text p' = out_text p @ wire_msg m"
proof -
  obtain p1 where e: "enqueue_output_message host p m = Some (0, p1)" "transport_ok p1" "queued p p1"
    "out_text p1 = out_text p @ wire_msg m"
    using enqueue_wire [OF assms(1,4,5), of host] assms(3) by auto
  then show ?thesis
    using assms(2)
    by (auto simp: peer_transmit_message_def invoke_action_def dispatch_def on_transmit_message_def)
qed

text \<open>The owner's data does not matter to the peer: \<open>peer.truncate\<close> is the peer alone.\<close>

lemma trunc_fields:
  fixes p q :: "'a peer_scheme"
  assumes "peer.truncate q = peer.truncate p"
  shows "inbuf q = inbuf p" "out_queue q = out_queue p" "out_tail q = out_tail p"
    "num_free_buffers q = num_free_buffers p" "next_free_buffer q = next_free_buffer p" "t_error q = t_error p"
    "disconnect q = disconnect p" "heap q = heap p" "sock q = sock p" "peer_state q = peer_state p"
    "init_mode q = init_mode p" "peer_index q = peer_index p"
  using assms by (cases p, cases q, simp add: peer.truncate_def)+

lemma trunc_ok:
  fixes p q :: "'a peer_scheme"
  assumes "peer.truncate q = peer.truncate p"
  shows "transport_ok q = transport_ok p" "out_text q = out_text p" "advances q r = advances p r"
  using trunc_fields [OF assms]
  by (auto simp: transport_ok_def tinv_def out_text_def queue_of_def pend_def advances_def)

lemma trunc_advances:
  "peer.truncate q = peer.truncate p \<Longrightarrow> advances r q = advances r p" for p q :: "'a peer_scheme"
  using trunc_fields [of q p] trunc_ok [of q p] by (simp add: advances_def)

end
