(* ===== verification/Rl_Amigafs.thy ===== *)
theory Rl_Amigafs
  imports Rl_Peer
begin

unbundle bit_operations_syntax

text \<open>
  The file system that the target mounts on the Amiga (\<^verbatim>\<open>src/src/amigafs.c\<close>, \<^verbatim>\<open>amigafs.h\<close>): packets
  of AmigaDOS come in at the device port, become requests to the controller, wait as pending
  operations and are replied to when the answer has come.

  What the code reaches through pointers lives in stores keyed by 32-bit addresses: locks,
  client handles, packets, the file handles, information blocks and buffers of the client
  programs. A lookup that fails is an access to memory the code does not own; the operation
  is then \<open>None\<close>. A packet leaves the store when it is replied to (it then belongs to its
  sender again), a lock or a handle when it is freed. The pending operations, linked through
  \<^verbatim>\<open>next\<close> in the code, are the list of the operations with their addresses in the order of
  the chain. The log lines are left out.
\<close>

section \<open>AmigaDOS\<close>

type_synonym addr = rl_uint32
type_synonym LONG = rl_uint32

definition DOSTRUE :: LONG where "DOSTRUE = - 1"
definition DOSFALSE :: LONG where "DOSFALSE = 0"

definition SHARED_LOCK :: LONG where "SHARED_LOCK = - 2"
definition EXCLUSIVE_LOCK :: LONG where "EXCLUSIVE_LOCK = - 1"

definition OFFSET_BEGINNING :: LONG where "OFFSET_BEGINNING = - 1"
definition OFFSET_CURRENT :: LONG where "OFFSET_CURRENT = 0"
definition OFFSET_END :: LONG where "OFFSET_END = 1"

definition ACTION_READ :: LONG where "ACTION_READ = 82"
definition ACTION_WRITE :: LONG where "ACTION_WRITE = 87"
definition ACTION_FINDINPUT :: LONG where "ACTION_FINDINPUT = 1005"
definition ACTION_FINDOUTPUT :: LONG where "ACTION_FINDOUTPUT = 1006"
definition ACTION_END :: LONG where "ACTION_END = 1007"
definition ACTION_SEEK :: LONG where "ACTION_SEEK = 1008"
definition ACTION_IS_FILESYSTEM :: LONG where "ACTION_IS_FILESYSTEM = 1027"

definition ERROR_NO_FREE_STORE :: LONG where "ERROR_NO_FREE_STORE = 103"
definition ERROR_OBJECT_IN_USE :: LONG where "ERROR_OBJECT_IN_USE = 202"
definition ERROR_OBJECT_NOT_FOUND :: LONG where "ERROR_OBJECT_NOT_FOUND = 205"
definition ERROR_ACTION_NOT_KNOWN :: LONG where "ERROR_ACTION_NOT_KNOWN = 209"
definition ERROR_INVALID_LOCK :: LONG where "ERROR_INVALID_LOCK = 211"
definition ERROR_OBJECT_WRONG_TYPE :: LONG where "ERROR_OBJECT_WRONG_TYPE = 212"
definition ERROR_DISK_NOT_VALIDATED :: LONG where "ERROR_DISK_NOT_VALIDATED = 213"
definition ERROR_DEVICE_NOT_MOUNTED :: LONG where "ERROR_DEVICE_NOT_MOUNTED = 218"
definition ERROR_SEEK_ERROR :: LONG where "ERROR_SEEK_ERROR = 219"
definition ERROR_WRITE_PROTECTED :: LONG where "ERROR_WRITE_PROTECTED = 223"
definition ERROR_NOT_A_DOS_DISK :: LONG where "ERROR_NOT_A_DOS_DISK = 225"
definition ERROR_NO_MORE_ENTRIES :: LONG where "ERROR_NO_MORE_ENTRIES = 232"

record DosPacket =
  dp_Port :: addr
  dp_Type :: LONG
  dp_Res1 :: LONG
  dp_Res2 :: LONG
  dp_Arg1 :: LONG
  dp_Arg2 :: LONG
  dp_Arg3 :: LONG

record FileHandle =
  fh_Type :: addr
  fh_Arg1 :: LONG

record FileInfoBlock =
  fib_DiskKey :: LONG
  fib_DirEntryType :: LONG
  fib_FileName :: "rl_uint8 list"
  fib_Protection :: LONG
  fib_EntryType :: LONG
  fib_Size :: LONG
  fib_NumBlocks :: LONG
  fib_Date :: rl_uint32
  fib_Comment :: "rl_uint8 list"

text \<open>A block after \<^verbatim>\<open>rl_memset(fib, 0, sizeof(*fib))\<close>; of the names only the bytes written are kept.\<close>

definition zero_fib :: FileInfoBlock where
  "zero_fib = \<lparr>fib_DiskKey = 0, fib_DirEntryType = 0, fib_FileName = [], fib_Protection = 0, fib_EntryType = 0,
               fib_Size = 0, fib_NumBlocks = 0, fib_Date = 0, fib_Comment = []\<rparr>"

record InfoData =
  id_NumSoftErrors :: LONG
  id_UnitNumber :: LONG
  id_DiskState :: LONG
  id_NumBlocks :: LONG
  id_NumBlocksUsed :: LONG
  id_BytesPerBlock :: LONG
  id_DiskType :: LONG
  id_VolumeNode :: LONG
  id_InUse :: LONG

record DeviceList =
  dl_Name :: cstring
  dl_VolumeDate :: rl_uint32
  dl_Lock :: LONG
  dl_Task :: addr
  dl_DiskType :: LONG

definition ID_VALIDATED :: LONG where "ID_VALIDATED = 82"
definition ID_DOS_DISK :: LONG where "ID_DOS_DISK = 0x444F5300"
definition ID_FFS_DISK :: LONG where "ID_FFS_DISK = 0x444F5301"
definition ST_ROOT :: LONG where "ST_ROOT = 1"
definition FIBF_WRITE :: LONG where "FIBF_WRITE = 4"
definition FIBF_DELETE :: LONG where "FIBF_DELETE = 1"

text \<open>BCPL pointers are addresses divided by four; \<^verbatim>\<open>BPTR\<close> to pointer and back.\<close>

definition BCPL_CAST :: "LONG \<Rightarrow> addr" where "BCPL_CAST b = push_bit 2 b"
definition MKBADDR :: "addr \<Rightarrow> LONG" where "MKBADDR a = signed_drop_bit 2 a"

text \<open>A BCPL string: a length byte and the characters.\<close>

definition BSTR_LEN :: "mem \<Rightarrow> addr \<Rightarrow> nat" where "BSTR_LEN m a = unat (m (unat a))"
definition BSTR_PTR :: "addr \<Rightarrow> addr" where "BSTR_PTR a = a + 1"

text \<open>The C string at an address.\<close>

definition cstr :: "mem \<Rightarrow> addr \<Rightarrow> cstring option" where
  "cstr m a = map_option (mread m (unat a)) (rl_strlen m (unat a))"

section \<open>Data\<close>

definition RL_FSCLIENT_MAX_PATH :: nat where "RL_FSCLIENT_MAX_PATH = 108"
definition RL_AMIGA_PATH_MAX :: nat where "RL_AMIGA_PATH_MAX = 108"

datatype rl_client_handle_type =
    RL_HANDLE_FILE | RL_HANDLE_DIR | RL_HANDLE_VIRTUAL_INPUT | RL_HANDLE_VIRTUAL_OUTPUT | RL_HANDLE_DEVICE

definition RL_CLIENT_FLAG_FILE_ENUM_IN_PROGRESS :: rl_uint32 where "RL_CLIENT_FLAG_FILE_ENUM_IN_PROGRESS = 1"

record rl_client_handle =
  handle_id :: rl_uint32
  ch_type :: rl_client_handle_type
  offset_lo :: rl_uint32
  offset_hi :: rl_uint32
  size_lo :: rl_uint32
  ch_flags :: rl_uint32
  ch_path :: cstring
  buffer_start :: rl_uint32
  buffer_len :: rl_uint32
  ch_buffer :: mem

definition new_handle :: "rl_client_handle_type \<Rightarrow> rl_uint32 \<Rightarrow> rl_uint32 \<Rightarrow> cstring \<Rightarrow> rl_client_handle" where
  "new_handle ty hid sz path =
     \<lparr>handle_id = hid, ch_type = ty, offset_lo = 0, offset_hi = 0, size_lo = sz, ch_flags = 0, ch_path = path,
      buffer_start = 0, buffer_len = 0, ch_buffer = (\<lambda>_. 0)\<rparr>"

text \<open>\<^verbatim>\<open>fl_Key\<close> points to a handle: to the one inside the file system structure, or to an allocated one.\<close>

datatype handle_ptr = Root_handle | Client_handle addr

record FileLock =
  fl_Key :: handle_ptr
  fl_Access :: LONG
  fl_Task :: addr
  fl_Volume :: LONG

datatype completion =
    complete_findinput_fn | complete_examine_next_fn | complete_locate_object_fn | complete_read_fn | complete_write_fn

record rl_pending_operation =
  request_seqno :: rl_uint32
  input_packet :: addr
  expected_answer_type :: nat
  op_callback :: completion
  destination :: addr
  w_source :: addr
  w_length :: rl_uint32

text \<open>The order to a launcher process.\<close>

record launch_msg =
  lm_peer_index :: int
  command_path :: cstring
  input_path :: cstring
  output_path :: cstring
  lm_arguments :: cstring
  root_lock :: addr
  result_code :: LONG

text \<open>
  The file system with its peer. \<open>replies\<close> is the sequence of the packets that were put to a
  reply port; \<open>allocs\<close> are the addresses the next allocations return, where 0 is a failure;
  \<open>device_queue\<close> is what waits at the device port. \<open>launched\<close> are the orders sent to launcher
  processes, \<open>order_mem\<close> the memory of orders not sent yet, and \<open>spawns\<close> whether the next processes can be created.
\<close>

record rl_amigafs = peer +
  seqno :: rl_uint32
  device_port :: addr
  device_list :: addr
  volume :: DeviceList
  pending :: "(addr \<times> rl_pending_operation) list"
  fs_root_handle :: rl_client_handle
  locks :: "addr \<rightharpoonup> FileLock"
  client_handles :: "addr \<rightharpoonup> rl_client_handle"
  packets :: "addr \<rightharpoonup> DosPacket"
  file_handles :: "addr \<rightharpoonup> FileHandle"
  fibs :: "addr \<rightharpoonup> FileInfoBlock"
  infodatas :: "addr \<rightharpoonup> InfoData"
  client_mem :: mem
  allocs :: "addr list"
  device_queue :: "addr list"
  replies :: "(addr \<times> addr \<times> DosPacket) list"
  spawns :: "bool list"
  launched :: "launch_msg list"
  order_mem :: "addr list"

definition alloc_zeroed :: "rl_amigafs \<Rightarrow> addr \<times> rl_amigafs" where
  "alloc_zeroed fs = (case allocs fs of [] \<Rightarrow> (0, fs) | a # as \<Rightarrow> (a, fs\<lparr>allocs := as\<rparr>))"

definition handle_at :: "rl_amigafs \<Rightarrow> handle_ptr \<Rightarrow> rl_client_handle option" where
  "handle_at fs h = (case h of Root_handle \<Rightarrow> Some (fs_root_handle fs) | Client_handle a \<Rightarrow> client_handles fs a)"

definition update_handle ::
  "rl_amigafs \<Rightarrow> handle_ptr \<Rightarrow> (rl_client_handle \<Rightarrow> rl_client_handle) \<Rightarrow> rl_amigafs" where
  "update_handle fs h f =
     (case h of
        Root_handle \<Rightarrow> fs\<lparr>fs_root_handle := f (fs_root_handle fs)\<rparr>
      | Client_handle a \<Rightarrow>
          fs\<lparr>client_handles := (client_handles fs)(a := map_option f (client_handles fs a))\<rparr>)"

definition HANDLE_FROM_LOCK :: "rl_amigafs \<Rightarrow> addr \<Rightarrow> handle_ptr option" where
  "HANDLE_FROM_LOCK fs lock = map_option fl_Key (locks fs lock)"

section \<open>Helpers\<close>

text \<open>The part of a name behind the first colon, or all of it.\<close>

definition drop_device :: "cstring \<Rightarrow> cstring" where
  "drop_device name = (case dropWhile (\<lambda>c. c \<noteq> of_char CHR '':'') name of [] \<Rightarrow> name | _ # rest \<Rightarrow> rest)"

text \<open>
  A name of 108 bytes or more is written beyond \<open>item_path\<close>: \<open>None\<close>.
\<close>

definition normalize_object_path :: "rl_amigafs \<Rightarrow> nat \<Rightarrow> addr \<Rightarrow> addr \<Rightarrow> cstring option" where
  "normalize_object_path fs bufsize dir_lock object_name_bstr = do {
     handle \<leftarrow> (if dir_lock = 0 then Some Root_handle else HANDLE_FROM_LOCK fs dir_lock);
     let len = BSTR_LEN (client_mem fs) object_name_bstr;
     if len < RL_AMIGA_PATH_MAX
     then do {
       let item_path = takeWhile (\<lambda>c. c \<noteq> 0) (mread (client_mem fs) (unat (BSTR_PTR object_name_bstr)) len);
       let handle = (if of_char CHR '':'' \<in> set item_path then Root_handle else handle);
       let item_path = drop_device item_path;
       if handle \<noteq> Root_handle
       then do {
         h \<leftarrow> handle_at fs handle;
         formatted Amiga bufsize (lit ''%s/%s'') [AStr (ch_path h), AStr item_path]
       }
       else formatted Amiga bufsize (lit ''%s'') [AStr item_path]
     }
     else None
   }"

definition alloc_pending ::
  "rl_amigafs \<Rightarrow> addr \<Rightarrow> nat \<Rightarrow> completion \<Rightarrow> (addr \<times> rl_pending_operation) option \<times> rl_amigafs" where
  "alloc_pending fs packet expected callback =
     (case alloc_zeroed fs of
        (a, fs) \<Rightarrow>
          if a = 0 then (None, fs)
          else
            let op = \<lparr>request_seqno = seqno fs, input_packet = packet, expected_answer_type = expected,
                      op_callback = callback, destination = 0, w_source = 0, w_length = 0\<rparr>
            in (Some (a, op), fs\<lparr>seqno := seqno fs + 1, pending := (a, op) # pending fs\<rparr>))"

definition construct_bstr :: "int \<Rightarrow> cstring \<Rightarrow> rl_uint8 list" where
  "construct_bstr max_size input =
     (let len = (if int (length input) > max_size - 2 then nat (max_size - 2) else length input)
      in of_nat len # take len input @ [0])"

fun remove_op :: "addr \<Rightarrow> (addr \<times> rl_pending_operation) list \<Rightarrow> (addr \<times> rl_pending_operation) list" where
  "remove_op target [] = []"
| "remove_op target (op # ops) = (if fst op = target then ops else op # remove_op target ops)"

text \<open>
  An operation is allocated as long as its entry is in the chain: \<open>alloc_pending\<close> links what it
  allocates, and \<open>unlink_pending\<close>, the only function that frees an operation, takes the entry out. So the one
  update stands for the unlinking and for \<^verbatim>\<open>RL_FREE_TYPED\<close>, and a later access to the address finds nothing.
\<close>

definition unlink_pending :: "rl_amigafs \<Rightarrow> addr \<Rightarrow> rl_amigafs" where
  "unlink_pending fs target = fs\<lparr>pending := remove_op target (pending fs)\<rparr>"

text \<open>Changes of an operation that stays in the chain.\<close>

definition update_op :: "rl_amigafs \<Rightarrow> addr \<Rightarrow> (rl_pending_operation \<Rightarrow> rl_pending_operation) \<Rightarrow> rl_amigafs" where
  "update_op fs a f = fs\<lparr>pending := map (\<lambda>(b, op). (b, if b = a then f op else op)) (pending fs)\<rparr>"

definition reply_to_packet :: "rl_amigafs \<Rightarrow> addr \<Rightarrow> rl_amigafs option" where
  "reply_to_packet fs p = do {
     packet \<leftarrow> packets fs p;
     let reply_port = dp_Port packet;
     Some (fs\<lparr>packets := (packets fs)(p := None),
              replies := replies fs @ [(reply_port, p, packet\<lparr>dp_Port := device_port fs\<rparr>)]\<rparr>)
   }"

text \<open>Setting both results and replying, the way every handler ends.\<close>

definition reply :: "rl_amigafs \<Rightarrow> addr \<Rightarrow> LONG \<Rightarrow> LONG \<Rightarrow> rl_amigafs option" where
  "reply fs p res1 res2 =
     reply_to_packet
       (fs\<lparr>packets := (packets fs)(p := map_option (\<lambda>pk. pk\<lparr>dp_Res1 := res1, dp_Res2 := res2\<rparr>) (packets fs p))\<rparr>) p"

definition rl_amigafs_alloc_root_lock :: "rl_amigafs \<Rightarrow> LONG \<Rightarrow> addr \<times> rl_amigafs" where
  "rl_amigafs_alloc_root_lock fs mode =
     (case alloc_zeroed fs of
        (lock, fs) \<Rightarrow>
          if lock = 0 then (0, fs)
          else (lock, fs\<lparr>locks := (locks fs)(lock \<mapsto>
                  \<lparr>fl_Key = Root_handle, fl_Access = mode, fl_Task = device_port fs,
                   fl_Volume = MKBADDR (device_list fs)\<rparr>)\<rparr>))"

definition allocate_lock ::
  "rl_amigafs \<Rightarrow> rl_client_handle_type \<Rightarrow> rl_uint32 \<Rightarrow> LONG \<Rightarrow> cstring \<Rightarrow> rl_uint32 \<Rightarrow> (addr \<times> rl_amigafs) option" where
  "allocate_lock fs ty hid acc name sz =
     (case alloc_zeroed fs of
        (lock, fs) \<Rightarrow>
          if lock = 0 then Some (0, fs)
          else
            (case alloc_zeroed fs of
               (handle, fs) \<Rightarrow>
                 if handle = 0 then Some (0, fs)
                 else do {
                   path \<leftarrow> copied RL_FSCLIENT_MAX_PATH name;
                   Some (lock, fs\<lparr>client_handles := (client_handles fs)(handle \<mapsto> new_handle ty hid sz path),
                                  locks := (locks fs)(lock \<mapsto>
                                    \<lparr>fl_Key = Client_handle handle, fl_Access = acc, fl_Task = device_port fs,
                                     fl_Volume = MKBADDR (device_list fs)\<rparr>)\<rparr>)
                 }))"

definition rl_amigafs_free_lock :: "host \<Rightarrow> rl_amigafs \<Rightarrow> addr \<Rightarrow> rl_amigafs option" where
  "rl_amigafs_free_lock host fs lock = do {
     key \<leftarrow> HANDLE_FROM_LOCK fs lock;
     handle \<leftarrow> handle_at fs key;
     fs \<leftarrow>
       (if ch_type handle \<noteq> RL_HANDLE_DEVICE
        then do {
          let close = (RL_MSG_INIT (Close_handle_request (handle_id handle)))\<lparr>hdr_seq := seqno fs\<rparr>;
          (_, fs) \<leftarrow> peer_transmit_message host (fs\<lparr>seqno := seqno fs + 1\<rparr>) close;
          (case key of
             Root_handle \<Rightarrow> None
           | Client_handle a \<Rightarrow> Some (fs\<lparr>client_handles := (client_handles fs)(a := None)\<rparr>))
        }
        else Some fs);
     Some (fs\<lparr>locks := (locks fs)(lock := None)\<rparr>)
   }"

section \<open>Packets that are replied to at once\<close>

type_synonym packet_handler_fn = "host \<Rightarrow> rl_amigafs \<Rightarrow> addr \<Rightarrow> rl_amigafs option"

definition action_is_filesystem :: packet_handler_fn where
  "action_is_filesystem host fs p = reply fs p DOSTRUE 0"

definition action_flush :: packet_handler_fn where
  "action_flush host fs p = reply fs p DOSTRUE 0"

definition action_set_protect :: packet_handler_fn where
  "action_set_protect host fs p = reply fs p DOSFALSE ERROR_WRITE_PROTECTED"

text \<open>This packet is never replied to.\<close>

definition action_die :: packet_handler_fn where
  "action_die host fs p = Some fs"

definition action_current_volume :: packet_handler_fn where
  "action_current_volume host fs p = reply fs p (MKBADDR (device_list fs)) 0"

definition action_delete_object :: packet_handler_fn where
  "action_delete_object host fs p = reply fs p DOSFALSE 0"

definition action_inhibit :: packet_handler_fn where
  "action_inhibit host fs p = reply fs p DOSFALSE 0"

definition action_rename_disk :: packet_handler_fn where
  "action_rename_disk host fs p = reply fs p DOSFALSE 0"

definition action_rename_object :: packet_handler_fn where
  "action_rename_object host fs p = reply fs p DOSFALSE 0"

definition action_create_dir :: packet_handler_fn where
  "action_create_dir host fs p = reply fs p DOSFALSE 0"

definition action_set_comment :: packet_handler_fn where
  "action_set_comment host fs p = reply fs p DOSFALSE 0"

definition action_set_file_date :: packet_handler_fn where
  "action_set_file_date host fs p = reply fs p DOSFALSE 0"

definition fill_in_infodata :: "rl_amigafs \<Rightarrow> addr \<Rightarrow> rl_amigafs" where
  "fill_in_infodata fs info =
     fs\<lparr>infodatas := (infodatas fs)(info \<mapsto>
          \<lparr>id_NumSoftErrors = 0, id_UnitNumber = 1, id_DiskState = ID_VALIDATED, id_NumBlocks = 1000,
           id_NumBlocksUsed = 500, id_BytesPerBlock = 1, id_DiskType = ID_FFS_DISK,
           id_VolumeNode = MKBADDR (device_list fs), id_InUse = 0\<rparr>)\<rparr>"

definition action_disk_info :: packet_handler_fn where
  "action_disk_info host fs p = do {
     packet \<leftarrow> packets fs p;
     reply (fill_in_infodata fs (BCPL_CAST (dp_Arg1 packet))) p DOSTRUE 0
   }"

definition action_info :: packet_handler_fn where
  "action_info host fs p = do {
     packet \<leftarrow> packets fs p;
     let lock = BCPL_CAST (dp_Arg1 packet);
     if lock = 0 then reply fs p DOSFALSE ERROR_INVALID_LOCK
     else do {
       l \<leftarrow> locks fs lock;
       if fl_Volume l \<noteq> MKBADDR (device_list fs) then reply fs p DOSFALSE ERROR_INVALID_LOCK
       else if fl_Key l = Root_handle
       then reply (fill_in_infodata fs (BCPL_CAST (dp_Arg2 packet))) p DOSTRUE 0
       else reply fs p DOSFALSE ERROR_OBJECT_NOT_FOUND
     }
   }"

text \<open>The name of the volume is copied with its length byte into 108 bytes.\<close>

definition action_examine_object :: packet_handler_fn where
  "action_examine_object host fs p = do {
     packet \<leftarrow> packets fs p;
     let lock = BCPL_CAST (dp_Arg1 packet);
     let fib = BCPL_CAST (dp_Arg2 packet);
     key \<leftarrow> (if lock \<noteq> 0 then HANDLE_FROM_LOCK fs lock else Some Root_handle);
     (case key of
        Root_handle \<Rightarrow>
          if length (dl_Name (volume fs)) < 108
          then reply
                 (fs\<lparr>fibs := (fibs fs)(fib \<mapsto> zero_fib\<lparr>fib_EntryType := ST_ROOT, fib_DirEntryType := ST_ROOT,
                      fib_FileName := of_nat (length (dl_Name (volume fs))) # dl_Name (volume fs),
                      fib_Date := dl_VolumeDate (volume fs),
                      fib_Comment := construct_bstr 80 (lit ''This is a remote launch device'')\<rparr>)\<rparr>) p DOSTRUE 0
          else None
      | Client_handle a \<Rightarrow> do {
          handle \<leftarrow> client_handles fs a;
          reply
            (fs\<lparr>fibs := (fibs fs)(fib \<mapsto> zero_fib\<lparr>
                 fib_DirEntryType := (if ch_type handle = RL_HANDLE_FILE then - 1 else 1),
                 fib_FileName := construct_bstr 108 (ch_path handle), fib_Size := size_lo handle,
                 fib_NumBlocks := size_lo handle, fib_Comment := [0]\<rparr>)\<rparr>) p DOSTRUE 0
        })
   }"

section \<open>Locks\<close>

definition action_free_lock :: packet_handler_fn where
  "action_free_lock host fs p = do {
     packet \<leftarrow> packets fs p;
     let lock = BCPL_CAST (dp_Arg1 packet);
     if lock \<noteq> 0
     then do {
       fs \<leftarrow> rl_amigafs_free_lock host fs lock;
       reply fs p DOSTRUE 0
     }
     else reply fs p DOSFALSE ERROR_OBJECT_NOT_FOUND
   }"

definition action_end :: packet_handler_fn where
  "action_end host fs p = do {
     packet \<leftarrow> packets fs p;
     fs \<leftarrow> rl_amigafs_free_lock host fs (dp_Arg1 packet);
     reply fs p DOSTRUE 0
   }"

definition action_copy_dir :: packet_handler_fn where
  "action_copy_dir host fs p = do {
     packet \<leftarrow> packets fs p;
     let lock = BCPL_CAST (dp_Arg1 packet);
     if lock \<noteq> 0
     then do {
       key \<leftarrow> HANDLE_FROM_LOCK fs lock;
       handle \<leftarrow> handle_at fs key;
       (copy, fs) \<leftarrow>
         (if ch_type handle = RL_HANDLE_DEVICE
          then Some (rl_amigafs_alloc_root_lock fs SHARED_LOCK)
          else allocate_lock fs (ch_type handle) (handle_id handle) SHARED_LOCK (ch_path handle) (size_lo handle));
       if MKBADDR copy = 0 then reply fs p 0 ERROR_NO_FREE_STORE else reply fs p (MKBADDR copy) 0
     }
     else reply fs p 0 ERROR_OBJECT_NOT_FOUND
   }"

text \<open>
  The directory part of a path: the loop looks for the last slash. \<open>None\<close>: there is none
  behind the first byte, and the parent is the root.
\<close>

definition parent_path :: "cstring \<Rightarrow> cstring option" where
  "parent_path path =
     (let n = length (dropWhile (\<lambda>c. c \<noteq> of_char CHR ''/'') (rev path))
      in if n \<le> 1 then None else Some (take (n - 1) path))"

text \<open>The handle is read through the lock before the test for NULL.\<close>

definition action_parent :: packet_handler_fn where
  "action_parent host fs p = do {
     packet \<leftarrow> packets fs p;
     key \<leftarrow> HANDLE_FROM_LOCK fs (BCPL_CAST (dp_Arg1 packet));
     (case key of
        Root_handle \<Rightarrow> reply fs p DOSFALSE ERROR_OBJECT_NOT_FOUND
      | Client_handle a \<Rightarrow> do {
          handle \<leftarrow> client_handles fs a;
          path \<leftarrow> copied 108 (ch_path handle);
          (result_lock, fs) \<leftarrow>
            (case parent_path path of
               None \<Rightarrow> Some (rl_amigafs_alloc_root_lock fs SHARED_LOCK)
             | Some parent \<Rightarrow> allocate_lock fs RL_HANDLE_DIR (- 1) SHARED_LOCK parent 0);
          if result_lock \<noteq> 0 then reply fs p (MKBADDR result_lock) 0
          else reply fs p DOSFALSE ERROR_OBJECT_NOT_FOUND
        })
   }"

section \<open>Opening\<close>

definition RLAUNCH_VIRTUAL_INPUT_FILE :: cstring where "RLAUNCH_VIRTUAL_INPUT_FILE = lit ''+virtual-input+''"
definition RLAUNCH_VIRTUAL_OUTPUT_FILE :: cstring where "RLAUNCH_VIRTUAL_OUTPUT_FILE = lit ''+virtual-output+''"

definition RL_MSG_OPEN_HANDLE_ANSWER :: nat where "RL_MSG_OPEN_HANDLE_ANSWER = kind_of (Open_handle_answer 0 0 0)"
definition RL_MSG_FIND_NEXT_FILE_ANSWER :: nat where "RL_MSG_FIND_NEXT_FILE_ANSWER = kind_of (Find_next_file_answer 0 0 [] 0)"
definition RL_MSG_READ_FILE_ANSWER :: nat where "RL_MSG_READ_FILE_ANSWER = kind_of (Read_file_answer [])"
definition RL_MSG_WRITE_FILE_ANSWER :: nat where "RL_MSG_WRITE_FILE_ANSWER = kind_of Write_file_answer"
definition RL_MSG_ERROR_ANSWER :: nat where "RL_MSG_ERROR_ANSWER = kind_of (Error_answer 0)"

text \<open>Filling in the file handle of the program that opens a file.\<close>

definition fill_file_handle :: "rl_amigafs \<Rightarrow> addr \<Rightarrow> addr \<Rightarrow> rl_amigafs" where
  "fill_file_handle fs fh lock = fs\<lparr>file_handles := (file_handles fs)(fh \<mapsto> \<lparr>fh_Type = device_port fs, fh_Arg1 = lock\<rparr>)\<rparr>"

text \<open>
  The two open handlers read the directory's handle out of the lock in \<^verbatim>\<open>dp_Arg2\<close> before anything
  else, without a test: \<open>None\<close> when there is no lock there, which includes the null lock. The handle
  itself is only used in a log line; the name is not put behind its path.
\<close>

definition action_findinput :: packet_handler_fn where
  "action_findinput host fs p = do {
     packet \<leftarrow> packets fs p;
     dir_handle \<leftarrow> HANDLE_FROM_LOCK fs (BCPL_CAST (dp_Arg2 packet));
     let filename_bstr = BCPL_CAST (dp_Arg3 packet);
     name \<leftarrow> cstr (client_mem fs) (BSTR_PTR filename_bstr);
     let filename_cstr = drop_device name;
     if filename_cstr = RLAUNCH_VIRTUAL_INPUT_FILE
     then do {
       (file_lock, fs) \<leftarrow> allocate_lock fs RL_HANDLE_VIRTUAL_INPUT RL_FILEHANDLE_VIRTUAL_INPUT SHARED_LOCK name 0;
       if file_lock = 0 then reply fs p DOSFALSE ERROR_NO_FREE_STORE
       else reply (fill_file_handle fs (BCPL_CAST (dp_Arg1 packet)) file_lock) p DOSTRUE 0
     }
     else
       (case alloc_pending fs p RL_MSG_OPEN_HANDLE_ANSWER complete_findinput_fn of
          (None, fs) \<Rightarrow> reply fs p DOSFALSE ERROR_NO_FREE_STORE
        | (Some (a, op), fs) \<Rightarrow> do {
            (rc, fs) \<leftarrow> peer_transmit_message host fs
                          ((RL_MSG_INIT (Open_handle_request filename_cstr RL_OPENFLAG_READ))\<lparr>hdr_seq := request_seqno op\<rparr>);
            if rc \<noteq> 0 then reply (unlink_pending fs a) p DOSFALSE 0 else Some fs
          })
   }"

type_synonym rl_completion_callback_fn =
  "host \<Rightarrow> rl_amigafs \<Rightarrow> addr \<times> rl_pending_operation \<Rightarrow> rl_msg \<Rightarrow> rl_amigafs option"

definition complete_findinput :: rl_completion_callback_fn where
  "complete_findinput host fs aop msg = do {
     let (a, op) = aop;
     let p = input_packet op;
     packet \<leftarrow> packets fs p;
     (case body msg of
        Open_handle_answer handle sz ty \<Rightarrow> do {
          name \<leftarrow> cstr (client_mem fs) (BSTR_PTR (BCPL_CAST (dp_Arg3 packet)));
          (res1, res2, fs) \<leftarrow>
            (if ty \<noteq> RL_NODE_TYPE_FILE then Some (DOSFALSE, ERROR_OBJECT_WRONG_TYPE, fs)
             else do {
               (file_lock, fs) \<leftarrow> allocate_lock fs RL_HANDLE_FILE handle SHARED_LOCK name sz;
               if file_lock = 0 then Some (DOSFALSE, ERROR_NO_FREE_STORE, fs)
               else Some (DOSTRUE, 0, fill_file_handle fs (BCPL_CAST (dp_Arg1 packet)) file_lock)
             });
          fs \<leftarrow>
            (if res1 = DOSFALSE
             then map_option snd (peer_transmit_message host (fs\<lparr>seqno := seqno fs + 1\<rparr>)
                    ((RL_MSG_INIT (Close_handle_request handle))\<lparr>hdr_seq := seqno fs\<rparr>))
             else Some fs);
          fs \<leftarrow> reply fs p res1 res2;
          Some (unlink_pending fs a)
        }
      | _ \<Rightarrow> None)
   }"

definition action_findoutput :: packet_handler_fn where
  "action_findoutput host fs p = do {
     packet \<leftarrow> packets fs p;
     dir_handle \<leftarrow> HANDLE_FROM_LOCK fs (BCPL_CAST (dp_Arg2 packet));
     name \<leftarrow> cstr (client_mem fs) (BSTR_PTR (BCPL_CAST (dp_Arg3 packet)));
     if drop_device name \<noteq> RLAUNCH_VIRTUAL_OUTPUT_FILE then reply fs p DOSFALSE 0
     else do {
       (file_lock, fs) \<leftarrow> allocate_lock fs RL_HANDLE_VIRTUAL_OUTPUT RL_FILEHANDLE_VIRTUAL_OUTPUT EXCLUSIVE_LOCK name 0;
       if file_lock = 0 then reply fs p DOSFALSE 0
       else reply (fill_file_handle fs (BCPL_CAST (dp_Arg1 packet)) file_lock) p DOSTRUE 0
     }
   }"

text \<open>
  When there is no memory for a lock on the root, the code goes to its clean-up with
  \<open>pending_op\<close> never set: \<open>None\<close>.
\<close>

definition action_locate_object :: packet_handler_fn where
  "action_locate_object host fs p = do {
     packet \<leftarrow> packets fs p;
     full_path \<leftarrow> normalize_object_path fs RL_AMIGA_PATH_MAX (BCPL_CAST (dp_Arg1 packet)) (BCPL_CAST (dp_Arg2 packet));
     if full_path = []
     then
       (case rl_amigafs_alloc_root_lock fs (dp_Arg3 packet) of
          (result_lock, fs) \<Rightarrow> if result_lock = 0 then None else reply fs p (MKBADDR result_lock) 0)
     else
       (case alloc_pending fs p RL_MSG_OPEN_HANDLE_ANSWER complete_locate_object_fn of
          (None, fs) \<Rightarrow> reply fs p DOSFALSE ERROR_NO_FREE_STORE
        | (Some (a, op), fs) \<Rightarrow> do {
            (rc, fs) \<leftarrow> peer_transmit_message host fs
                          ((RL_MSG_INIT (Open_handle_request full_path RL_OPENFLAG_READ))\<lparr>hdr_seq := request_seqno op\<rparr>);
            if rc \<noteq> 0 then reply (unlink_pending fs a) p DOSFALSE ERROR_NOT_A_DOS_DISK else Some fs
          })
   }"

definition complete_locate_object :: rl_completion_callback_fn where
  "complete_locate_object host fs aop msg = do {
     let (a, op) = aop;
     let p = input_packet op;
     packet \<leftarrow> packets fs p;
     (case body msg of
        Open_handle_answer handle sz ty \<Rightarrow> do {
          full_path \<leftarrow> normalize_object_path fs RL_AMIGA_PATH_MAX (BCPL_CAST (dp_Arg1 packet)) (BCPL_CAST (dp_Arg2 packet));
          (lock, fs) \<leftarrow> allocate_lock fs (if ty = RL_NODE_TYPE_DIRECTORY then RL_HANDLE_DIR else RL_HANDLE_FILE)
                          handle 0 full_path sz;
          fs \<leftarrow> (if lock \<noteq> 0 then reply fs p (MKBADDR lock) 0 else reply fs p 0 ERROR_NO_FREE_STORE);
          Some (unlink_pending fs a)
        }
      | _ \<Rightarrow> None)
   }"

section \<open>Directories\<close>

definition action_examine_next :: packet_handler_fn where
  "action_examine_next host fs p = do {
     packet \<leftarrow> packets fs p;
     key \<leftarrow> HANDLE_FROM_LOCK fs (BCPL_CAST (dp_Arg1 packet));
     handle \<leftarrow> handle_at fs key;
     (case alloc_pending fs p RL_MSG_FIND_NEXT_FILE_ANSWER complete_examine_next_fn of
        (None, fs) \<Rightarrow> reply fs p DOSFALSE ERROR_NO_FREE_STORE
      | (Some (a, op), fs) \<Rightarrow> do {
          (rc, fs) \<leftarrow> peer_transmit_message host fs
                        ((RL_MSG_INIT (Find_next_file_request (handle_id handle)
                            (if ch_flags handle AND RL_CLIENT_FLAG_FILE_ENUM_IN_PROGRESS \<noteq> 0 then 0 else 1)))
                          \<lparr>hdr_seq := request_seqno op\<rparr>);
          if rc \<noteq> 0 then reply (unlink_pending fs a) p DOSFALSE ERROR_DEVICE_NOT_MOUNTED
          else Some (update_handle fs key (\<lambda>h. h\<lparr>ch_flags := ch_flags h OR RL_CLIENT_FLAG_FILE_ENUM_IN_PROGRESS\<rparr>))
        })
   }"

definition complete_examine_next :: rl_completion_callback_fn where
  "complete_examine_next host fs aop msg = do {
     let (a, op) = aop;
     let p = input_packet op;
     packet \<leftarrow> packets fs p;
     key \<leftarrow> HANDLE_FROM_LOCK fs (BCPL_CAST (dp_Arg1 packet));
     (case body msg of
        Find_next_file_answer end_of_sequence ty name sz \<Rightarrow> do {
          fs \<leftarrow>
            (if end_of_sequence \<noteq> 0
             then do {
               _ \<leftarrow> handle_at fs key;
               reply (update_handle fs key (\<lambda>h. h\<lparr>ch_flags := ch_flags h AND NOT RL_CLIENT_FLAG_FILE_ENUM_IN_PROGRESS\<rparr>))
                 p DOSFALSE ERROR_NO_MORE_ENTRIES
             }
             else
               let entry_type = (if ty = RL_NODE_TYPE_DIRECTORY then 1 else - 1)
               in reply
                    (fs\<lparr>fibs := (fibs fs)(BCPL_CAST (dp_Arg2 packet) \<mapsto> zero_fib\<lparr>
                         fib_DirEntryType := entry_type, fib_EntryType := entry_type,
                         fib_FileName := construct_bstr 108 name,
                         fib_Protection := FIBF_WRITE OR FIBF_DELETE, fib_Size := sz, fib_NumBlocks := sz,
                         fib_Comment := [0]\<rparr>)\<rparr>) p DOSTRUE 0);
          Some (unlink_pending fs a)
        }
      | _ \<Rightarrow> None)
   }"

section \<open>Reading\<close>

text \<open>The offset in the buffer and the count, when the position lies inside the buffered range.\<close>

definition buffer_overlap :: "rl_client_handle \<Rightarrow> LONG \<Rightarrow> (rl_uint32 \<times> rl_uint32) option" where
  "buffer_overlap handle bytes_to_read =
     (let lo = buffer_start handle;
          hi = buffer_start handle + buffer_len handle
      in if offset_lo handle < lo then None
         else if hi \<le> offset_lo handle then None
         else Some (offset_lo handle - lo, min (hi - offset_lo handle) bytes_to_read))"

definition transmit_read_request ::
  "host \<Rightarrow> rl_amigafs \<Rightarrow> rl_client_handle \<Rightarrow> rl_uint32 \<Rightarrow> rl_uint32 \<Rightarrow> (int \<times> rl_amigafs) option" where
  "transmit_read_request host fs handle seq count =
     peer_transmit_message host fs
       ((RL_MSG_INIT (Read_file_request (handle_id handle) (offset_hi handle) (offset_lo handle) (max count 4096)))
         \<lparr>hdr_seq := seq\<rparr>)"

text \<open>The part of \<open>action_read\<close> that serves the request from the buffer; the result is what remains.\<close>

definition read_from_buffer :: "rl_amigafs \<Rightarrow> handle_ptr \<Rightarrow> rl_client_handle \<Rightarrow> DosPacket \<Rightarrow> rl_uint32 \<times> rl_amigafs" where
  "read_from_buffer fs key handle packet =
     (case buffer_overlap handle (dp_Arg3 packet) of
        None \<Rightarrow> (dp_Arg3 packet, fs)
      | Some (offset, count) \<Rightarrow>
          (dp_Arg3 packet - count,
           (update_handle fs key (\<lambda>h. h\<lparr>offset_lo := offset_lo h + count\<rparr>))
             \<lparr>client_mem := mwrite (client_mem fs) (unat (dp_Arg2 packet))
                 (mread (ch_buffer handle) (unat offset) (unat count))\<rparr>))"

definition action_read :: packet_handler_fn where
  "action_read host fs p = do {
     packet \<leftarrow> packets fs p;
     key \<leftarrow> HANDLE_FROM_LOCK fs (dp_Arg1 packet);
     handle \<leftarrow> handle_at fs key;
     let (bytes_remaining, fs) = read_from_buffer fs key handle packet;
     if buffer_overlap handle (dp_Arg3 packet) \<noteq> None \<and> bytes_remaining = 0
     then reply fs p (dp_Arg3 packet - bytes_remaining) 0
     else
       (case alloc_pending fs p RL_MSG_READ_FILE_ANSWER complete_read_fn of
          (None, fs) \<Rightarrow> reply fs p DOSFALSE ERROR_NO_FREE_STORE
        | (Some (a, op), fs) \<Rightarrow> do {
            let bytes_read = dp_Arg3 packet - bytes_remaining;
            let fs = update_op fs a (\<lambda>op. op\<lparr>destination := dp_Arg2 packet + bytes_read\<rparr>);
            handle \<leftarrow> handle_at fs key;
            (rc, fs) \<leftarrow> transmit_read_request host fs handle (request_seqno op) bytes_remaining;
            if rc \<noteq> 0 then reply (unlink_pending fs a) p DOSFALSE ERROR_SEEK_ERROR else Some fs
          })
   }"

definition readop_bytes_read :: "rl_pending_operation \<Rightarrow> DosPacket \<Rightarrow> rl_uint32" where
  "readop_bytes_read op packet = destination op - dp_Arg2 packet"

text \<open>More than 4096 bytes left over are written beyond the buffer of the handle: \<open>None\<close>.\<close>

definition complete_read :: rl_completion_callback_fn where
  "complete_read host fs aop msg = do {
     let (a, op) = aop;
     let p = input_packet op;
     packet \<leftarrow> packets fs p;
     key \<leftarrow> HANDLE_FROM_LOCK fs (dp_Arg1 packet);
     handle \<leftarrow> handle_at fs key;
     (case body msg of
        Read_file_answer data \<Rightarrow> do {
          let amount_read = of_nat (length data);
          let amount_left = dp_Arg3 packet - readop_bytes_read op packet;
          let slice_amount = min amount_left amount_read;
          let fs = fs\<lparr>client_mem := mwrite (client_mem fs) (unat (destination op)) (take (unat slice_amount) data)\<rparr>;
          let fs = update_handle fs key (\<lambda>h. h\<lparr>offset_lo := offset_lo h + slice_amount\<rparr>);
          let op = op\<lparr>destination := destination op + slice_amount\<rparr>;
          let fs = update_op fs a (\<lambda>_. op);
          if dp_Arg3 packet = readop_bytes_read op packet \<or> amount_read = 0
          then
            if amount_read - slice_amount \<le> 4096
            then do {
              let fs = update_handle fs key
                         (\<lambda>h. h\<lparr>buffer_start := offset_lo h, buffer_len := amount_read - slice_amount,
                               ch_buffer := mwrite (ch_buffer h) 0 (drop (unat slice_amount) data)\<rparr>);
              fs \<leftarrow> reply fs p (readop_bytes_read op packet) 0;
              Some (unlink_pending fs a)
            }
            else None
          else do {
            let seq = seqno fs;
            let fs = update_op (fs\<lparr>seqno := seq + 1\<rparr>) a (\<lambda>op. op\<lparr>request_seqno := seq\<rparr>);
            handle \<leftarrow> handle_at fs key;
            (rc, fs) \<leftarrow> transmit_read_request host fs handle seq (dp_Arg3 packet - readop_bytes_read op packet);
            if rc \<noteq> 0
            then do {
              fs \<leftarrow> reply fs p 0 ERROR_SEEK_ERROR;
              Some (unlink_pending fs a)
            }
            else Some fs
          }
        }
      | _ \<Rightarrow> None)
   }"

section \<open>Writing\<close>

definition signed_min :: "LONG \<Rightarrow> LONG \<Rightarrow> LONG" where
  "signed_min a b = (if sint a < sint b then a else b)"

definition transmit_write_request ::
  "host \<Rightarrow> rl_amigafs \<Rightarrow> rl_client_handle \<Rightarrow> addr \<Rightarrow> rl_uint32 \<Rightarrow> addr \<Rightarrow> rl_uint32 \<Rightarrow> (int \<times> rl_amigafs) option" where
  "transmit_write_request host fs handle a seq source count =
     peer_transmit_message host (update_op fs a (\<lambda>op. op\<lparr>w_source := source, w_length := count\<rparr>))
       ((RL_MSG_INIT (Write_file_request (handle_id handle) (mread (client_mem fs) (unat source) (unat count))))
         \<lparr>hdr_seq := seq\<rparr>)"

definition action_write :: packet_handler_fn where
  "action_write host fs p = do {
     packet \<leftarrow> packets fs p;
     key \<leftarrow> HANDLE_FROM_LOCK fs (dp_Arg1 packet);
     handle \<leftarrow> handle_at fs key;
     (case alloc_pending fs p RL_MSG_WRITE_FILE_ANSWER complete_write_fn of
        (None, fs) \<Rightarrow> reply fs p DOSFALSE ERROR_NO_FREE_STORE
      | (Some (a, op), fs) \<Rightarrow> do {
          (rc, fs) \<leftarrow> transmit_write_request host fs handle a (request_seqno op) (dp_Arg2 packet)
                        (signed_min (dp_Arg3 packet) 4096);
          if rc \<noteq> 0 then reply (unlink_pending fs a) p DOSFALSE ERROR_SEEK_ERROR else Some fs
        })
   }"

definition complete_write :: rl_completion_callback_fn where
  "complete_write host fs aop msg = do {
     let (a, op) = aop;
     let p = input_packet op;
     packet \<leftarrow> packets fs p;
     key \<leftarrow> HANDLE_FROM_LOCK fs (dp_Arg1 packet);
     handle \<leftarrow> handle_at fs key;
     let curr_ptr = w_source op + w_length op;
     let end_ptr = dp_Arg2 packet + dp_Arg3 packet;
     if curr_ptr < end_ptr
     then do {
       let seq = seqno fs;
       let fs = update_op (fs\<lparr>seqno := seq + 1\<rparr>) a (\<lambda>op. op\<lparr>request_seqno := seq\<rparr>);
       (rc, fs) \<leftarrow> transmit_write_request host fs handle a seq curr_ptr (signed_min (end_ptr - curr_ptr) 4096);
       if rc \<noteq> 0
       then do {
         fs \<leftarrow> reply fs p (curr_ptr - dp_Arg2 packet) ERROR_SEEK_ERROR;
         Some (unlink_pending fs a)
       }
       else Some fs
     }
     else do {
       fs \<leftarrow> reply fs p (dp_Arg3 packet) 0;
       Some (unlink_pending fs a)
     }
   }"

section \<open>Seeking\<close>

definition seek_position :: "rl_client_handle \<Rightarrow> LONG \<Rightarrow> LONG \<Rightarrow> rl_uint32" where
  "seek_position handle seek_amount mode =
     (let position =
            (if mode = OFFSET_BEGINNING then seek_amount
             else if mode = OFFSET_CURRENT then offset_lo handle + seek_amount
             else if mode = OFFSET_END then size_lo handle + seek_amount
             else offset_lo handle)
      in if position > size_lo handle then size_lo handle else position)"

definition action_seek :: packet_handler_fn where
  "action_seek host fs p = do {
     packet \<leftarrow> packets fs p;
     key \<leftarrow> HANDLE_FROM_LOCK fs (dp_Arg1 packet);
     handle \<leftarrow> handle_at fs key;
     let old_pos = offset_lo handle;
     let fs = update_handle fs key (\<lambda>h. h\<lparr>offset_lo := seek_position h (dp_Arg2 packet) (dp_Arg3 packet)\<rparr>);
     reply fs p old_pos 0
   }"

section \<open>The dispatcher\<close>

definition packet_handlers_range_1 :: "packet_handler_fn option list" where
  "packet_handlers_range_1 =
     [None, None, None, None, None, Some action_die, None, Some action_current_volume, Some action_locate_object,
      Some action_rename_disk, None, None, None, None, None, Some action_free_lock, Some action_delete_object,
      Some action_rename_object, None, Some action_copy_dir, None, Some action_set_protect, Some action_create_dir,
      Some action_examine_object, Some action_examine_next, Some action_disk_info, Some action_info,
      Some action_flush, Some action_set_comment, Some action_parent, None, Some action_inhibit, None, None,
      Some action_set_file_date]"

definition handler_for :: "LONG \<Rightarrow> packet_handler_fn option" where
  "handler_for packet_type =
     (if packet_type = ACTION_READ then Some action_read
      else if packet_type = ACTION_WRITE then Some action_write
      else if 0 \<le> sint packet_type \<and> sint packet_type \<le> 34 then packet_handlers_range_1 ! unat packet_type
      else if packet_type = ACTION_IS_FILESYSTEM then Some action_is_filesystem
      else if packet_type = ACTION_FINDINPUT then Some action_findinput
      else if packet_type = ACTION_FINDOUTPUT then Some action_findoutput
      else if packet_type = ACTION_SEEK then Some action_seek
      else if packet_type = ACTION_END then Some action_end
      else None)"

definition process_fs_packet :: packet_handler_fn where
  "process_fs_packet host fs p = do {
     packet \<leftarrow> packets fs p;
     (case handler_for (dp_Type packet) of
        None \<Rightarrow> reply fs p DOSFALSE ERROR_ACTION_NOT_KNOWN
      | Some handler \<Rightarrow> handler host fs p)
   }"

fun process_packets :: "host \<Rightarrow> rl_amigafs \<Rightarrow> addr list \<Rightarrow> rl_amigafs option" where
  "process_packets host fs [] = Some fs"
| "process_packets host fs (p # ps) = do {
     fs \<leftarrow> process_fs_packet host fs p;
     process_packets host fs ps
   }"

definition rl_amigafs_process_device_message :: "host \<Rightarrow> rl_amigafs \<Rightarrow> rl_amigafs option" where
  "rl_amigafs_process_device_message host fs = process_packets host (fs\<lparr>device_queue := []\<rparr>) (device_queue fs)"

section \<open>Answers from the controller\<close>

fun find_op :: "rl_uint32 \<Rightarrow> (addr \<times> rl_pending_operation) list \<Rightarrow> (addr \<times> rl_pending_operation) option" where
  "find_op seq [] = None"
| "find_op seq (op # ops) = (if seq = request_seqno (snd op) then Some op else find_op seq ops)"

definition find_pending_op :: "rl_amigafs \<Rightarrow> rl_msg \<Rightarrow> (addr \<times> rl_pending_operation) option" where
  "find_pending_op fs msg = find_op (hdr_seq msg) (pending fs)"

definition translate_error_code :: "rl_uint32 \<Rightarrow> LONG" where
  "translate_error_code error_code =
     (if error_code = neterror_code RL_NETERR_SUCCESS then 0
      else if error_code = neterror_code RL_NETERR_ACCESS_DENIED then ERROR_OBJECT_IN_USE
      else if error_code = neterror_code RL_NETERR_NOT_FOUND then ERROR_OBJECT_NOT_FOUND
      else if error_code = neterror_code RL_NETERR_NOT_A_FILE \<or> error_code = neterror_code RL_NETERR_NOT_A_DIRECTORY
      then ERROR_OBJECT_WRONG_TYPE
      else if error_code = neterror_code RL_NETERR_IO_ERROR then ERROR_DISK_NOT_VALIDATED
      else if error_code = neterror_code RL_NETERR_INVALID_VALUE then ERROR_OBJECT_WRONG_TYPE
      else ERROR_DEVICE_NOT_MOUNTED)"

fun run_completion :: "completion \<Rightarrow> rl_completion_callback_fn" where
  "run_completion complete_findinput_fn = complete_findinput"
| "run_completion complete_examine_next_fn = complete_examine_next"
| "run_completion complete_locate_object_fn = complete_locate_object"
| "run_completion complete_read_fn = complete_read"
| "run_completion complete_write_fn = complete_write"

definition rl_amigafs_process_network_message ::
  "host \<Rightarrow> rl_amigafs \<Rightarrow> rl_msg \<Rightarrow> (int \<times> rl_amigafs) option" where
  "rl_amigafs_process_network_message host fs msg =
     (case find_pending_op fs msg of
        None \<Rightarrow> Some (1, fs)
      | Some (a, op) \<Rightarrow>
          if rl_msg_kind_of msg = expected_answer_type op
          then map_option (Pair 0) (run_completion (op_callback op) host fs (a, op) msg)
          else
            (case body msg of
               Error_answer error_code \<Rightarrow> do {
                 fs \<leftarrow> reply fs (input_packet op) DOSFALSE (translate_error_code error_code);
                 Some (0, unlink_pending fs a)
               }
             | _ \<Rightarrow> do {
                 fs \<leftarrow> reply fs (input_packet op) DOSFALSE ERROR_DEVICE_NOT_MOUNTED;
                 Some (1, unlink_pending fs a)
               }))"

section \<open>Mounting\<close>

text \<open>
  \<open>entry_exists\<close> is what \<^verbatim>\<open>FindDosEntry\<close> finds, \<open>entry\<close> what \<^verbatim>\<open>MakeDosEntry\<close> returns (0 on failure);
  the loops that wait for the list of devices to be free are left out.
\<close>

definition mount_volume :: "cstring \<Rightarrow> addr \<Rightarrow> bool \<Rightarrow> addr \<Rightarrow> (addr \<times> DeviceList) option" where
  "mount_volume name port entry_exists entry =
     (if port = 0 \<or> entry_exists \<or> entry = 0 then None
      else Some (entry, \<lparr>dl_Name = name, dl_VolumeDate = 0, dl_Lock = 0, dl_Task = port, dl_DiskType = ID_DOS_DISK\<rparr>))"

definition unmount_volume :: "rl_amigafs \<Rightarrow> int \<times> rl_amigafs" where
  "unmount_volume fs = (if dl_Lock (volume fs) \<noteq> 0 then (1, fs) else (0, fs\<lparr>device_list := 0\<rparr>))"

text \<open>After the device list entry is freed the pointer is not used again; the port is deleted.\<close>

definition rl_amigafs_destroy :: "rl_amigafs \<Rightarrow> rl_amigafs" where
  "rl_amigafs_destroy fs =
     (let fs = (if device_list fs \<noteq> 0 then snd (unmount_volume fs) else fs)
      in fs\<lparr>device_port := 0\<rparr>)"

definition rl_amigafs_init ::
  "rl_amigafs \<Rightarrow> cstring \<Rightarrow> addr \<Rightarrow> bool \<Rightarrow> addr \<Rightarrow> (int \<times> rl_amigafs) option" where
  "rl_amigafs_init fs device_name new_port entry_exists entry = do {
     path \<leftarrow> copied RL_FSCLIENT_MAX_PATH device_name;
     let fs = fs\<lparr>seqno := 0, device_port := new_port, device_list := 0, pending := [],
                 fs_root_handle := new_handle RL_HANDLE_DEVICE (- 1) 0 path\<rparr>;
     if new_port = 0 then Some (1, rl_amigafs_destroy fs)
     else
       (case mount_volume device_name new_port entry_exists entry of
          None \<Rightarrow> Some (1, rl_amigafs_destroy fs)
        | Some (dl, vol) \<Rightarrow> Some (0, fs\<lparr>device_list := dl, volume := vol\<rparr>))
   }"

end
