(* ===== verification/Rl_Packets.thy ===== *)
theory Rl_Packets
  imports Rl_Amigafs "HOL-Library.Multiset"
begin

unbundle bit_operations_syntax

text \<open>
  What becomes of a packet: the handlers of \<^verbatim>\<open>src/src/amigafs.c\<close> reply to it at once or leave it
  with a pending operation, and an answer from the controller replies to the packet of its
  operation or keeps it waiting. The step relation \<open>fs_step\<close> puts packets and answers into
  any order; its reachable states keep the books. Only \<open>ACTION_DIE\<close> swallows its packet.
\<close>

section \<open>Steps that do not touch the books\<close>

text \<open>The peer moved on, but no packet was replied to and the chain of operations is the same.\<close>

definition calm :: "rl_amigafs \<Rightarrow> rl_amigafs \<Rightarrow> bool" where
  "calm fs q \<longleftrightarrow>
     advances fs q \<and> replies q = replies fs \<and> pending q = pending fs \<and> packets q = packets fs \<and>
     device_queue q = device_queue fs"

lemma calm_refl: "transport_ok fs \<Longrightarrow> calm fs fs"
  by (simp add: calm_def advances_refl)

lemma calm_ok: "calm fs q \<Longrightarrow> transport_ok q"
  by (simp add: calm_def advances_def)

lemma fs_trunc [simp]:
  "peer.truncate (fs\<lparr>seqno := x1\<rparr>) = peer.truncate fs" "peer.truncate (fs\<lparr>pending := x2\<rparr>) = peer.truncate fs"
  "peer.truncate (fs\<lparr>fs_root_handle := x3\<rparr>) = peer.truncate fs" "peer.truncate (fs\<lparr>locks := x4\<rparr>) = peer.truncate fs"
  "peer.truncate (fs\<lparr>client_handles := x5\<rparr>) = peer.truncate fs" "peer.truncate (fs\<lparr>packets := x6\<rparr>) = peer.truncate fs"
  "peer.truncate (fs\<lparr>file_handles := x7\<rparr>) = peer.truncate fs" "peer.truncate (fs\<lparr>fibs := x8\<rparr>) = peer.truncate fs"
  "peer.truncate (fs\<lparr>infodatas := x9\<rparr>) = peer.truncate fs" "peer.truncate (fs\<lparr>client_mem := x10\<rparr>) = peer.truncate fs"
  "peer.truncate (fs\<lparr>allocs := x11\<rparr>) = peer.truncate fs" "peer.truncate (fs\<lparr>device_queue := x12\<rparr>) = peer.truncate fs"
  "peer.truncate (fs\<lparr>replies := x13\<rparr>) = peer.truncate fs"
  by (simp_all add: peer.truncate_def)

lemma calm_fields [simp]:
  "calm fs (q\<lparr>seqno := x1\<rparr>) = calm fs q" "calm fs (q\<lparr>fs_root_handle := x3\<rparr>) = calm fs q"
  "calm fs (q\<lparr>locks := x4\<rparr>) = calm fs q" "calm fs (q\<lparr>client_handles := x5\<rparr>) = calm fs q"
  "calm fs (q\<lparr>file_handles := x7\<rparr>) = calm fs q" "calm fs (q\<lparr>fibs := x8\<rparr>) = calm fs q"
  "calm fs (q\<lparr>infodatas := x9\<rparr>) = calm fs q" "calm fs (q\<lparr>client_mem := x10\<rparr>) = calm fs q"
  "calm fs (q\<lparr>allocs := x11\<rparr>) = calm fs q"
  using trunc_advances [of "q\<lparr>seqno := x1\<rparr>" q fs] trunc_advances [of "q\<lparr>fs_root_handle := x3\<rparr>" q fs]
    trunc_advances [of "q\<lparr>locks := x4\<rparr>" q fs] trunc_advances [of "q\<lparr>client_handles := x5\<rparr>" q fs]
    trunc_advances [of "q\<lparr>file_handles := x7\<rparr>" q fs] trunc_advances [of "q\<lparr>fibs := x8\<rparr>" q fs]
    trunc_advances [of "q\<lparr>infodatas := x9\<rparr>" q fs] trunc_advances [of "q\<lparr>client_mem := x10\<rparr>" q fs]
    trunc_advances [of "q\<lparr>allocs := x11\<rparr>" q fs]
  by (simp_all add: calm_def)

lemma calm_helpers [simp]:
  "calm fs (update_handle q h f) = calm fs q" "calm fs (fill_file_handle q fh l) = calm fs q"
  "calm fs (fill_in_infodata q i) = calm fs q" "calm fs (snd (alloc_zeroed q)) = calm fs q"
  by (cases h; simp add: update_handle_def)
    (simp_all add: fill_file_handle_def fill_in_infodata_def alloc_zeroed_def split: list.splits)

lemma calm_root_lock: "rl_amigafs_alloc_root_lock q mode = (l, q') \<Longrightarrow> calm fs q' = calm fs q"
  using calm_helpers(4) [of fs q]
  by (cases "alloc_zeroed q") (auto simp: rl_amigafs_alloc_root_lock_def split: if_splits)

lemma allocate_lock_some:
  assumes "calm fs q"
  shows "\<exists>l q'. allocate_lock q ty hid acc name sz = Some (l, q') \<and> calm fs q'"
proof -
  obtain path where "copied RL_FSCLIENT_MAX_PATH name = Some path"
    using copied_some [of RL_FSCLIENT_MAX_PATH] by (auto simp: RL_FSCLIENT_MAX_PATH_def)
  moreover obtain l q1 where q1: "alloc_zeroed q = (l, q1)" by (cases "alloc_zeroed q")
  moreover obtain h q2 where q2: "alloc_zeroed q1 = (h, q2)" by (cases "alloc_zeroed q1")
  ultimately show ?thesis
    using assms calm_helpers(4) [of fs q] calm_helpers(4) [of fs q1] by (simp add: allocate_lock_def)
qed

lemma more_fs:
  fixes p q :: rl_amigafs
  assumes "peer.more q = peer.more p"
  shows "replies q = replies p" "pending q = pending p" "packets q = packets p" "device_queue q = device_queue p"
    "seqno q = seqno p" "locks q = locks p" "client_handles q = client_handles p" "client_mem q = client_mem p"
    "fs_root_handle q = fs_root_handle p" "allocs q = allocs p" "volume q = volume p" "device_port q = device_port p"
    "spawns q = spawns p" "launched q = launched p" "order_mem q = order_mem p"
  using assms by (cases p, cases q, simp)+

lemma transmit_calm:
  assumes "calm fs q" and "arrays_ok (body m)"
  shows "\<exists>q'. peer_transmit_message host q m = Some (0, q') \<and> calm fs q' \<and> peer.more q' = peer.more q"
proof -
  obtain q' where q': "peer_transmit_message host q m = Some (0, q')" "advances q q'" "peer.more q' = peer.more q"
    using transmit_advances [OF calm_ok [OF assms(1)] assms(2)] by blast
  then have "calm fs q'" using assms(1) more_fs [OF q'(3)] advances_trans [of fs q q'] by (auto simp: calm_def)
  then show ?thesis using q' by blast
qed

lemma arrays_ok_simps [simp]:
  "arrays_ok (Close_handle_request h)" "arrays_ok (Open_handle_request p md)" "arrays_ok (Find_next_file_request h r)"
  "arrays_ok (Read_file_request h oh ol n)" "arrays_ok (Write_file_request h d) = valid_array d"
  by (simp_all add: arrays_ok_def)

lemma body_seq [simp]: "body ((RL_MSG_INIT b)\<lparr>hdr_seq := s\<rparr>) = b" "hdr_seq ((RL_MSG_INIT b)\<lparr>hdr_seq := s\<rparr>) = s"
  by (simp_all add: RL_MSG_INIT_def)

text \<open>A lock the code may follow: it is allocated and so is its handle; only the root is a device.\<close>

definition live_lock :: "rl_amigafs \<Rightarrow> addr \<Rightarrow> bool" where
  "live_lock fs l \<longleftrightarrow>
     (\<exists>key h. HANDLE_FROM_LOCK fs l = Some key \<and> handle_at fs key = Some h \<and>
        (key = Root_handle \<longleftrightarrow> ch_type h = RL_HANDLE_DEVICE))"

lemma free_lock_calm:
  assumes "calm fs q" and "live_lock q l"
  shows "\<exists>q'. rl_amigafs_free_lock host q l = Some q' \<and> calm fs q'"
proof -
  obtain key h where k: "HANDLE_FROM_LOCK q l = Some key" "handle_at q key = Some h"
    "key = Root_handle \<longleftrightarrow> ch_type h = RL_HANDLE_DEVICE"
    using assms(2) by (auto simp: live_lock_def)
  let ?m = "(RL_MSG_INIT (Close_handle_request (handle_id h)))\<lparr>hdr_seq := seqno q\<rparr>"
  obtain q' where "peer_transmit_message host (q\<lparr>seqno := seqno q + 1\<rparr>) ?m = Some (0, q')" "calm fs q'"
    using transmit_calm [of fs "q\<lparr>seqno := seqno q + 1\<rparr>" ?m host] assms(1) by auto
  then show ?thesis using k assms(1) by (cases key) (simp_all add: rl_amigafs_free_lock_def)
qed

section \<open>A packet is settled\<close>

text \<open>The chain as the books see it: which operation waits for which packet and for which answer.\<close>

definition tickets :: "rl_amigafs \<Rightarrow> (addr \<times> addr \<times> completion \<times> nat) list" where
  "tickets fs = map (\<lambda>(a, op). (a, input_packet op, op_callback op, expected_answer_type op)) (pending fs)"

text \<open>The answer a completion function reads.\<close>

fun answer_kind :: "completion \<Rightarrow> nat" where
  "answer_kind complete_findinput_fn = RL_MSG_OPEN_HANDLE_ANSWER"
| "answer_kind complete_examine_next_fn = RL_MSG_FIND_NEXT_FILE_ANSWER"
| "answer_kind complete_locate_object_fn = RL_MSG_OPEN_HANDLE_ANSWER"
| "answer_kind complete_read_fn = RL_MSG_READ_FILE_ANSWER"
| "answer_kind complete_write_fn = RL_MSG_WRITE_FILE_ANSWER"

text \<open>Like \<open>calm\<close>, but the operations themselves may change.\<close>

definition keeps :: "rl_amigafs \<Rightarrow> rl_amigafs \<Rightarrow> bool" where
  "keeps fs q \<longleftrightarrow>
     advances fs q \<and> replies q = replies fs \<and> tickets q = tickets fs \<and> packets q = packets fs \<and>
     device_queue q = device_queue fs"

lemma calm_keeps: "calm fs q \<Longrightarrow> keeps fs q"
  by (simp add: calm_def keeps_def tickets_def)

lemma keeps_trans: "keeps fs q \<Longrightarrow> keeps q r \<Longrightarrow> keeps fs r"
  using advances_trans [of fs q r] by (simp add: keeps_def)

lemma keeps_ok: "keeps fs q \<Longrightarrow> transport_ok q"
  by (simp add: keeps_def advances_def)

lemma keeps_update_op:
  assumes "transport_ok q" and "\<And>op. (a, op) \<in> set (pending q) \<Longrightarrow> input_packet (f op) = input_packet op \<and>
      op_callback (f op) = op_callback op \<and> expected_answer_type (f op) = expected_answer_type op"
  shows "keeps q (update_op q a f)"
  using assms trunc_advances [of "update_op q a f" q q] advances_refl [OF assms(1)]
  by (auto simp: keeps_def update_op_def tickets_def)

text \<open>Either the packet is replied to, or an operation for it is put at the head of the chain.\<close>

definition settles :: "rl_amigafs \<Rightarrow> addr \<Rightarrow> rl_amigafs \<Rightarrow> bool" where
  "settles fs p fs' \<longleftrightarrow>
     advances fs fs' \<and> device_queue fs' = device_queue fs \<and>
     ((\<exists>port pk. replies fs' = replies fs @ [(port, p, pk)] \<and> tickets fs' = tickets fs \<and>
        packets fs' = (packets fs)(p := None)) \<or>
      (\<exists>a c. replies fs' = replies fs \<and> tickets fs' = (a, p, c, answer_kind c) # tickets fs \<and>
        packets fs' = packets fs \<and> a \<noteq> 0 \<and> a \<in> set (take 1 (allocs fs))))"

definition settled :: "rl_amigafs \<Rightarrow> addr \<Rightarrow> rl_amigafs option \<Rightarrow> bool" where
  "settled fs p r \<longleftrightarrow> (\<exists>fs'. r = Some fs' \<and> settles fs p fs')"

lemma reply_some:
  assumes "transport_ok q" and "p \<in> dom (packets q)"
  shows "\<exists>port pk q'. reply q p res1 res2 = Some q' \<and> advances q q' \<and> replies q' = replies q @ [(port, p, pk)] \<and>
           dp_Res1 pk = res1 \<and> dp_Res2 pk = res2 \<and> pending q' = pending q \<and> packets q' = (packets q)(p := None) \<and>
           device_queue q' = device_queue q"
proof -
  obtain pk where pk: "packets q p = Some pk" using assms by auto
  have t: "advances q (q\<lparr>packets := P, replies := R\<rparr>) = advances q q" for P R
    by (rule trunc_advances) (simp add: peer.truncate_def)
  show ?thesis
    using pk t advances_refl [OF assms(1)] by (auto simp: reply_def reply_to_packet_def fun_upd_def)
qed

lemma settled_reply:
  assumes "calm fs q" and "p \<in> dom (packets fs)"
  shows "settled fs p (reply q p res1 res2)"
proof -
  have "transport_ok q" "p \<in> dom (packets q)" using assms calm_ok by (simp_all add: calm_def)
  from reply_some [OF this, of res1 res2] show ?thesis
    using assms(1) advances_trans [of fs q] by (auto simp: settled_def settles_def calm_def tickets_def)
qed

text \<open>An operation is allocated, and what follows keeps the books.\<close>

lemma settled_wait:
  assumes "calm fs q" and "allocs q = allocs fs" and "p \<in> dom (packets fs)" and "answer_kind c = k"
    and cont: "\<And>a op q1. transport_ok q1 \<Longrightarrow> pending q1 = (a, op) # pending q \<Longrightarrow> peer.truncate q1 = peer.truncate q \<Longrightarrow>
      locks q1 = locks q \<Longrightarrow> client_handles q1 = client_handles q \<Longrightarrow> fs_root_handle q1 = fs_root_handle q \<Longrightarrow>
      client_mem q1 = client_mem q \<Longrightarrow> \<exists>q2. K a op q1 = Some q2 \<and> keeps q1 q2"
  shows "settled fs p (case alloc_pending q p k c of
            (None, r) \<Rightarrow> reply r p res1 res2 | (Some (a, op), r) \<Rightarrow> K a op r)"
proof (cases "take 1 (allocs fs) = [] \<or> hd (allocs fs) = 0")
  case True
  then have "alloc_pending q p k c = (None, snd (alloc_zeroed q))"
    using assms(2) by (auto simp: alloc_pending_def alloc_zeroed_def split: list.splits)
  then show ?thesis using settled_reply [of fs "snd (alloc_zeroed q)" p] assms by simp
next
  case False
  then obtain a as where al: "allocs q = a # as" "a \<noteq> 0" using assms(2) by (cases "allocs fs") auto
  let ?op = "\<lparr>request_seqno = seqno q, input_packet = p, expected_answer_type = k, op_callback = c, destination = 0,
              w_source = 0, w_length = 0\<rparr>"
  let ?q1 = "q\<lparr>allocs := as, seqno := seqno q + 1, pending := (a, ?op) # pending q\<rparr>"
  have e: "alloc_pending q p k c = (Some (a, ?op), ?q1)"
    using al by (simp add: alloc_pending_def alloc_zeroed_def Let_def)
  have t: "peer.truncate ?q1 = peer.truncate q" by (simp add: peer.truncate_def)
  have ok: "transport_ok ?q1" using trunc_ok(1) [OF t] calm_ok [OF assms(1)] by simp
  obtain q2 where q2: "K a ?op ?q1 = Some q2" "keeps ?q1 q2"
    using cont [OF ok _ t] by auto
  have "advances fs ?q1" using trunc_advances [OF t] assms(1) by (simp add: calm_def)
  moreover have "a \<in> set (take 1 (allocs fs))" using al(1) assms(2) [symmetric] by simp
  ultimately have "settles fs p q2"
    using q2(2) assms(1,4) al(2) advances_trans [of fs ?q1 q2]
    by (auto simp: settles_def keeps_def calm_def tickets_def)
  then show ?thesis using e q2(1) by (simp add: settled_def)
qed

lemma settled_transmit:
  assumes "calm fs q" and "allocs q = allocs fs" and "p \<in> dom (packets fs)" and "answer_kind c = k"
    and "\<And>a op. arrays_ok (body (m a op))"
  shows "settled fs p (case alloc_pending q p k c of
            (None, r) \<Rightarrow> reply r p res1 res2
          | (Some (a, op), r) \<Rightarrow> do {
              (rc, r) \<leftarrow> peer_transmit_message host r (m a op);
              if rc \<noteq> 0 then reply (unlink_pending r a) p x y else Some r
            })"
proof (rule settled_wait [OF assms(1-4)])
  fix a op and q1 :: rl_amigafs
  assume "transport_ok q1"
  from transmit_calm [OF calm_refl [OF this] assms(5) [of a op], of host]
  obtain q2 where "peer_transmit_message host q1 (m a op) = Some (0, q2)" "calm q1 q2" by blast
  then show "\<exists>q2. do { (rc, r) \<leftarrow> peer_transmit_message host q1 (m a op);
      if rc \<noteq> 0 then reply (unlink_pending r a) p x y else Some r } = Some q2 \<and> keeps q1 q2"
    using calm_keeps by simp
qed

section \<open>Every handler settles its packet\<close>

lemma name_read:
  assumes "\<exists>s. str_at (client_mem fs) (unat (BSTR_PTR b)) s"
  shows "\<exists>s. cstr (client_mem fs) (BSTR_PTR b) = Some s"
  using assms rl_strlen_correct by (fastforce simp: cstr_def)

lemma formatted_some:
  "0 < n \<Longrightarrow> \<exists>s. formatted plat n (lit ''%s'') [AStr a] = Some s"
  "0 < n \<Longrightarrow> \<exists>s. formatted plat n (lit ''%s/%s'') [AStr a, AStr b] = Some s"
proof -
  have e: "\<exists>out. format_text plat ([] :: cstring) [] = Some out"
    using format_text_literal [of "[]" plat "[]"] by simp
  have "\<exists>out. format_text plat (lit ''/%s'') [AStr b] = Some out"
    using format_s_some [OF e, of "lit ''/''" b] by (simp add: is_percent_def)
  from format_s_some [OF this, of "[]" a] format_s_some [OF e, of "[]" a]
  show "0 < n \<Longrightarrow> \<exists>s. formatted plat n (lit ''%s'') [AStr a] = Some s"
    "0 < n \<Longrightarrow> \<exists>s. formatted plat n (lit ''%s/%s'') [AStr a, AStr b] = Some s"
    using formatted_eq [of n plat] by fastforce+
qed

lemma normalize_some:
  assumes "l = 0 \<or> live_lock fs l" and "BSTR_LEN (client_mem fs) b < 108"
  shows "\<exists>path. normalize_object_path fs RL_AMIGA_PATH_MAX l b = Some path"
proof -
  obtain key h where k: "(if l = 0 then Some Root_handle else HANDLE_FROM_LOCK fs l) = Some key"
    "handle_at fs key = Some h"
    using assms(1) by (cases "l = 0") (auto simp: live_lock_def handle_at_def)
  then show ?thesis
    using assms(2) formatted_some [of 108 Amiga]
    by (auto simp: normalize_object_path_def Let_def RL_AMIGA_PATH_MAX_def)
qed

lemma settled_findinput:
  assumes "transport_ok fs" and "packets fs p = Some pk" and "HANDLE_FROM_LOCK fs (BCPL_CAST (dp_Arg2 pk)) \<noteq> None"
    and "\<exists>s. str_at (client_mem fs) (unat (BSTR_PTR (BCPL_CAST (dp_Arg3 pk)))) s"
  shows "settled fs p (action_findinput host fs p)"
proof -
  note c = calm_refl [OF assms(1)]
  have d: "p \<in> dom (packets fs)" using assms(2) by auto
  obtain name where n: "cstr (client_mem fs) (BSTR_PTR (BCPL_CAST (dp_Arg3 pk))) = Some name"
    using name_read [OF assms(4)] by blast
  obtain l q where l: "allocate_lock fs RL_HANDLE_VIRTUAL_INPUT RL_FILEHANDLE_VIRTUAL_INPUT SHARED_LOCK name 0 = Some (l, q)"
    "calm fs q" using allocate_lock_some [OF c] by blast
  have "settled fs p (reply q p x y)" "settled fs p (reply (fill_file_handle q fh l) p x y)" for x y fh
    using l(2) assms(2) by (auto intro!: settled_reply)
  moreover note settled_transmit [OF c refl d answer_kind.simps(1), where
      m = "\<lambda>a op. (RL_MSG_INIT (Open_handle_request (drop_device name) RL_OPENFLAG_READ))\<lparr>hdr_seq := request_seqno op\<rparr>"]
  ultimately show ?thesis using assms(2,3) n l(1) by (auto simp: action_findinput_def Let_def)
qed

lemma settled_findoutput:
  assumes "transport_ok fs" and "packets fs p = Some pk" and "HANDLE_FROM_LOCK fs (BCPL_CAST (dp_Arg2 pk)) \<noteq> None"
    and "\<exists>s. str_at (client_mem fs) (unat (BSTR_PTR (BCPL_CAST (dp_Arg3 pk)))) s"
  shows "settled fs p (action_findoutput host fs p)"
proof -
  note c = calm_refl [OF assms(1)]
  have d: "p \<in> dom (packets fs)" using assms(2) by auto
  obtain name where n: "cstr (client_mem fs) (BSTR_PTR (BCPL_CAST (dp_Arg3 pk))) = Some name"
    using name_read [OF assms(4)] by blast
  obtain l q where l: "allocate_lock fs RL_HANDLE_VIRTUAL_OUTPUT RL_FILEHANDLE_VIRTUAL_OUTPUT EXCLUSIVE_LOCK name 0 = Some (l, q)"
    "calm fs q" using allocate_lock_some [OF c] by blast
  have "settled fs p (reply q p x y)" "settled fs p (reply (fill_file_handle q fh l) p x y)"
    "settled fs p (reply fs p x y)" for x y fh
    using l(2) c assms(2) by (auto intro!: settled_reply)
  then show ?thesis using assms(2,3) n l(1) by (auto simp: action_findoutput_def Let_def)
qed

lemma settled_locate_object:
  assumes "transport_ok fs" and "packets fs p = Some pk"
    and "BCPL_CAST (dp_Arg1 pk) = 0 \<or> live_lock fs (BCPL_CAST (dp_Arg1 pk))"
    and "BSTR_LEN (client_mem fs) (BCPL_CAST (dp_Arg2 pk)) < 108"
    and "allocs fs \<noteq> []" and "hd (allocs fs) \<noteq> 0"
  shows "settled fs p (action_locate_object host fs p)"
proof -
  note c = calm_refl [OF assms(1)]
  have d: "p \<in> dom (packets fs)" using assms(2) by auto
  obtain path where n: "normalize_object_path fs RL_AMIGA_PATH_MAX (BCPL_CAST (dp_Arg1 pk)) (BCPL_CAST (dp_Arg2 pk)) = Some path"
    using normalize_some [OF assms(3,4)] by blast
  obtain l q where l: "rl_amigafs_alloc_root_lock fs (dp_Arg3 pk) = (l, q)"
    by (cases "rl_amigafs_alloc_root_lock fs (dp_Arg3 pk)")
  have "l \<noteq> 0"
    using l assms(5,6) by (auto simp: rl_amigafs_alloc_root_lock_def alloc_zeroed_def split: list.splits if_splits)
  moreover have "settled fs p (reply q p x y)" for x y
    using calm_root_lock [OF l, of fs] c assms(2) by (auto intro!: settled_reply)
  moreover note settled_transmit [OF c refl d answer_kind.simps(3), where
      m = "\<lambda>a op. (RL_MSG_INIT (Open_handle_request path RL_OPENFLAG_READ))\<lparr>hdr_seq := request_seqno op\<rparr>"]
  ultimately show ?thesis using assms(2) n l by (auto simp: action_locate_object_def Let_def)
qed

lemma settled_examine_next:
  assumes "transport_ok fs" and "packets fs p = Some pk" and "live_lock fs (BCPL_CAST (dp_Arg1 pk))"
  shows "settled fs p (action_examine_next host fs p)"
proof -
  note c = calm_refl [OF assms(1)]
  have d: "p \<in> dom (packets fs)" using assms(2) by auto
  obtain key h where k: "HANDLE_FROM_LOCK fs (BCPL_CAST (dp_Arg1 pk)) = Some key" "handle_at fs key = Some h"
    using assms(3) by (auto simp: live_lock_def)
  let ?m = "\<lambda>op :: rl_pending_operation. (RL_MSG_INIT (Find_next_file_request (handle_id h)
      (if ch_flags h AND RL_CLIENT_FLAG_FILE_ENUM_IN_PROGRESS \<noteq> 0 then 0 else 1)))\<lparr>hdr_seq := request_seqno op\<rparr>"
  let ?K = "\<lambda>a op fs. do {
        (rc, fs) \<leftarrow> peer_transmit_message host fs (?m op);
        if rc \<noteq> 0 then reply (unlink_pending fs a) p DOSFALSE ERROR_DEVICE_NOT_MOUNTED
        else Some (update_handle fs key (\<lambda>h. h\<lparr>ch_flags := ch_flags h OR RL_CLIENT_FLAG_FILE_ENUM_IN_PROGRESS\<rparr>))
      }"
  have "\<exists>q2. ?K a op q1 = Some q2 \<and> keeps q1 q2" if "transport_ok q1" for a op and q1 :: rl_amigafs
    using transmit_calm [OF calm_refl [OF that], of "?m op" host] calm_keeps by fastforce
  then have "settled fs p (case alloc_pending fs p RL_MSG_FIND_NEXT_FILE_ANSWER complete_examine_next_fn of
      (None, r) \<Rightarrow> reply r p DOSFALSE ERROR_NO_FREE_STORE | (Some (a, op), r) \<Rightarrow> ?K a op r)"
    using assms(2) by (intro settled_wait [OF c refl d]) auto
  then show ?thesis using assms(2) k by (simp add: action_examine_next_def Let_def)
qed

text \<open>The handlers that look at one lock and reply at once.\<close>

lemma settled_locks:
  assumes "transport_ok fs" and "packets fs p = Some pk"
  shows "BCPL_CAST (dp_Arg1 pk) = 0 \<or> live_lock fs (BCPL_CAST (dp_Arg1 pk)) \<Longrightarrow> settled fs p (action_free_lock host fs p)"
    and "live_lock fs (dp_Arg1 pk) \<Longrightarrow> settled fs p (action_end host fs p)"
    and "BCPL_CAST (dp_Arg1 pk) = 0 \<or> live_lock fs (BCPL_CAST (dp_Arg1 pk)) \<Longrightarrow> settled fs p (action_copy_dir host fs p)"
    and "live_lock fs (BCPL_CAST (dp_Arg1 pk)) \<Longrightarrow> settled fs p (action_parent host fs p)"
    and "BCPL_CAST (dp_Arg1 pk) = 0 \<or> live_lock fs (BCPL_CAST (dp_Arg1 pk)) \<Longrightarrow> settled fs p (action_info host fs p)"
    and "BCPL_CAST (dp_Arg1 pk) = 0 \<or> live_lock fs (BCPL_CAST (dp_Arg1 pk)) \<Longrightarrow> length (dl_Name (volume fs)) < 108 \<Longrightarrow>
      settled fs p (action_examine_object host fs p)"
    and "live_lock fs (dp_Arg1 pk) \<Longrightarrow> settled fs p (action_seek host fs p)"
proof -
  note c = calm_refl [OF assms(1)]
  have d: "p \<in> dom (packets fs)" using assms(2) by auto
  note r = settled_reply [OF _ d]
  let ?l = "BCPL_CAST (dp_Arg1 pk)"
  have free: "settled fs p (do { q \<leftarrow> rl_amigafs_free_lock host fs l; reply q p x y })" if "live_lock fs l" for l x y
    using free_lock_calm [OF c that, of host] r by fastforce
  show "settled fs p (action_free_lock host fs p)" if "?l = 0 \<or> live_lock fs ?l"
    using that free r [OF c] assms(2) by (auto simp: action_free_lock_def Let_def)
  show "settled fs p (action_end host fs p)" if "live_lock fs (dp_Arg1 pk)"
    using free [OF that] assms(2) by (simp add: action_end_def)
  have lock: "\<exists>l q. (if b then Some (rl_amigafs_alloc_root_lock fs m) else allocate_lock fs ty hid acc nm sz) = Some (l, q) \<and> calm fs q"
    for b m ty hid acc nm sz
    using allocate_lock_some [OF c, of ty hid acc nm sz] calm_root_lock [of fs m _ _ fs] c
    by (cases b; cases "rl_amigafs_alloc_root_lock fs m") auto
  show "settled fs p (action_copy_dir host fs p)" if lk: "?l = 0 \<or> live_lock fs ?l"
  proof (cases "?l = 0")
    case True
    then show ?thesis using r [OF c] assms(2) by (simp add: action_copy_dir_def)
  next
    case False
    then obtain key h where k: "HANDLE_FROM_LOCK fs ?l = Some key" "handle_at fs key = Some h"
      using lk by (auto simp: live_lock_def)
    obtain l q where "(if ch_type h = RL_HANDLE_DEVICE then Some (rl_amigafs_alloc_root_lock fs SHARED_LOCK)
        else allocate_lock fs (ch_type h) (handle_id h) SHARED_LOCK (ch_path h) (size_lo h)) = Some (l, q)" "calm fs q"
      using lock by blast
    then show ?thesis using k False r [of q] assms(2) by (simp add: action_copy_dir_def Let_def)
  qed
  show "settled fs p (action_parent host fs p)" if lk: "live_lock fs ?l"
  proof -
    obtain key h where k: "HANDLE_FROM_LOCK fs ?l = Some key" "handle_at fs key = Some h"
      using lk by (auto simp: live_lock_def)
    obtain path where path: "copied 108 (ch_path h) = Some path" using copied_some [of 108] by auto
    obtain l q where "(case parent_path path of None \<Rightarrow> Some (rl_amigafs_alloc_root_lock fs SHARED_LOCK)
        | Some parent \<Rightarrow> allocate_lock fs RL_HANDLE_DIR (- 1) SHARED_LOCK parent 0) = Some (l, q)" "calm fs q"
      using lock [of "parent_path path = None" SHARED_LOCK RL_HANDLE_DIR "- 1" SHARED_LOCK "the (parent_path path)" 0]
      by (cases "parent_path path") auto
    then show ?thesis
      using k r [OF c] r [of q] path assms(2) by (cases key) (simp_all add: action_parent_def handle_at_def)
  qed
  show "settled fs p (action_info host fs p)" if "?l = 0 \<or> live_lock fs ?l"
    using that r [OF c] r [of "fill_in_infodata fs i" for i] c assms(2)
    by (auto simp: action_info_def Let_def live_lock_def HANDLE_FROM_LOCK_def)
  show "settled fs p (action_examine_object host fs p)" if lk: "?l = 0 \<or> live_lock fs ?l" "length (dl_Name (volume fs)) < 108"
  proof -
    obtain key h where k: "(if ?l \<noteq> 0 then HANDLE_FROM_LOCK fs ?l else Some Root_handle) = Some key" "handle_at fs key = Some h"
      using lk(1) by (cases "?l = 0") (auto simp: live_lock_def handle_at_def)
    have "settled fs p (reply (fs\<lparr>fibs := x\<rparr>) p u v)" for x u v using c by (intro r) simp
    then show ?thesis
      using k lk(2) assms(2) by (cases key) (simp_all add: action_examine_object_def Let_def handle_at_def)
  qed
  show "settled fs p (action_seek host fs p)" if "live_lock fs (dp_Arg1 pk)"
    using that r [of "update_handle fs k f" for k f] c assms(2)
    by (auto simp: action_seek_def Let_def live_lock_def)
qed

lemma settled_plain:
  assumes "transport_ok fs" and "packets fs p = Some pk"
  shows "settled fs p (action_is_filesystem host fs p)" "settled fs p (action_flush host fs p)"
    "settled fs p (action_set_protect host fs p)" "settled fs p (action_current_volume host fs p)"
    "settled fs p (action_delete_object host fs p)" "settled fs p (action_inhibit host fs p)"
    "settled fs p (action_rename_disk host fs p)" "settled fs p (action_rename_object host fs p)"
    "settled fs p (action_create_dir host fs p)" "settled fs p (action_set_comment host fs p)"
    "settled fs p (action_set_file_date host fs p)" "settled fs p (action_disk_info host fs p)"
proof -
  note c = calm_refl [OF assms(1)]
  have d: "p \<in> dom (packets fs)" using assms(2) by auto
  have r: "settled fs p (reply fs p x y)" "settled fs p (reply (fill_in_infodata fs i) p x y)" for x y i
    using c by (auto intro!: settled_reply d)
  show "settled fs p (action_is_filesystem host fs p)" "settled fs p (action_flush host fs p)"
    "settled fs p (action_set_protect host fs p)" "settled fs p (action_current_volume host fs p)"
    "settled fs p (action_delete_object host fs p)" "settled fs p (action_inhibit host fs p)"
    "settled fs p (action_rename_disk host fs p)" "settled fs p (action_rename_object host fs p)"
    "settled fs p (action_create_dir host fs p)" "settled fs p (action_set_comment host fs p)"
    "settled fs p (action_set_file_date host fs p)" "settled fs p (action_disk_info host fs p)"
    using r assms(2)
    by (simp_all add: action_is_filesystem_def action_flush_def action_set_protect_def action_current_volume_def
        action_delete_object_def action_inhibit_def action_rename_disk_def action_rename_object_def
        action_create_dir_def action_set_comment_def action_set_file_date_def action_disk_info_def)
qed

lemma transmit_keeps:
  assumes "keeps fs q" and "arrays_ok (body m)"
  shows "\<exists>q'. peer_transmit_message host q m = Some (0, q') \<and> keeps fs q' \<and> peer.more q' = peer.more q"
  using transmit_calm [OF calm_refl [OF keeps_ok [OF assms(1)]] assms(2), of host] assms(1) calm_keeps keeps_trans by blast

lemma handle_at_update [simp]:
  "handle_at (update_handle fs k f) k = map_option f (handle_at fs k)"
  by (cases k) (simp_all add: handle_at_def update_handle_def)

lemma handle_at_fields [simp]:
  "handle_at (fs\<lparr>client_mem := m\<rparr>) k = handle_at fs k" "handle_at (fs\<lparr>seqno := s\<rparr>) k = handle_at fs k"
  "handle_at (update_op fs a g) k = handle_at fs k" "handle_at (unlink_pending fs a) k = handle_at fs k"
  by (simp_all add: handle_at_def update_op_def unlink_pending_def split: handle_ptr.splits)

lemma update_handle_allocs [simp]: "allocs (update_handle fs k f) = allocs fs"
  by (cases k) (simp_all add: update_handle_def)

lemma buffer_calm:
  assumes "read_from_buffer fs key h pk = (n, q)" and "transport_ok fs"
  shows "calm fs q" "allocs q = allocs fs" "handle_at fs key = Some h' \<Longrightarrow> \<exists>h2. handle_at q key = Some h2"
  using assms calm_refl [OF assms(2)]
  by (auto simp: read_from_buffer_def split: option.splits)

lemma settled_read:
  assumes "transport_ok fs" and "packets fs p = Some pk" and "live_lock fs (dp_Arg1 pk)"
  shows "settled fs p (action_read host fs p)"
proof -
  have d: "p \<in> dom (packets fs)" using assms(2) by auto
  obtain key h where k: "HANDLE_FROM_LOCK fs (dp_Arg1 pk) = Some key" "handle_at fs key = Some h"
    using assms(3) by (auto simp: live_lock_def)
  obtain n q where q: "read_from_buffer fs key h pk = (n, q)" by (cases "read_from_buffer fs key h pk")
  note c = buffer_calm [OF q assms(1)]
  obtain h2 where h2: "handle_at q key = Some h2" using c(3) k(2) by blast
  let ?K = "\<lambda>a op fs. do {
            let bytes_read = dp_Arg3 pk - n;
            let fs = update_op fs a (\<lambda>op. op\<lparr>destination := dp_Arg2 pk + bytes_read\<rparr>);
            handle \<leftarrow> handle_at fs key;
            (rc, fs) \<leftarrow> transmit_read_request host fs handle (request_seqno op) n;
            if rc \<noteq> 0 then reply (unlink_pending fs a) p DOSFALSE ERROR_SEEK_ERROR else Some fs
          }"
  have "\<exists>q2. ?K a op q1 = Some q2 \<and> keeps q1 q2"
    if ok: "transport_ok q1" and eq: "client_handles q1 = client_handles q" "fs_root_handle q1 = fs_root_handle q"
    for a op and q1 :: rl_amigafs
  proof -
    let ?q1 = "update_op q1 a (\<lambda>op. op\<lparr>destination := dp_Arg2 pk + (dp_Arg3 pk - n)\<rparr>)"
    have "keeps q1 ?q1" using ok by (intro keeps_update_op) simp_all
    moreover have "handle_at q1 key = Some h2" using h2 eq by (simp add: handle_at_def split: handle_ptr.splits)
    then have "handle_at ?q1 key = Some h2" by simp
    ultimately show ?thesis
      using transmit_keeps [of q1 ?q1 "(RL_MSG_INIT (Read_file_request (handle_id h2) (offset_hi h2) (offset_lo h2) (max n 4096)))
         \<lparr>hdr_seq := request_seqno op\<rparr>" host]
      by (auto simp: transmit_read_request_def)
  qed
  then have "settled fs p (case alloc_pending q p RL_MSG_READ_FILE_ANSWER complete_read_fn of
      (None, r) \<Rightarrow> reply r p DOSFALSE ERROR_NO_FREE_STORE | (Some (a, op), r) \<Rightarrow> ?K a op r)"
    by (intro settled_wait [OF c(1,2) d answer_kind.simps(4)]) blast
  then show ?thesis
    using assms(2) k q settled_reply [OF c(1) d] by (simp add: action_read_def Let_def)
qed

lemma signed_min_bound: "0 \<le> sint n \<Longrightarrow> unat (signed_min n 4096) \<le> 4096"
proof -
  assume a: "0 \<le> sint n"
  have s: "sint (4096 :: rl_uint32) = 4096" by simp
  show ?thesis
  proof (cases "sint n < 4096")
    case True
    have "uint n = sint n" using a True by (simp add: uint_sint take_bit_int_eq_self)
    then have "unat n \<le> 4096" using True by (simp add: unat_eq_nat_uint nat_le_iff)
    then show ?thesis using True by (simp add: signed_min_def)
  next
    case False
    then show ?thesis by (simp add: signed_min_def)
  qed
qed

lemma settled_write:
  assumes "transport_ok fs" and "packets fs p = Some pk" and "live_lock fs (dp_Arg1 pk)" and "0 \<le> sint (dp_Arg3 pk)"
  shows "settled fs p (action_write host fs p)"
proof -
  note c = calm_refl [OF assms(1)]
  have d: "p \<in> dom (packets fs)" using assms(2) by auto
  obtain key h where k: "HANDLE_FROM_LOCK fs (dp_Arg1 pk) = Some key" "handle_at fs key = Some h"
    using assms(3) by (auto simp: live_lock_def)
  let ?n = "signed_min (dp_Arg3 pk) 4096"
  let ?K = "\<lambda>a op fs. do {
          (rc, fs) \<leftarrow> transmit_write_request host fs h a (request_seqno op) (dp_Arg2 pk) ?n;
          if rc \<noteq> 0 then reply (unlink_pending fs a) p DOSFALSE ERROR_SEEK_ERROR else Some fs
        }"
  have "\<exists>q2. ?K a op q1 = Some q2 \<and> keeps q1 q2" if ok: "transport_ok q1" for a op and q1 :: rl_amigafs
  proof -
    let ?q1 = "update_op q1 a (\<lambda>op. op\<lparr>w_source := dp_Arg2 pk, w_length := ?n\<rparr>)"
    have "keeps q1 ?q1" using ok by (intro keeps_update_op) simp_all
    then show ?thesis
      using transmit_keeps [of q1 ?q1 "(RL_MSG_INIT (Write_file_request (handle_id h) (mread (client_mem q1) (unat (dp_Arg2 pk)) (unat ?n))))
         \<lparr>hdr_seq := request_seqno op\<rparr>" host] signed_min_bound [OF assms(4)]
      by (auto simp: transmit_write_request_def valid_array_def)
  qed
  then have "settled fs p (case alloc_pending fs p RL_MSG_WRITE_FILE_ANSWER complete_write_fn of
      (None, r) \<Rightarrow> reply r p DOSFALSE ERROR_NO_FREE_STORE | (Some (a, op), r) \<Rightarrow> ?K a op r)"
    by (intro settled_wait [OF c refl d answer_kind.simps(5)]) blast
  then show ?thesis using assms(2) k by (simp add: action_write_def Let_def)
qed

section \<open>The packets a program may send\<close>

text \<open>
  What the handlers rely on, by packet type: the locks are ones the file system gave out, the
  names are terminated or short enough, the counts are not negative; a packet that opens a file
  carries a directory lock, since the handlers read through it. \<open>ACTION_DIE\<close> is not
  among them, it is never replied to; nor is a lookup of the root without memory for its
  lock.
\<close>

definition valid_packet :: "rl_amigafs \<Rightarrow> DosPacket \<Rightarrow> bool" where
  "valid_packet fs pk \<longleftrightarrow>
     (let ty = dp_Type pk; l = BCPL_CAST (dp_Arg1 pk)
      in ty \<noteq> 5 \<and>
         (ty \<in> {ACTION_READ, ACTION_WRITE, ACTION_SEEK, ACTION_END} \<longrightarrow> live_lock fs (dp_Arg1 pk)) \<and>
         (ty = ACTION_WRITE \<longrightarrow> 0 \<le> sint (dp_Arg3 pk)) \<and>
         (ty \<in> {8, 15, 19, 23, 26} \<longrightarrow> l = 0 \<or> live_lock fs l) \<and>
         (ty \<in> {24, 29} \<longrightarrow> live_lock fs l) \<and>
         (ty = 8 \<longrightarrow> BSTR_LEN (client_mem fs) (BCPL_CAST (dp_Arg2 pk)) < 108 \<and> allocs fs \<noteq> [] \<and> hd (allocs fs) \<noteq> 0) \<and>
         (ty = 23 \<longrightarrow> length (dl_Name (volume fs)) < 108) \<and>
         (ty \<in> {ACTION_FINDINPUT, ACTION_FINDOUTPUT} \<longrightarrow>
            HANDLE_FROM_LOCK fs (BCPL_CAST (dp_Arg2 pk)) \<noteq> None \<and>
            (\<exists>s. str_at (client_mem fs) (unat (BSTR_PTR (BCPL_CAST (dp_Arg3 pk)))) s)))"

lemma table_cases:
  assumes "0 \<le> sint ty" and "sint ty \<le> 34"
  shows "ty \<in> {0, 1, 2, 3, 4, 5, 6, 7, 8, 9, 10, 11, 12, 13, 14, 15, 16, 17, 18, 19, 20, 21, 22, 23, 24, 25, 26, 27,
    28, 29, 30, 31, 32, 33, 34 :: LONG}"
proof -
  have "uint ty = sint ty" using assms by (simp add: uint_sint take_bit_int_eq_self)
  then have "unat ty \<le> 34" using assms by (simp add: unat_eq_nat_uint nat_le_iff)
  then have "unat ty \<in> set [0..<35]" by simp
  then have "of_nat (unat ty) \<in> of_nat ` set [0..<35]" by blast
  moreover have "(of_nat (unat ty) :: LONG) = ty" by simp
  ultimately have "ty \<in> of_nat ` set [0..<35]" by metis
  then show ?thesis by (simp add: upt_rec)
qed

lemma handler_for_named:
  "handler_for ACTION_READ = Some action_read" "handler_for ACTION_WRITE = Some action_write"
  "handler_for ACTION_IS_FILESYSTEM = Some action_is_filesystem" "handler_for ACTION_FINDINPUT = Some action_findinput"
  "handler_for ACTION_FINDOUTPUT = Some action_findoutput" "handler_for ACTION_SEEK = Some action_seek"
  "handler_for ACTION_END = Some action_end"
  by (simp_all add: handler_for_def ACTION_READ_def ACTION_WRITE_def ACTION_IS_FILESYSTEM_def ACTION_FINDINPUT_def
      ACTION_FINDOUTPUT_def ACTION_SEEK_def ACTION_END_def)

lemma packet_settled:
  assumes "transport_ok fs" and "packets fs p = Some pk" and "valid_packet fs pk"
  shows "settled fs p (process_fs_packet host fs p)"
proof -
  note plain = settled_plain [OF assms(1,2), of host] and lock = settled_locks [OF assms(1,2), of host]
    and more = settled_read [OF assms(1,2), of host] settled_write [OF assms(1,2), of host]
      settled_findinput [OF assms(1,2), of host] settled_findoutput [OF assms(1,2), of host]
      settled_locate_object [OF assms(1,2), of host] settled_examine_next [OF assms(1,2), of host]
  have d: "p \<in> dom (packets fs)" using assms(2) by auto
  have none: "settled fs p (reply fs p DOSFALSE ERROR_ACTION_NOT_KNOWN)"
    using settled_reply [OF calm_refl [OF assms(1)] d] .
  have v: "valid_packet fs pk" by (rule assms(3))
  have "settled fs p (case handler_for (dp_Type pk) of None \<Rightarrow> reply fs p DOSFALSE ERROR_ACTION_NOT_KNOWN
      | Some handler \<Rightarrow> handler host fs p)"
  proof (cases "dp_Type pk \<noteq> ACTION_READ \<and> dp_Type pk \<noteq> ACTION_WRITE \<and> 0 \<le> sint (dp_Type pk) \<and> sint (dp_Type pk) \<le> 34")
    case True
    have "handler_for (dp_Type pk) = packet_handlers_range_1 ! unat (dp_Type pk)" using True by (simp add: handler_for_def)
    moreover have "dp_Type pk \<in> {0, 1, 2, 3, 4, 5, 6, 7, 8, 9, 10, 11, 12, 13, 14, 15, 16, 17, 18, 19, 20, 21, 22, 23, 24,
        25, 26, 27, 28, 29, 30, 31, 32, 33, 34}"
      using True table_cases by blast
    ultimately show ?thesis
      using v plain lock more none
      by (elim insertE emptyE) (simp_all add: valid_packet_def packet_handlers_range_1_def Let_def)
  next
    case False
    show ?thesis
    proof (cases "dp_Type pk \<in> {ACTION_READ, ACTION_WRITE, ACTION_IS_FILESYSTEM, ACTION_FINDINPUT, ACTION_FINDOUTPUT,
        ACTION_SEEK, ACTION_END}")
      case True
      then show ?thesis
        using v plain(1) lock(2,7) more(1-4)
        by (elim insertE emptyE) (simp_all add: handler_for_named valid_packet_def Let_def)
    next
      case other: False
      then have "handler_for (dp_Type pk) = None" using False by (auto simp: handler_for_def)
      then show ?thesis using none by simp
    qed
  qed
  then show ?thesis using assms(2) by (simp add: process_fs_packet_def)
qed

section \<open>Answers\<close>

text \<open>
  An answer to the operation at \<open>a\<close>, which waits for packet \<open>p\<close>: the packet is replied to and
  the operation unlinked, or everything stays as it was and another request is under way.
\<close>

definition completes :: "rl_amigafs \<Rightarrow> addr \<Rightarrow> addr \<Rightarrow> rl_amigafs \<Rightarrow> bool" where
  "completes fs a p fs' \<longleftrightarrow>
     advances fs fs' \<and> device_queue fs' = device_queue fs \<and>
     ((\<exists>port pk. replies fs' = replies fs @ [(port, p, pk)] \<and> tickets fs' = filter (\<lambda>t. fst t \<noteq> a) (tickets fs) \<and>
        packets fs' = (packets fs)(p := None)) \<or>
      replies fs' = replies fs \<and> tickets fs' = tickets fs \<and> packets fs' = packets fs)"

definition completed :: "rl_amigafs \<Rightarrow> addr \<Rightarrow> addr \<Rightarrow> rl_amigafs option \<Rightarrow> bool" where
  "completed fs a p r \<longleftrightarrow> (\<exists>fs'. r = Some fs' \<and> completes fs a p fs')"

lemma remove_op_filter:
  "distinct (map fst ops) \<Longrightarrow> remove_op a ops = filter (\<lambda>op. fst op \<noteq> a) ops"
proof (induction ops)
  case (Cons op ops)
  have "filter (\<lambda>x. fst x \<noteq> fst op) ops = ops" using Cons.prems by (auto simp: filter_id_conv image_iff)
  then show ?case using Cons by auto
qed simp

lemma tickets_fst: "map fst (tickets fs) = map fst (pending fs)"
  by (simp add: tickets_def split_def)

lemma tickets_unlink:
  assumes "distinct (map fst (pending fs))"
  shows "tickets (unlink_pending fs a) = filter (\<lambda>t. fst t \<noteq> a) (tickets fs)"
  using assms by (simp add: unlink_pending_def tickets_def remove_op_filter filter_map o_def split_def)

lemma completed_reply:
  assumes "keeps fs q" and "p \<in> dom (packets fs)" and "distinct (map fst (pending fs))"
  shows "completed fs a p (do { r \<leftarrow> reply q p x y; Some (unlink_pending r a) })"
proof -
  have "transport_ok q" "p \<in> dom (packets q)" using assms(1,2) keeps_ok by (simp_all add: keeps_def)
  then obtain port pk r where r: "reply q p x y = Some r" "advances q r" "replies r = replies q @ [(port, p, pk)]"
    "pending r = pending q" "packets r = (packets q)(p := None)" "device_queue r = device_queue q"
    using reply_some [of q p x y] by blast
  have t: "tickets r = tickets fs" using r(4) assms(1) by (simp add: keeps_def tickets_def)
  then have "distinct (map fst (pending r))" using assms(3) tickets_fst [of r] tickets_fst [of fs] by simp
  then have "completes fs a p (unlink_pending r a)"
    using r t assms(1) advances_trans [of fs q r] tickets_unlink [of r a] trunc_advances [of "unlink_pending r a" r fs]
    by (auto simp: completes_def keeps_def) (auto simp: unlink_pending_def)
  then show ?thesis using r(1) by (simp add: completed_def)
qed

lemma completed_keeps: "keeps fs q \<Longrightarrow> completed fs a p (Some q)"
  by (simp add: completed_def completes_def keeps_def)

lemma completed_findinput:
  assumes "transport_ok fs" and "packets fs (input_packet op) = Some pk" and "distinct (map fst (pending fs))"
    and "body msg = Open_handle_answer hid sz ty"
    and "\<exists>s. str_at (client_mem fs) (unat (BSTR_PTR (BCPL_CAST (dp_Arg3 pk)))) s"
  shows "completed fs a (input_packet op) (complete_findinput host fs (a, op) msg)"
proof -
  let ?p = "input_packet op"
  note c = calm_refl [OF assms(1)]
  have d: "?p \<in> dom (packets fs)" using assms(2) by auto
  obtain name where n: "cstr (client_mem fs) (BSTR_PTR (BCPL_CAST (dp_Arg3 pk))) = Some name"
    using name_read [OF assms(5)] by blast
  obtain l q where l: "allocate_lock fs RL_HANDLE_FILE hid SHARED_LOCK name sz = Some (l, q)" "calm fs q"
    using allocate_lock_some [OF c] by blast
  have close: "completed fs a ?p (do {
      r \<leftarrow> map_option snd (peer_transmit_message host (q\<lparr>seqno := seqno q + 1\<rparr>)
            ((RL_MSG_INIT (Close_handle_request hid))\<lparr>hdr_seq := seqno q\<rparr>));
      r \<leftarrow> reply r ?p x y; Some (unlink_pending r a) })" if cq: "calm fs q" for q x y
  proof -
    obtain r where "peer_transmit_message host (q\<lparr>seqno := seqno q + 1\<rparr>)
        ((RL_MSG_INIT (Close_handle_request hid))\<lparr>hdr_seq := seqno q\<rparr>) = Some (0, r)" "calm fs r"
      using transmit_calm [of fs "q\<lparr>seqno := seqno q + 1\<rparr>" "(RL_MSG_INIT (Close_handle_request hid))\<lparr>hdr_seq := seqno q\<rparr>" host] cq
      by auto
    then show ?thesis using completed_reply [OF calm_keeps d assms(3), of r] by simp
  qed
  have "completed fs a ?p (do { r \<leftarrow> reply (fill_file_handle q fh l) ?p x y; Some (unlink_pending r a) })" for fh x y
    using l(2) by (intro completed_reply [OF calm_keeps d assms(3)]) simp
  then show ?thesis
    using assms(2,4) n l close [OF c] close [OF l(2)]
    by (simp add: complete_findinput_def Let_def DOSTRUE_def DOSFALSE_def)
qed

lemma completed_locate_object:
  assumes "transport_ok fs" and "packets fs (input_packet op) = Some pk" and "distinct (map fst (pending fs))"
    and "body msg = Open_handle_answer hid sz ty"
    and "BCPL_CAST (dp_Arg1 pk) = 0 \<or> live_lock fs (BCPL_CAST (dp_Arg1 pk))"
    and "BSTR_LEN (client_mem fs) (BCPL_CAST (dp_Arg2 pk)) < 108"
  shows "completed fs a (input_packet op) (complete_locate_object host fs (a, op) msg)"
proof -
  have d: "input_packet op \<in> dom (packets fs)" using assms(2) by auto
  obtain path where n: "normalize_object_path fs RL_AMIGA_PATH_MAX (BCPL_CAST (dp_Arg1 pk)) (BCPL_CAST (dp_Arg2 pk)) = Some path"
    using normalize_some [OF assms(5,6)] by blast
  obtain l q where l: "allocate_lock fs (if ty = RL_NODE_TYPE_DIRECTORY then RL_HANDLE_DIR else RL_HANDLE_FILE) hid 0 path sz = Some (l, q)"
    "calm fs q" using allocate_lock_some [OF calm_refl [OF assms(1)]] by blast
  note completed_reply [OF calm_keeps [OF l(2)] d assms(3)]
  then show ?thesis using assms(2,4) n l(1) by (simp add: complete_locate_object_def Let_def)
qed

lemma completed_examine_next:
  assumes "transport_ok fs" and "packets fs (input_packet op) = Some pk" and "distinct (map fst (pending fs))"
    and "body msg = Find_next_file_answer e ty name sz" and "live_lock fs (BCPL_CAST (dp_Arg1 pk))"
  shows "completed fs a (input_packet op) (complete_examine_next host fs (a, op) msg)"
proof -
  have d: "input_packet op \<in> dom (packets fs)" using assms(2) by auto
  obtain key h where k: "HANDLE_FROM_LOCK fs (BCPL_CAST (dp_Arg1 pk)) = Some key" "handle_at fs key = Some h"
    using assms(5) by (auto simp: live_lock_def)
  have "completed fs a (input_packet op) (do { r \<leftarrow> reply q (input_packet op) x y; Some (unlink_pending r a) })"
    if "calm fs q" for q x y
    by (intro completed_reply [OF calm_keeps d assms(3)] that)
  then show ?thesis
    using assms(2,4) k calm_refl [OF assms(1)] by (auto simp: complete_examine_next_def Let_def)
qed

lemma update_handle_fields [simp]:
  "packets (update_handle fs k f) = packets fs" "seqno (update_handle fs k f) = seqno fs"
  "pending (update_handle fs k f) = pending fs" "client_mem (update_handle fs k f) = client_mem fs"
  "locks (update_handle fs k f) = locks fs" "replies (update_handle fs k f) = replies fs"
  by (cases k; simp add: update_handle_def)+

lemma keeps_fields [simp]:
  "keeps fs (update_handle q h f) = keeps fs q" "keeps fs (q\<lparr>client_mem := m\<rparr>) = keeps fs q"
  "keeps fs (q\<lparr>seqno := s\<rparr>) = keeps fs q"
proof -
  have "advances fs (update_handle q h f) = advances fs q"
    by (rule trunc_advances) (cases h; simp add: update_handle_def)
  moreover have "device_queue (update_handle q h f) = device_queue q" by (cases h) (simp_all add: update_handle_def)
  ultimately show "keeps fs (update_handle q h f) = keeps fs q" by (simp add: keeps_def tickets_def)
  show "keeps fs (q\<lparr>client_mem := m\<rparr>) = keeps fs q" "keeps fs (q\<lparr>seqno := s\<rparr>) = keeps fs q"
    using trunc_advances [of "q\<lparr>client_mem := m\<rparr>" q fs] trunc_advances [of "q\<lparr>seqno := s\<rparr>" q fs]
    by (simp_all add: keeps_def tickets_def)
qed

lemma keeps_op:
  assumes "keeps fs q" and "\<And>op. (a, op) \<in> set (pending q) \<Longrightarrow> input_packet (f op) = input_packet op \<and>
      op_callback (f op) = op_callback op \<and> expected_answer_type (f op) = expected_answer_type op"
  shows "keeps fs (update_op q a f)"
  using keeps_trans [OF assms(1) keeps_update_op [OF keeps_ok [OF assms(1)]]] assms(2) by blast

text \<open>The operation an address belongs to is unique.\<close>

lemma pending_unique:
  assumes "distinct (map fst ops)" and "(a, op) \<in> set ops" and "(a, op') \<in> set ops"
  shows "op' = op"
  using assms eq_key_imp_eq_value by fastforce

lemma transmit_read_keeps:
  "keeps fs q \<Longrightarrow> \<exists>r. transmit_read_request host q h s n = Some (0, r) \<and> keeps fs r \<and> peer.more r = peer.more q"
  unfolding transmit_read_request_def by (rule transmit_keeps) simp_all

lemma completed_read:
  assumes "transport_ok fs" and "packets fs (input_packet op) = Some pk" and "distinct (map fst (pending fs))"
    and "(a, op) \<in> set (pending fs)" and "body msg = Read_file_answer bytes" and "live_lock fs (dp_Arg1 pk)"
    and "length bytes \<le> 4096"
  shows "completed fs a (input_packet op) (complete_read host fs (a, op) msg)"
proof -
  let ?p = "input_packet op"
  have d: "?p \<in> dom (packets fs)" using assms(2) by auto
  obtain key h where k: "HANDLE_FROM_LOCK fs (dp_Arg1 pk) = Some key" "handle_at fs key = Some h"
    using assms(6) by (auto simp: live_lock_def)
  let ?n = "of_nat (length bytes) :: rl_uint32"
  let ?s = "min (dp_Arg3 pk - readop_bytes_read op pk) ?n"
  let ?op = "op\<lparr>destination := destination op + ?s\<rparr>"
  define q where "q = update_op (update_handle (fs\<lparr>client_mem := mwrite (client_mem fs) (unat (destination op))
      (take (unat ?s) bytes)\<rparr>) key (\<lambda>h. h\<lparr>offset_lo := offset_lo h + ?s\<rparr>)) a (\<lambda>_. ?op)"
  have kq: "keeps fs q"
    unfolding q_def
  proof (rule keeps_op)
    show "keeps fs (update_handle (fs\<lparr>client_mem := mwrite (client_mem fs) (unat (destination op)) (take (unat ?s) bytes)\<rparr>)
        key (\<lambda>h. h\<lparr>offset_lo := offset_lo h + ?s\<rparr>))"
      using calm_keeps [OF calm_refl [OF assms(1)]] by simp
  qed (use pending_unique [OF assms(3,4)] in auto)
  have hq: "\<exists>h. handle_at q key = Some h" using k(2) by (simp add: q_def)
  have "unat (?n - ?s) \<le> unat ?n" by (metis min.cobounded2 word_sub_le unat_mono word_le_nat_alt)
  then have fits: "?n - ?s \<le> 4096"
    using assms(7) by (simp add: word_le_nat_alt unat_of_nat)
  have fin: "completed fs a ?p (do { r \<leftarrow> reply (update_handle q key f) ?p x y; Some (unlink_pending r a) })" for f x y
    using kq by (intro completed_reply d assms(3)) simp
  have again: "completed fs a ?p (do {
            let seq = seqno q;
            let fs = update_op (q\<lparr>seqno := seq + 1\<rparr>) a (\<lambda>op. op\<lparr>request_seqno := seq\<rparr>);
            handle \<leftarrow> handle_at fs key;
            (rc, fs) \<leftarrow> transmit_read_request host fs handle seq (dp_Arg3 pk - readop_bytes_read ?op pk);
            if rc \<noteq> 0
            then do {
              fs \<leftarrow> reply fs ?p 0 ERROR_SEEK_ERROR;
              Some (unlink_pending fs a)
            }
            else Some fs
          })"
  proof -
    let ?q = "update_op (q\<lparr>seqno := seqno q + 1\<rparr>) a (\<lambda>op. op\<lparr>request_seqno := seqno q\<rparr>)"
    have kq2: "keeps fs ?q" using kq by (intro keeps_op) simp_all
    obtain h2 where h2: "handle_at q key = Some h2" using hq by blast
    obtain r where "transmit_read_request host ?q h2 (seqno q) (dp_Arg3 pk - readop_bytes_read ?op pk) = Some (0, r)" "keeps fs r"
      using transmit_read_keeps [OF kq2] by blast
    then show ?thesis using h2 completed_keeps by (simp add: Let_def)
  qed
  show ?thesis
    using assms(2,5) k fits fin again
    by (simp add: complete_read_def Let_def q_def [symmetric])
qed

lemma completed_write:
  assumes "transport_ok fs" and "packets fs (input_packet op) = Some pk" and "distinct (map fst (pending fs))"
    and "live_lock fs (dp_Arg1 pk)" and "0 \<le> sint (dp_Arg2 pk + dp_Arg3 pk - (w_source op + w_length op))"
  shows "completed fs a (input_packet op) (complete_write host fs (a, op) msg)"
proof -
  let ?p = "input_packet op"
  have d: "?p \<in> dom (packets fs)" using assms(2) by auto
  obtain key h where k: "HANDLE_FROM_LOCK fs (dp_Arg1 pk) = Some key" "handle_at fs key = Some h"
    using assms(4) by (auto simp: live_lock_def)
  let ?c = "w_source op + w_length op"
  let ?n = "signed_min (dp_Arg2 pk + dp_Arg3 pk - ?c) 4096"
  let ?q = "update_op (fs\<lparr>seqno := seqno fs + 1\<rparr>) a (\<lambda>op. op\<lparr>request_seqno := seqno fs\<rparr>)"
  have kq: "keeps fs (update_op ?q a (\<lambda>op. op\<lparr>w_source := ?c, w_length := ?n\<rparr>))"
    using calm_keeps [OF calm_refl [OF assms(1)]] by (intro keeps_op) simp_all
  obtain r where "transmit_write_request host ?q h a (seqno fs) ?c ?n = Some (0, r)" "keeps fs r"
    using transmit_keeps [OF kq, of "(RL_MSG_INIT (Write_file_request (handle_id h) (mread (client_mem ?q) (unat ?c) (unat ?n))))
         \<lparr>hdr_seq := seqno fs\<rparr>" host] signed_min_bound [OF assms(5)]
    unfolding transmit_write_request_def by (auto simp: valid_array_def)
  then have again: "completed fs a ?p (do {
       (rc, fs) \<leftarrow> transmit_write_request host ?q h a (seqno fs) ?c ?n;
       if rc \<noteq> 0
       then do {
         fs \<leftarrow> reply fs ?p (?c - dp_Arg2 pk) ERROR_SEEK_ERROR;
         Some (unlink_pending fs a)
       }
       else Some fs
     })" using completed_keeps by simp
  show ?thesis
    using assms(2) k again completed_reply [OF calm_keeps [OF calm_refl [OF assms(1)]] d assms(3)]
    by (simp add: complete_write_def Let_def)
qed

section \<open>Keeping the books\<close>

text \<open>
  The invariant: operations have distinct addresses and packets, each waits for the answer
  its completion reads, and the packets still owned are the ones that wait and the
  \<open>ACTION_DIE\<close> packets, whose handler does nothing: they are swallowed.
\<close>

definition ACTION_DIE :: LONG where "ACTION_DIE = 5"

definition books :: "rl_amigafs \<Rightarrow> bool" where
  "books fs \<longleftrightarrow>
     transport_ok fs \<and> distinct (map fst (tickets fs)) \<and> distinct (map (fst \<circ> snd) (tickets fs)) \<and>
     (fst \<circ> snd) ` set (tickets fs) \<subseteq> dom (packets fs) \<and> finite (dom (packets fs)) \<and>
     (\<forall>p\<in>dom (packets fs) - (fst \<circ> snd) ` set (tickets fs). map_option dp_Type (packets fs p) = Some ACTION_DIE) \<and>
     (\<forall>(a, p, c, k)\<in>set (tickets fs). k = answer_kind c)"

text \<open>What an answer may rely on: the program has not freed the lock it is working with, and the
  controller sends at most a buffer full of data.\<close>

definition valid_answer :: "rl_amigafs \<Rightarrow> rl_msg \<Rightarrow> bool" where
  "valid_answer fs msg \<longleftrightarrow>
     (\<forall>a op pk. find_pending_op fs msg = Some (a, op) \<longrightarrow> packets fs (input_packet op) = Some pk \<longrightarrow>
        (let l = BCPL_CAST (dp_Arg1 pk)
         in case op_callback op of
              complete_findinput_fn \<Rightarrow> \<exists>s. str_at (client_mem fs) (unat (BSTR_PTR (BCPL_CAST (dp_Arg3 pk)))) s
            | complete_examine_next_fn \<Rightarrow> live_lock fs l
            | complete_locate_object_fn \<Rightarrow>
                (l = 0 \<or> live_lock fs l) \<and> BSTR_LEN (client_mem fs) (BCPL_CAST (dp_Arg2 pk)) < 108
            | complete_read_fn \<Rightarrow> live_lock fs (dp_Arg1 pk) \<and>
                (case body msg of Read_file_answer bytes \<Rightarrow> length bytes \<le> 4096 | _ \<Rightarrow> True)
            | complete_write_fn \<Rightarrow> live_lock fs (dp_Arg1 pk) \<and>
                0 \<le> sint (dp_Arg2 pk + dp_Arg3 pk - (w_source op + w_length op))))"

lemma find_op_some: "find_op s ops = Some x \<Longrightarrow> x \<in> set ops \<and> request_seqno (snd x) = s"
  by (induction ops) (auto split: if_splits)

lemma answer_completed:
  assumes "books fs" and "find_pending_op fs msg = Some (a, op)" and "valid_answer fs msg"
  shows "\<exists>rc fs'. rl_amigafs_process_network_message host fs msg = Some (rc, fs') \<and> completes fs a (input_packet op) fs' \<and>
           (rc = 0 \<longleftrightarrow> rl_msg_kind_of msg \<in> {expected_answer_type op, RL_MSG_ERROR_ANSWER})"
proof -
  let ?p = "input_packet op"
  have mem: "(a, op) \<in> set (pending fs)" using find_op_some assms(2) by (force simp: find_pending_op_def)
  then have tk: "(a, ?p, op_callback op, expected_answer_type op) \<in> set (tickets fs)" by (force simp: tickets_def)
  have t: "transport_ok fs" "distinct (map fst (pending fs))" using assms(1) tickets_fst by (simp_all add: books_def)
  obtain pk where pk: "packets fs ?p = Some pk" using assms(1) tk by (force simp: books_def)
  have typed: "expected_answer_type op = answer_kind (op_callback op)" using assms(1) tk by (force simp: books_def)
  have d: "?p \<in> dom (packets fs)" using pk by auto
  note rp = completed_reply [OF calm_keeps [OF calm_refl [OF t(1)]] d t(2), of a]
  show ?thesis
  proof (cases "rl_msg_kind_of msg = expected_answer_type op")
    case True
    then have kind: "kind_of (body msg) = answer_kind (op_callback op)" using typed by (simp add: rl_msg_kind_of_def)
    have "completed fs a ?p (run_completion (op_callback op) host fs (a, op) msg)"
      using assms(2,3) pk kind
        completed_findinput [OF t(1) pk t(2)] completed_locate_object [OF t(1) pk t(2)]
        completed_examine_next [OF t(1) pk t(2)] completed_read [OF t(1) pk t(2) mem] completed_write [OF t(1) pk t(2)]
      by (cases "op_callback op"; cases "body msg")
        (simp_all add: valid_answer_def Let_def RL_MSG_OPEN_HANDLE_ANSWER_def RL_MSG_FIND_NEXT_FILE_ANSWER_def
          RL_MSG_READ_FILE_ANSWER_def RL_MSG_WRITE_FILE_ANSWER_def)
    then show ?thesis
      using True assms(2) by (auto simp: rl_amigafs_process_network_message_def completed_def)
  next
    case False
    have rs: "\<exists>q. reply fs ?p x y = Some q \<and> completes fs a ?p (unlink_pending q a)" for x y
      using rp [of x y] by (auto simp: completed_def split: bind_splits)
    show ?thesis
    proof (cases "\<exists>code. body msg = Error_answer code")
      case True
      then obtain code where "body msg = Error_answer code" by blast
      then show ?thesis
        using False assms(2) rs [of DOSFALSE "translate_error_code code"]
        by (auto simp: rl_amigafs_process_network_message_def RL_MSG_ERROR_ANSWER_def rl_msg_kind_of_def)
    next
      case other: False
      then show ?thesis
        using False assms(2) rs [of DOSFALSE ERROR_DEVICE_NOT_MOUNTED]
        by (cases "body msg")
          (auto simp: rl_amigafs_process_network_message_def RL_MSG_ERROR_ANSWER_def rl_msg_kind_of_def)
    qed
  qed
qed

section \<open>Any order of packets and answers\<close>

text \<open>
  A state is the file system with the list of the packets that have come in. A packet comes
  from a program that is not waiting for it already, and has valid arguments or asks the file
  system to die; memory that is allocated is not in use;
  answers come in any order, also unexpected ones; between the steps the programs change
  their memory and the peer does what a peer does.
\<close>

inductive fs_step :: "host \<Rightarrow> rl_amigafs \<times> addr list \<Rightarrow> rl_amigafs \<times> addr list \<Rightarrow> bool" for host where
  fs_packet: "p \<notin> dom (packets fs) \<Longrightarrow> fs0 = fs\<lparr>packets := (packets fs)(p \<mapsto> pk), allocs := as\<rparr> \<Longrightarrow>
    set (take 1 as) \<inter> fst ` set (pending fs) = {} \<Longrightarrow> valid_packet fs0 pk \<Longrightarrow>
    process_fs_packet host fs0 p = Some fs' \<Longrightarrow> fs_step host (fs, ps) (fs', ps @ [p])"
| fs_die: "p \<notin> dom (packets fs) \<Longrightarrow> fs0 = fs\<lparr>packets := (packets fs)(p \<mapsto> pk), allocs := as\<rparr> \<Longrightarrow> dp_Type pk = ACTION_DIE \<Longrightarrow>
    process_fs_packet host fs0 p = Some fs' \<Longrightarrow> fs_step host (fs, ps) (fs', ps @ [p])"
| fs_answer: "fs0 = fs\<lparr>allocs := as\<rparr> \<Longrightarrow> valid_answer fs0 msg \<Longrightarrow>
    rl_amigafs_process_network_message host fs0 msg = Some (rc, fs') \<Longrightarrow> fs_step host (fs, ps) (fs', ps)"
| fs_program: "fs' = fs\<lparr>client_mem := m\<rparr> \<Longrightarrow> fs_step host (fs, ps) (fs', ps)"
| fs_peer: "peer.more fs' = peer.more fs \<Longrightarrow> transport_ok fs' \<Longrightarrow> fs_step host (fs, ps) (fs', ps)"

definition replied :: "rl_amigafs \<Rightarrow> addr list" where
  "replied fs = map (fst \<circ> snd) (replies fs)"

definition waiting :: "rl_amigafs \<Rightarrow> addr list" where
  "waiting fs = map (input_packet \<circ> snd) (pending fs)"

definition swallowed :: "rl_amigafs \<Rightarrow> addr set" where
  "swallowed fs = dom (packets fs) - set (waiting fs)"

definition accounted :: "rl_amigafs \<times> addr list \<Rightarrow> bool" where
  "accounted s \<longleftrightarrow> books (fst s) \<and>
     mset (snd s) = mset (replied (fst s)) + mset (waiting (fst s)) + mset_set (swallowed (fst s))"

lemma waiting_tickets: "waiting fs = map (fst \<circ> snd) (tickets fs)"
  by (simp add: waiting_def tickets_def split_def)

lemma filter_ticket:
  assumes "distinct (map fst xs)" and "(a, p, r) \<in> set xs"
  shows "mset (map (fst \<circ> snd) xs) = mset (map (fst \<circ> snd) (filter (\<lambda>t. fst t \<noteq> a) xs)) + {#p#}"
  using assms
proof (induction xs)
  case (Cons x xs)
  show ?case
  proof (cases "x = (a, p, r)")
    case True
    then have "filter (\<lambda>t. fst t \<noteq> a) xs = xs" using Cons.prems(1) by (auto simp: filter_id_conv image_iff)
    then show ?thesis using True by simp
  next
    case False
    then have "fst x \<noteq> a" using Cons.prems by (auto simp: image_iff)
    then show ?thesis using Cons False by simp
  qed
qed simp

lemma books_settles:
  assumes "books fs" and "p \<notin> dom (packets fs)" and "fs0 = fs\<lparr>packets := (packets fs)(p \<mapsto> pk), allocs := as\<rparr>"
    and "set (take 1 as) \<inter> fst ` set (pending fs) = {}" and "settles fs0 p fs'"
  shows "books fs'" "mset (replied fs') + mset (waiting fs') = mset (replied fs) + mset (waiting fs) + {#p#}"
    "swallowed fs' = swallowed fs"
proof -
  have f: "tickets fs0 = tickets fs" "replies fs0 = replies fs" "packets fs0 = (packets fs)(p \<mapsto> pk)" "allocs fs0 = as"
    using assms(3) by (simp_all add: tickets_def)
  have ok: "transport_ok fs'" using assms(5) by (simp add: settles_def advances_def)
  consider (reply) port pk' where "replies fs' = replies fs @ [(port, p, pk')]" "tickets fs' = tickets fs"
      "packets fs' = packets fs"
    | (wait) a c where "replies fs' = replies fs" "tickets fs' = (a, p, c, answer_kind c) # tickets fs"
      "packets fs' = (packets fs)(p \<mapsto> pk)" "a \<in> set (take 1 as)"
    using assms(2,5) f by (auto simp: settles_def domIff fun_upd_idem)
  then have "books fs' \<and> mset (replied fs') + mset (waiting fs') = mset (replied fs) + mset (waiting fs) + {#p#} \<and>
      swallowed fs' = swallowed fs"
  proof cases
    case reply
    then show ?thesis using assms(1) ok by (simp add: books_def replied_def swallowed_def waiting_tickets)
  next
    case wait
    have "a \<notin> fst ` set (tickets fs)"
      using wait(4) assms(4) tickets_fst [of fs] by (metis disjoint_iff image_set)
    moreover have "p \<notin> (fst \<circ> snd) ` set (tickets fs)" using assms(1,2) by (auto simp: books_def)
    ultimately show ?thesis
      using wait assms(1,2) ok by (auto simp: books_def replied_def swallowed_def waiting_tickets image_comp)
  qed
  then show "books fs'" "mset (replied fs') + mset (waiting fs') = mset (replied fs) + mset (waiting fs) + {#p#}"
    "swallowed fs' = swallowed fs" by auto
qed

lemma books_completes:
  assumes "books fs" and "(a, op) \<in> set (pending fs)" and "completes fs a (input_packet op) fs'"
  shows "books fs'" "mset (replied fs') + mset (waiting fs') = mset (replied fs) + mset (waiting fs)"
    "swallowed fs' = swallowed fs"
proof -
  let ?p = "input_packet op"
  have ok: "transport_ok fs'" using assms(3) by (simp add: completes_def advances_def)
  have tk: "(a, ?p, op_callback op, expected_answer_type op) \<in> set (tickets fs)" using assms(2) by (force simp: tickets_def)
  have d: "distinct (map fst (tickets fs))" "distinct (map (fst \<circ> snd) (tickets fs))"
    "(fst \<circ> snd) ` set (tickets fs) \<subseteq> dom (packets fs)" using assms(1) by (simp_all add: books_def)
  consider (reply) port pk where "replies fs' = replies fs @ [(port, ?p, pk)]"
      "tickets fs' = filter (\<lambda>t. fst t \<noteq> a) (tickets fs)" "packets fs' = (packets fs)(?p := None)"
    | (wait) "replies fs' = replies fs" "tickets fs' = tickets fs" "packets fs' = packets fs"
    using assms(3) by (auto simp: completes_def)
  then have "books fs' \<and> mset (replied fs') + mset (waiting fs') = mset (replied fs) + mset (waiting fs) \<and> swallowed fs' = swallowed fs"
  proof cases
    case reply
    have m: "mset (waiting fs) = mset (waiting fs') + {#?p#}"
      using filter_ticket [OF d(1) tk] reply(2) by (simp add: waiting_tickets)
    then have e: "mset (waiting fs) = mset (waiting fs' @ [?p])" by simp
    have "distinct (waiting fs' @ [?p])" "set (waiting fs) = set (waiting fs' @ [?p])"
      using mset_eq_imp_distinct_iff [OF e] mset_eq_setD [OF e] d(2) by (simp_all add: waiting_tickets)
    then have w: "set (waiting fs') = set (waiting fs) - {?p}" "?p \<in> set (waiting fs)" by auto
    then have "dom (packets fs') - set (waiting fs') = dom (packets fs) - set (waiting fs)" "set (waiting fs') \<subseteq> dom (packets fs')"
      using reply(3) d(3) by (auto simp: waiting_tickets)
    moreover have "distinct (map (fst \<circ> snd) (tickets fs'))" "distinct (map fst (tickets fs'))"
      using d reply(2) by (simp_all add: distinct_map_filter)
    ultimately show ?thesis
      using assms(1) ok reply m w by (auto simp: books_def replied_def swallowed_def waiting_tickets)
  next
    case wait
    then show ?thesis using assms(1) ok by (simp add: books_def replied_def swallowed_def waiting_tickets)
  qed
  then show "books fs'" "mset (replied fs') + mset (waiting fs') = mset (replied fs) + mset (waiting fs)"
    "swallowed fs' = swallowed fs" by auto
qed

lemma allocs_books: "books (fs\<lparr>allocs := as\<rparr>) = books fs" "waiting (fs\<lparr>allocs := as\<rparr>) = waiting fs"
  "replied (fs\<lparr>allocs := as\<rparr>) = replied fs" "swallowed (fs\<lparr>allocs := as\<rparr>) = swallowed fs"
  using trunc_ok(1) [of "fs\<lparr>allocs := as\<rparr>" fs] by (simp_all add: books_def tickets_def waiting_def replied_def swallowed_def)

lemma books_swallows:
  assumes "books fs" and "p \<notin> dom (packets fs)" and "fs' = fs\<lparr>packets := (packets fs)(p \<mapsto> pk), allocs := as\<rparr>"
    and "dp_Type pk = ACTION_DIE"
  shows "books fs'" "replied fs' = replied fs" "waiting fs' = waiting fs" "swallowed fs' = insert p (swallowed fs)"
    "p \<notin> swallowed fs" "finite (swallowed fs)"
proof -
  have t: "transport_ok fs' = transport_ok fs" "tickets fs' = tickets fs"
    using trunc_ok(1) [of fs' fs] assms(3) by (simp_all add: tickets_def peer.truncate_def)
  show "books fs'" using assms t by (auto simp: books_def)
  show r: "replied fs' = replied fs" "waiting fs' = waiting fs" using assms(3) by (simp_all add: replied_def waiting_def)
  have "p \<notin> set (waiting fs)" using assms(1,2) by (auto simp: books_def waiting_tickets)
  then show "swallowed fs' = insert p (swallowed fs)" using r(2) assms(3) by (auto simp: swallowed_def)
  show "p \<notin> swallowed fs" "finite (swallowed fs)" using assms(1,2) by (auto simp: swallowed_def books_def)
qed

lemma accounted_step: "fs_step host s s' \<Longrightarrow> accounted s \<Longrightarrow> accounted s'"
proof (induction rule: fs_step.induct)
  case (fs_packet p fs fs0 as pk fs' ps)
  have ok: "transport_ok fs0" "packets fs0 p = Some pk"
    using fs_packet.prems fs_packet.hyps(2) trunc_ok(1) [of fs0 fs] by (simp_all add: accounted_def books_def peer.truncate_def)
  have "settles fs0 p fs'" using packet_settled [OF ok fs_packet.hyps(4), of host] fs_packet.hyps(5) by (simp add: settled_def)
  then show ?case
    using books_settles [OF _ fs_packet.hyps(1-3)] fs_packet.prems by (auto simp: accounted_def)
next
  case (fs_die p fs fs0 as pk fs' ps)
  have "fs' = fs0" using fs_die.hyps(2-4)
    by (simp add: process_fs_packet_def handler_for_def packet_handlers_range_1_def action_die_def ACTION_DIE_def
        ACTION_READ_def ACTION_WRITE_def)
  moreover have "books fs" "mset ps = mset (replied fs) + mset (waiting fs) + mset_set (swallowed fs)"
    using fs_die.prems by (simp_all add: accounted_def)
  moreover note sw = books_swallows [OF calculation(2) fs_die.hyps(1,2,3)]
  ultimately show ?case using sw(1,5,6) by (simp add: accounted_def sw(2-4))
next
  case (fs_answer fs0 as fs msg rc fs' ps)
  have b: "books fs0" "waiting fs0 = waiting fs" "replied fs0 = replied fs" "swallowed fs0 = swallowed fs"
    using fs_answer allocs_books by (simp_all add: accounted_def)
  show ?case
  proof (cases "find_pending_op fs0 msg")
    case None
    then show ?thesis
      using fs_answer.hyps(3) b fs_answer.prems by (simp add: rl_amigafs_process_network_message_def accounted_def)
  next
    case (Some x)
    obtain a op where x: "x = (a, op)" by (cases x)
    then have m: "(a, op) \<in> set (pending fs0)" using Some find_op_some by (force simp: find_pending_op_def)
    have "completes fs0 a (input_packet op) fs'"
      using answer_completed [OF b(1) _ fs_answer.hyps(2), of a op host] Some x fs_answer.hyps(3) by auto
    from books_completes [OF b(1) m this] show ?thesis using b fs_answer.prems by (simp add: accounted_def)
  qed
next
  case (fs_program fs' m fs ps)
  have "peer.truncate fs' = peer.truncate fs" using fs_program by simp
  then show ?case
    using fs_program trunc_ok(1) [of fs' fs] by (simp add: accounted_def books_def replied_def waiting_def swallowed_def tickets_def)
next
  case (fs_peer fs' fs ps)
  then show ?case
    using more_fs [of fs' fs] by (simp add: accounted_def books_def replied_def waiting_def swallowed_def tickets_def)
qed

section \<open>Properties\<close>

text \<open>A file system with a lock on its root and nothing under way, for the examples.\<close>

definition example_fs :: rl_amigafs where
  "example_fs =
     peer.extend example_peer
       (rl_amigafs.fields 7 64 128 \<lparr>dl_Name = lit ''TBL0'', dl_VolumeDate = 0, dl_Lock = 0, dl_Task = 64, dl_DiskType = ID_DOS_DISK\<rparr>
          [] (new_handle RL_HANDLE_DEVICE (- 1) 0 (lit ''TBL0''))
          [16 \<mapsto> \<lparr>fl_Key = Root_handle, fl_Access = SHARED_LOCK, fl_Task = 64, fl_Volume = 32\<rparr>] Map.empty
          Map.empty Map.empty Map.empty Map.empty (\<lambda>_. 0) [] [] [] [] [] [])"

definition example_packet :: "LONG \<Rightarrow> LONG \<Rightarrow> DosPacket" where
  "example_packet ty arg1 = \<lparr>dp_Port = 200, dp_Type = ty, dp_Res1 = 0, dp_Res2 = 0, dp_Arg1 = arg1, dp_Arg2 = 1000, dp_Arg3 = 0\<rparr>"

lemma example_fs_fields [simp]:
  "peer.truncate example_fs = example_peer" "packets example_fs = Map.empty" "pending example_fs = []"
  "replies example_fs = []" "locks example_fs = [16 \<mapsto> \<lparr>fl_Key = Root_handle, fl_Access = SHARED_LOCK, fl_Task = 64, fl_Volume = 32\<rparr>]"
  "fs_root_handle example_fs = new_handle RL_HANDLE_DEVICE (- 1) 0 (lit ''TBL0'')" "seqno example_fs = 7"
  by (simp_all add: example_fs_def example_peer_def peer.defs rl_amigafs.defs)

lemma example_fs_ok: "transport_ok example_fs" "books example_fs"
proof -
  show t: "transport_ok example_fs"
    using example_peer_ok(2)
    by (simp add: transport_ok_def tinv_def example_fs_def example_peer_def peer.defs rl_amigafs.defs)
  then show "books example_fs" by (simp add: books_def tickets_def)
qed

text \<open>
  Claim C16: every packet of a program is settled at once. For every packet type but
  \<open>ACTION_DIE\<close>, with valid arguments, \<open>process_fs_packet\<close> returns, whatever the allocator does;
  the packet is then replied to, exactly once, and no longer owned, or one pending operation
  is added that waits for it and for the answer its completion reads. No other packet is
  replied to and no other operation is lost.
\<close>
theorem packet_replied_or_pending:
  assumes "transport_ok fs" and "packets fs p = Some pk" and "valid_packet fs pk"
  shows "\<exists>fs'. process_fs_packet host fs p = Some fs' \<and> transport_ok fs' \<and>
           ((\<exists>port pk. replies fs' = replies fs @ [(port, p, pk)] \<and> tickets fs' = tickets fs \<and>
               packets fs' = (packets fs)(p := None)) \<or>
            (\<exists>a c. replies fs' = replies fs \<and> tickets fs' = (a, p, c, answer_kind c) # tickets fs \<and>
               packets fs' = packets fs))"
  using packet_settled [OF assms, of host] unfolding settled_def settles_def advances_def by blast

theorem packet_replied_or_pending_witness:
  "\<exists>fs'. process_fs_packet example_host (example_fs\<lparr>packets := [8 \<mapsto> example_packet 15 4]\<rparr>) 8 = Some fs' \<and>
     ((\<exists>port pk. replies fs' = [(port, 8, pk)] \<and> packets fs' = Map.empty) \<or> (\<exists>t. tickets fs' = [t]))"
proof -
  let ?fs = "example_fs\<lparr>packets := [8 \<mapsto> example_packet 15 4]\<rparr>"
  have "transport_ok ?fs" using trunc_ok(1) [of ?fs example_fs] example_fs_ok(1) by simp
  moreover have "valid_packet ?fs (example_packet 15 4)"
    by (simp add: valid_packet_def example_packet_def ACTION_READ_def ACTION_WRITE_def ACTION_SEEK_def ACTION_END_def
        ACTION_FINDINPUT_def ACTION_FINDOUTPUT_def live_lock_def HANDLE_FROM_LOCK_def handle_at_def new_handle_def BCPL_CAST_def)
  ultimately show ?thesis
    using packet_replied_or_pending [of ?fs 8 "example_packet 15 4" example_host] by (auto simp: tickets_def)
qed



end
