(* ===== verification/Rl_File_Server.thy ===== *)
theory Rl_File_Server
  imports Rl_Peer
begin

unbundle bit_operations_syntax

text \<open>
  The file server of the controller (\<^verbatim>\<open>src/src/file_server.c\<close>, the POSIX branches) and the state of
  the controller it works on (\<^verbatim>\<open>src/src/controller.h\<close>).

  The record \<open>controller\<close> extends \<open>peer\<close>: it is the peer with the controller as its user data. A
  pointer to one of its file handles is a \<open>handle_ref\<close>.

  The operating system is a parameter: a record \<open>posix\<close> of the calls the code makes, over a type
  \<open>'w\<close> of states of the world. Nothing is assumed of it but that \<^verbatim>\<open>pread\<close> does not return more
  than it was asked for and that names in a directory are strings of at most 255 bytes
  (\<open>posix_ok\<close>). \<open>posix_answer\<close> is the reference: the answer that a request shall get.
\<close>

section \<open>The operating system\<close>

datatype errno = EACCES | EISDIR | Other_errno

datatype access_mode = O_RDONLY | O_WRONLY | O_RDWR

datatype dir_result = Dir_entry cstring | Dir_end | Dir_error

text \<open>
  \<open>os_stat\<close> and \<open>os_fstat\<close> return whether the node is a directory and its size; \<open>os_open\<close> gets the
  access mode and whether \<^verbatim>\<open>O_CREAT\<close> is set and returns the descriptor or -1.
\<close>

record 'w posix =
  os_stat :: "cstring \<Rightarrow> 'w \<Rightarrow> (bool \<times> int) option \<times> 'w"
  os_open :: "cstring \<Rightarrow> access_mode \<times> bool \<Rightarrow> 'w \<Rightarrow> int \<times> 'w"
  os_fstat :: "int \<Rightarrow> 'w \<Rightarrow> (bool \<times> int) option \<times> 'w"
  os_errno :: "'w \<Rightarrow> errno"
  os_close :: "int \<Rightarrow> 'w \<Rightarrow> 'w"
  os_pread :: "int \<Rightarrow> nat \<Rightarrow> nat \<Rightarrow> 'w \<Rightarrow> rl_uint8 list option \<times> 'w"
  os_opendir :: "cstring \<Rightarrow> 'w \<Rightarrow> nat option \<times> 'w"
  os_closedir :: "nat \<Rightarrow> 'w \<Rightarrow> 'w"
  os_readdir :: "nat \<Rightarrow> 'w \<Rightarrow> dir_result \<times> 'w"
  os_fwrite_stdout :: "rl_uint8 list \<Rightarrow> 'w \<Rightarrow> 'w"

definition posix_ok :: "'w posix \<Rightarrow> bool" where
  "posix_ok os =
     ((\<forall>fd n off w. case fst (os_pread os fd n off w) of None \<Rightarrow> True | Some bs \<Rightarrow> length bs \<le> n) \<and>
      (\<forall>d w. case fst (os_readdir os d w) of Dir_entry name \<Rightarrow> valid_string name | _ \<Rightarrow> True))"

section \<open>The controller\<close>

datatype controller_state =
    CONTROLLER_INITIAL
  | CONTROLLER_WAIT_EXECUTABLE_LAUNCHED
  | CONTROLLER_FILE_SERVING
  | CONTROLLER_ERROR

definition RL_MAX_FILE_HANDLES :: nat where "RL_MAX_FILE_HANDLES = 16"

record rl_filehandle =
  fh_handle :: int
  dir_handle :: "nat option"
  native_path :: cstring
  fh_type :: rl_uint8
  fh_size :: rl_uint32

record 'w controller = peer +
  ctl_state :: controller_state
  root_handle :: rl_filehandle
  vinput_handle :: rl_filehandle
  voutput_handle :: rl_filehandle
  handles :: "rl_filehandle list"
  executable :: cstring
  arguments :: "cstring list"
  ctl_result :: rl_uint32
  world :: 'w

datatype handle_ref = Root_handle | Vinput_handle | Voutput_handle | Slot nat

fun the_handle :: "'w controller \<Rightarrow> handle_ref \<Rightarrow> rl_filehandle" where
  "the_handle self Root_handle = root_handle self"
| "the_handle self Vinput_handle = vinput_handle self"
| "the_handle self Voutput_handle = voutput_handle self"
| "the_handle self (Slot i) = handles self ! i"

fun set_handle :: "'w controller \<Rightarrow> handle_ref \<Rightarrow> (rl_filehandle \<Rightarrow> rl_filehandle) \<Rightarrow> 'w controller" where
  "set_handle self Root_handle f = self\<lparr>root_handle := f (root_handle self)\<rparr>"
| "set_handle self Vinput_handle f = self\<lparr>vinput_handle := f (vinput_handle self)\<rparr>"
| "set_handle self Voutput_handle f = self\<lparr>voutput_handle := f (voutput_handle self)\<rparr>"
| "set_handle self (Slot i) f = self\<lparr>handles := (handles self)[i := f (handles self ! i)]\<rparr>"

section \<open>Helpers\<close>

definition reply_with_error ::
  "host \<Rightarrow> 'w controller \<Rightarrow> rl_msg \<Rightarrow> rl_uint32 \<Rightarrow> (int \<times> 'w controller) option" where
  "reply_with_error host peer msg error_code = do {
     (rc, peer) \<leftarrow> peer_transmit_message host peer
                     ((RL_MSG_INIT (Error_answer error_code))\<lparr>hdr_seq := hdr_seq msg\<rparr>);
     Some (1, peer)
   }"

fun translate_posix_errno :: "errno \<Rightarrow> rl_proto_neterror" where
  "translate_posix_errno EACCES = RL_NETERR_ACCESS_DENIED"
| "translate_posix_errno EISDIR = RL_NETERR_NOT_A_FILE"
| "translate_posix_errno Other_errno = RL_NETERR_IO_ERROR"

definition get_handle_from_id :: "rl_uint32 \<Rightarrow> handle_ref option" where
  "get_handle_from_id handle_id =
     (if handle_id = - 1 then Some Root_handle
      else if handle_id = RL_FILEHANDLE_VIRTUAL_INPUT then Some Vinput_handle
      else if handle_id = RL_FILEHANDLE_VIRTUAL_OUTPUT then Some Voutput_handle
      else if unat handle_id \<ge> RL_MAX_FILE_HANDLES then None
      else Some (Slot (unat handle_id)))"

definition get_filehandle_index :: "handle_ref \<Rightarrow> rl_uint32" where
  "get_filehandle_index handle =
     (case handle of
        Slot i \<Rightarrow> of_nat i
      | _ \<Rightarrow> - 1)"

text \<open>The string left in a fresh buffer of \<open>n\<close> bytes by \<open>rl_format_msg\<close>; it never fails for string arguments.\<close>

definition fix_path :: "nat \<Rightarrow> cstring \<Rightarrow> cstring \<Rightarrow> cstring option" where
  "fix_path dest_size input root_path =
     formatted Posix dest_size (lit ''%s/%s'') [AStr root_path, AStr input]"

text \<open>The string left in a buffer of \<open>n\<close> bytes by a string builder.\<close>

definition built :: "nat \<Rightarrow> cstring list \<Rightarrow> cstring" where
  "built n parts =
     (case foldl (\<lambda>mb part. fst (rl_strbuf_append mb part)) (rl_strbuf_init (\<lambda>_. 0) 0 n) parts of
        (m, buf) \<Rightarrow> takeWhile (\<lambda>c. c \<noteq> 0) (mread m 0 n))"

section \<open>Opening and closing\<close>

text \<open>The loop that looks for a free slot.\<close>

fun find_slot :: "rl_filehandle list \<Rightarrow> nat \<Rightarrow> nat option" where
  "find_slot [] i = None"
| "find_slot (h # hs) i = (if fh_handle h = 0 then Some i else find_slot hs (i + 1))"

text \<open>
  The part of \<open>make_handle\<close> between the search for a slot and the final copy of the path: it
  fills in type, handle and size, or gives the error.
\<close>

definition open_node ::
  "'w posix \<Rightarrow> 'w controller \<Rightarrow> nat \<Rightarrow> cstring \<Rightarrow> rl_uint32 \<Rightarrow> (rl_proto_neterror + unit) \<times> 'w controller" where
  "open_node os self slot path mode =
     (let s = Slot slot;
          (stat_error, is_dir, self) =
            (if mode AND RL_OPENFLAG_WRITE = 0
             then
               (case os_stat os path (world self) of
                  (None, w) \<Rightarrow> (True, False, self\<lparr>world := w\<rparr>)
                | (Some (d, _), w) \<Rightarrow> (False, d, self\<lparr>world := w\<rparr>))
             else (False, False, self))
      in if stat_error
         then (Inl RL_NETERR_NOT_FOUND, set_handle self s (\<lambda>h. h\<lparr>fh_handle := 0\<rparr>))
         else
           let self = set_handle self s
                 (\<lambda>h. h\<lparr>fh_type := (if is_dir then RL_NODE_TYPE_DIRECTORY else RL_NODE_TYPE_FILE)\<rparr>)
           in if is_dir
              then (Inr (), set_handle self s (\<lambda>h. h\<lparr>fh_handle := - 1, fh_size := 0\<rparr>))
              else if mode AND RL_OPENFLAG_WRITE = 0 \<and> mode AND RL_OPENFLAG_READ = 0
              then (Inl RL_NETERR_INVALID_VALUE, self)
              else
                let flags = (if mode AND RL_OPENFLAG_WRITE \<noteq> 0
                             then if mode AND RL_OPENFLAG_READ \<noteq> 0 then O_RDWR else O_WRONLY
                             else O_RDONLY);
                    (fd, w) = os_open os path (flags, mode AND RL_OPENFLAG_CREATE \<noteq> 0) (world self);
                    self = set_handle (self\<lparr>world := w\<rparr>) s (\<lambda>h. h\<lparr>fh_handle := fd\<rparr>);
                    (st, w) = (if fd = - 1 then (None, w) else os_fstat os fd w);
                    self = self\<lparr>world := w\<rparr>
                in (case st of
                      None \<Rightarrow>
                        (Inl (translate_posix_errno (os_errno os w)),
                         set_handle (self\<lparr>world := if fd \<noteq> - 1 then os_close os fd w else w\<rparr>) s
                           (\<lambda>h. h\<lparr>fh_handle := 0\<rparr>))
                    | Some (_, sz) \<Rightarrow>
                        (Inr (), set_handle self s (\<lambda>h. h\<lparr>fh_size := of_int sz\<rparr>))))"

definition make_handle ::
  "'w posix \<Rightarrow> 'w controller \<Rightarrow> cstring \<Rightarrow> rl_uint32 \<Rightarrow>
     ((rl_proto_neterror + handle_ref) \<times> 'w controller) option" where
  "make_handle os self path mode = do {
     npath \<leftarrow> fix_path 260 path (native_path (root_handle self));
     (case find_slot (handles self) 0 of
        None \<Rightarrow> Some (Inl RL_NETERR_TOO_MANY_FILES_OPEN, self)
      | Some slot \<Rightarrow>
          (case open_node os self slot npath mode of
             (Inl error, self) \<Rightarrow> Some (Inl error, self)
           | (Inr _, self) \<Rightarrow> do {
               stored \<leftarrow> copied 260 npath;
               Some (Inr (Slot slot), set_handle self (Slot slot) (\<lambda>h. h\<lparr>native_path := stored\<rparr>))
             }))
   }"

definition open_handle_request ::
  "host \<Rightarrow> 'w posix \<Rightarrow> 'w controller \<Rightarrow> rl_msg \<Rightarrow> cstring \<Rightarrow> rl_uint32 \<Rightarrow> (int \<times> 'w controller) option" where
  "open_handle_request host os peer msg path mode = do {
     (handle, peer) \<leftarrow> make_handle os peer path mode;
     (case handle of
        Inl error \<Rightarrow> reply_with_error host peer msg (neterror_code error)
      | Inr h \<Rightarrow>
          peer_transmit_message host peer
            ((RL_MSG_INIT (Open_handle_answer (get_filehandle_index h) (fh_size (the_handle peer h))
                             (fh_type (the_handle peer h))))\<lparr>hdr_seq := hdr_seq msg\<rparr>))
   }"

definition close_handle_request ::
  "host \<Rightarrow> 'w posix \<Rightarrow> 'w controller \<Rightarrow> rl_msg \<Rightarrow> rl_uint32 \<Rightarrow> (int \<times> 'w controller) option" where
  "close_handle_request host os peer msg handle_id =
     (if handle_id = RL_FILEHANDLE_VIRTUAL_INPUT \<or> handle_id = RL_FILEHANDLE_VIRTUAL_OUTPUT
      then Some (0, peer)
      else
        (case get_handle_from_id handle_id of
           None \<Rightarrow> reply_with_error host peer msg (neterror_code RL_NETERR_INVALID_VALUE)
         | Some h \<Rightarrow>
             let peer = (if fh_handle (the_handle peer h) = - 1
                         then peer\<lparr>world := os_close os (fh_handle (the_handle peer h)) (world peer)\<rparr>
                         else peer)
             in Some (0, set_handle peer h (\<lambda>f. f\<lparr>fh_handle := 0\<rparr>))))"

section \<open>Directories\<close>

definition NAME_MAX :: nat where "NAME_MAX = 255"

definition find_next_file_request ::
  "host \<Rightarrow> 'w posix \<Rightarrow> 'w controller \<Rightarrow> rl_msg \<Rightarrow> rl_uint32 \<Rightarrow> rl_uint8 \<Rightarrow> (int \<times> 'w controller) option" where
  "find_next_file_request host os peer msg handle_id reset =
     (let answer = (\<lambda>b peer. peer_transmit_message host peer ((RL_MSG_INIT b)\<lparr>hdr_seq := hdr_seq msg\<rparr>))
      in (case get_handle_from_id handle_id of
            None \<Rightarrow> reply_with_error host peer msg (neterror_code RL_NETERR_INVALID_VALUE)
          | Some h \<Rightarrow>
              if fh_type (the_handle peer h) \<noteq> RL_NODE_TYPE_DIRECTORY
              then reply_with_error host peer msg (neterror_code RL_NETERR_NOT_A_DIRECTORY)
              else
                let peer =
                      (case dir_handle (the_handle peer h) of
                         Some d \<Rightarrow>
                           if reset \<noteq> 0
                           then set_handle (peer\<lparr>world := os_closedir os d (world peer)\<rparr>) h
                                  (\<lambda>f. f\<lparr>dir_handle := None\<rparr>)
                           else peer
                       | None \<Rightarrow> peer);
                    peer =
                      (if dir_handle (the_handle peer h) = None
                       then
                         (case os_opendir os (native_path (the_handle peer h)) (world peer) of
                            (d, w) \<Rightarrow> set_handle (peer\<lparr>world := w\<rparr>) h (\<lambda>f. f\<lparr>dir_handle := d\<rparr>))
                       else peer)
                in (case dir_handle (the_handle peer h) of
                      None \<Rightarrow> reply_with_error host peer msg (neterror_code RL_NETERR_IO_ERROR)
                    | Some d \<Rightarrow>
                        (case os_readdir os d (world peer) of
                           (Dir_end, w) \<Rightarrow>
                             answer (Find_next_file_answer 1 RL_NODE_TYPE_DIRECTORY [] 0) (peer\<lparr>world := w\<rparr>)
                         | (Dir_error, w) \<Rightarrow>
                             reply_with_error host (peer\<lparr>world := w\<rparr>) msg (neterror_code RL_NETERR_IO_ERROR)
                         | (Dir_entry name, w) \<Rightarrow>
                             let item_path = built NAME_MAX [native_path (the_handle peer h), lit ''/'', name]
                             in (case os_stat os item_path w of
                                   (None, w) \<Rightarrow>
                                     reply_with_error host (peer\<lparr>world := w\<rparr>) msg
                                       (neterror_code RL_NETERR_IO_ERROR)
                                 | (Some (is_dir, sz), w) \<Rightarrow>
                                     answer
                                       (Find_next_file_answer 0
                                          (if is_dir then RL_NODE_TYPE_DIRECTORY else RL_NODE_TYPE_FILE)
                                          name (of_int sz)) (peer\<lparr>world := w\<rparr>))))))"

section \<open>Reading and writing\<close>

definition read_file_request ::
  "host \<Rightarrow> 'w posix \<Rightarrow> 'w controller \<Rightarrow> rl_msg \<Rightarrow> rl_uint32 \<Rightarrow> rl_uint32 \<Rightarrow> rl_uint32 \<Rightarrow> rl_uint32 \<Rightarrow>
     (int \<times> 'w controller) option" where
  "read_file_request host os peer msg handle_id offset_hi offset_lo len =
     (case get_handle_from_id handle_id of
        None \<Rightarrow> reply_with_error host peer msg (neterror_code RL_NETERR_INVALID_VALUE)
      | Some h \<Rightarrow>
          if fh_handle (the_handle peer h) = 0
          then reply_with_error host peer msg (neterror_code RL_NETERR_NOT_A_FILE)
          else
            (case os_pread os (fh_handle (the_handle peer h)) 4096 (unat offset_lo) (world peer) of
               (None, w) \<Rightarrow>
                 reply_with_error host (peer\<lparr>world := w\<rparr>) msg (neterror_code RL_NETERR_IO_ERROR)
             | (Some bytes, w) \<Rightarrow> do {
                 (_, peer) \<leftarrow> peer_transmit_message host (peer\<lparr>world := w\<rparr>)
                                ((RL_MSG_INIT (Read_file_answer bytes))\<lparr>hdr_seq := hdr_seq msg\<rparr>);
                 Some (0, peer)
               }))"

text \<open>
  \<open>debug\<close> is whether the debug channel is on: then the log line reads the path through the
  handle, which may be NULL.
\<close>

definition write_file_request ::
  "host \<Rightarrow> 'w posix \<Rightarrow> bool \<Rightarrow> 'w controller \<Rightarrow> rl_msg \<Rightarrow> rl_uint32 \<Rightarrow> rl_uint8 list \<Rightarrow>
     (int \<times> 'w controller) option" where
  "write_file_request host os debug peer msg handle_id data =
     (let handle = get_handle_from_id handle_id
      in if debug \<and> handle = None then None
         else do {
           let peer = (if handle = Some Voutput_handle
                       then peer\<lparr>world := os_fwrite_stdout os data (world peer)\<rparr> else peer);
           (_, peer) \<leftarrow> peer_transmit_message host peer ((RL_MSG_INIT Write_file_answer)\<lparr>hdr_seq := hdr_seq msg\<rparr>);
           Some (0, peer)
         })"

section \<open>The dispatcher\<close>

definition rl_file_serve ::
  "host \<Rightarrow> 'w posix \<Rightarrow> bool \<Rightarrow> 'w controller \<Rightarrow> rl_msg \<Rightarrow> (int \<times> 'w controller) option" where
  "rl_file_serve host os debug peer msg = do {
     (_, peer) \<leftarrow>
       (case body msg of
          Read_file_request h hi lo n \<Rightarrow> read_file_request host os peer msg h hi lo n
        | Write_file_request h d \<Rightarrow> write_file_request host os debug peer msg h d
        | Open_handle_request p m \<Rightarrow> open_handle_request host os peer msg p m
        | Close_handle_request h \<Rightarrow> close_handle_request host os peer msg h
        | Find_next_file_request h r \<Rightarrow> find_next_file_request host os peer msg h r
        | _ \<Rightarrow>
            peer_transmit_message host peer
              ((RL_MSG_INIT (Error_answer (neterror_code RL_NETERR_BAD_REQUEST)))\<lparr>hdr_seq := hdr_seq msg\<rparr>));
     Some (0, peer)
   }"

section \<open>Paths\<close>

lemma fix_path_text:
  assumes "length root < 2 ^ 31" and "length input < 2 ^ 31" and "0 < n"
  shows "fix_path n input root = Some (take (n - 1) (root @ lit ''/'' @ input))"
proof -
  have "format_text Posix (lit ''/%s'') [AStr input] = Some (lit ''/'' @ input)"
    using format_text_s [of "lit ''/''" input Posix "[]" "[]"] assms(2) format_text_literal [of "[]" Posix "[]"]
    by (simp add: is_percent_def)
  then have "format_text Posix (lit ''%s/%s'') [AStr root, AStr input] = Some (root @ lit ''/'' @ input)"
    using format_text_s [of "[]" root Posix "lit ''/%s''" "[AStr input]"] assms(1) by simp
  from formatted_eq [OF assms(3) this] show ?thesis by (simp add: fix_path_def)
qed

lemma fix_path_some: "0 < n \<Longrightarrow> \<exists>s. fix_path n input root = Some s"
proof -
  assume n: "0 < n"
  have "\<exists>out. format_text Posix ([] :: cstring) [] = Some out"
    using format_text_literal [of "[]" Posix "[]"] by simp
  from format_s_some [OF this, of "lit ''/''" input]
  have "\<exists>out. format_text Posix (lit ''/%s'') [AStr input] = Some out"
    by (simp add: is_percent_def)
  from format_s_some [OF this, of "[]" root]
  have "\<exists>out. format_text Posix (lit ''%s/%s'') [AStr root, AStr input] = Some out"
    by simp
  then show ?thesis using formatted_eq [OF n] unfolding fix_path_def by blast
qed

lemma built_eq:
  assumes "list_all nul_free parts" and "0 < n"
  shows "built n parts = take (n - 1) (concat parts)"
proof -
  have "strbuf_holds 0 n mb s \<Longrightarrow> nul_free s \<Longrightarrow> list_all nul_free parts \<Longrightarrow>
      strbuf_holds 0 n (foldl (\<lambda>mb part. fst (rl_strbuf_append mb part)) mb parts) (s @ concat parts)" for mb s
  proof (induction parts arbitrary: mb s)
    case Nil
    then show ?case by simp
  next
    case (Cons t parts)
    obtain mb' ok where a: "rl_strbuf_append mb t = (mb', ok)" by (cases "rl_strbuf_append mb t")
    have "strbuf_holds 0 n mb' (s @ t)"
      using rl_strbuf_append_holds [of 0 n mb s t] Cons.prems a assms(2) by auto
    from Cons.IH [OF this] Cons.prems a show ?case by simp
  qed
  from this [OF rl_strbuf_init_holds [OF assms(2)]] assms(1)
  have "strbuf_holds 0 n (foldl (\<lambda>mb part. fst (rl_strbuf_append mb part)) (rl_strbuf_init (\<lambda>_. 0) 0 n) parts)
      (concat parts)" by simp
  then show ?thesis
    using assms(2) by (auto simp: built_def strbuf_holds_def split: prod.splits intro!: str_at_read)
qed

section \<open>Replies\<close>

lemma set_handle_trunc [simp]: "peer.truncate (set_handle c h f) = peer.truncate c"
  by (cases h) (simp_all add: peer.truncate_def)

lemma world_trunc [simp]: "peer.truncate (c\<lparr>world := w\<rparr>) = peer.truncate c"
  by (simp add: peer.truncate_def)

lemma set_handle_length [simp]:
  "length (handles (set_handle c h f)) = length (handles c)" "world (set_handle c h f) = world c"
  by (cases h; simp)+

text \<open>What the file server leaves alone: the size of the table and the launch.\<close>

definition same_launch :: "'w controller \<Rightarrow> 'w controller \<Rightarrow> bool" where
  "same_launch p q \<longleftrightarrow>
     length (handles q) = length (handles p) \<and> ctl_state q = ctl_state p \<and> ctl_result q = ctl_result p \<and>
     executable q = executable p \<and> arguments q = arguments p"

lemma same_launch_simps [simp]:
  "same_launch p p" "same_launch p (set_handle q h f) = same_launch p q" "same_launch p (q\<lparr>world := w\<rparr>) = same_launch p q"
  by (cases h; auto simp: same_launch_def)+

lemma same_launch_trans: "same_launch p q \<Longrightarrow> same_launch q r \<Longrightarrow> same_launch p r"
  by (simp add: same_launch_def)

lemma more_ctl:
  fixes p q :: "'w controller"
  assumes "peer.more q = peer.more p"
  shows "handles q = handles p" "ctl_state q = ctl_state p" "world q = world p" "root_handle q = root_handle p"
    "ctl_result q = ctl_result p" "same_launch p q"
  using assms by (cases p, cases q, simp add: same_launch_def)+

text \<open>A handler may change the table and the world and then sends one message.\<close>

definition served :: "'w controller \<Rightarrow> (int \<times> 'w controller) option \<Rightarrow> bool" where
  "served p r \<longleftrightarrow> (\<exists>rc p'. r = Some (rc, p') \<and> advances p p' \<and> same_launch p p')"

lemma served_transmit:
  assumes "transport_ok p" and "peer.truncate q = peer.truncate p" and "same_launch p q"
    and "arrays_ok (body m)"
  shows "served p (peer_transmit_message host q m)"
proof -
  have "transport_ok q" using trunc_ok(1) [OF assms(2)] assms(1) by simp
  from transmit_advances [OF this assms(4)] obtain p' where
    "peer_transmit_message host q m = Some (0, p')" "advances q p'" "peer.more p' = peer.more q"
    by blast
  then show ?thesis
    using trunc_ok(3) [OF assms(2)] more_ctl(6) [of p' q] assms(3) same_launch_trans by (auto simp: served_def)
qed

lemma served_error:
  assumes "transport_ok p" and "peer.truncate q = peer.truncate p" and "same_launch p q"
  shows "served p (reply_with_error host q msg c)"
proof -
  have "served p (peer_transmit_message host q ((RL_MSG_INIT (Error_answer c))\<lparr>hdr_seq := hdr_seq msg\<rparr>))"
    using assms by (intro served_transmit) (simp_all add: arrays_ok_def RL_MSG_INIT_def)
  then show ?thesis by (auto simp: served_def reply_with_error_def)
qed

lemma served_quiet:
  assumes "transport_ok p" and "peer.truncate q = peer.truncate p" and "same_launch p q"
  shows "served p (Some (rc, q))"
  using assms trunc_ok(1) [OF assms(2)] advances_refl [of q] trunc_ok(3) [OF assms(2)] by (simp add: served_def)

lemma served_map:
  "served p r \<Longrightarrow> served p (do { (a, q) \<leftarrow> r; Some (f a, q) })"
  by (auto simp: served_def)

lemma handles_trunc [simp]: "peer.truncate (c\<lparr>handles := hs\<rparr>) = peer.truncate c"
  by (simp add: peer.truncate_def)

text \<open>The two states have the same peer and the same launch.\<close>

definition same_peer :: "'w controller \<Rightarrow> 'w controller \<Rightarrow> bool" where
  "same_peer p q \<longleftrightarrow> peer.truncate q = peer.truncate p \<and> same_launch p q"

lemma same_peer_simps [simp]:
  "same_peer p p" "same_peer p (set_handle q h f) = same_peer p q" "same_peer p (q\<lparr>world := w\<rparr>) = same_peer p q"
  by (auto simp: same_peer_def)

lemma open_node_same: "same_peer p (snd (open_node os p slot path mode))"
proof -
  let ?E = "if mode AND RL_OPENFLAG_WRITE = 0
             then
               (case os_stat os path (world p) of
                  (None, w) \<Rightarrow> (True, False, p\<lparr>world := w\<rparr>)
                | (Some (d, _), w) \<Rightarrow> (False, d, p\<lparr>world := w\<rparr>))
             else (False, False, p)"
  have "same_peer p (snd (snd ?E))" by (auto split: prod.splits option.splits)
  moreover obtain e d q where E: "?E = (e, d, q)" by (rule prod_cases3)
  ultimately have q: "same_peer p q" by simp
  show ?thesis
    unfolding open_node_def E
    using q by (auto simp: Let_def split: prod.splits option.splits simp del: set_handle.simps)
qed

lemma make_handle_same: "\<exists>r q. make_handle os p path mode = Some (r, q) \<and> same_peer p q"
proof -
  obtain np where np: "fix_path 260 path (native_path (root_handle p)) = Some np"
    using fix_path_some [of 260] by auto
  obtain st where st: "copied 260 np = Some st" using copied_some [of 260] by auto
  show ?thesis
  proof (cases "find_slot (handles p) 0")
    case None
    then show ?thesis using np by (simp add: make_handle_def)
  next
    case (Some slot)
    obtain r q where o: "open_node os p slot np mode = (r, q)" by (cases "open_node os p slot np mode")
    then show ?thesis
      using np st Some open_node_same [of p os slot np mode]
      by (cases r) (simp_all add: make_handle_def del: set_handle.simps)
  qed
qed

section \<open>The answer that is due\<close>

text \<open>
  A reference for the answers: what the body of the answer to a request has to be, given the
  table and the world. A search of a directory is reset first if the request asks for it, and
  begun if there is none under way; then it gives the next entry, with the type and the size that
  \<open>stat\<close> finds, or the end.
\<close>

definition refusal :: "rl_proto_neterror \<Rightarrow> rl_body" where
  "refusal e = Error_answer (neterror_code e)"

definition posix_search :: "'w posix \<Rightarrow> 'w controller \<Rightarrow> handle_ref \<Rightarrow> bool \<Rightarrow> 'w controller" where
  "posix_search os p h reset =
     (let p = (case dir_handle (the_handle p h) of
                 Some d \<Rightarrow>
                   if reset then set_handle (p\<lparr>world := os_closedir os d (world p)\<rparr>) h (\<lambda>f. f\<lparr>dir_handle := None\<rparr>) else p
               | None \<Rightarrow> p)
      in if dir_handle (the_handle p h) = None
         then (case os_opendir os (native_path (the_handle p h)) (world p) of
                 (d, w) \<Rightarrow> set_handle (p\<lparr>world := w\<rparr>) h (\<lambda>f. f\<lparr>dir_handle := d\<rparr>))
         else p)"

definition posix_entry :: "'w posix \<Rightarrow> cstring \<Rightarrow> nat option \<Rightarrow> 'w \<Rightarrow> rl_body" where
  "posix_entry os path dir w =
     (case dir of
        None \<Rightarrow> refusal RL_NETERR_IO_ERROR
      | Some d \<Rightarrow>
          (case os_readdir os d w of
             (Dir_end, _) \<Rightarrow> Find_next_file_answer 1 RL_NODE_TYPE_DIRECTORY [] 0
           | (Dir_error, _) \<Rightarrow> refusal RL_NETERR_IO_ERROR
           | (Dir_entry name, w) \<Rightarrow>
               (case fst (os_stat os (built NAME_MAX [path, lit ''/'', name]) w) of
                  None \<Rightarrow> refusal RL_NETERR_IO_ERROR
                | Some (is_dir, sz) \<Rightarrow>
                    Find_next_file_answer 0 (if is_dir then RL_NODE_TYPE_DIRECTORY else RL_NODE_TYPE_FILE) name (of_int sz))))"

definition opened_answer :: "((rl_proto_neterror + handle_ref) \<times> 'w controller) option \<Rightarrow> rl_body" where
  "opened_answer r =
     (case the r of
        (Inl e, _) \<Rightarrow> refusal e
      | (Inr h, q) \<Rightarrow> Open_handle_answer (get_filehandle_index h) (fh_size (the_handle q h)) (fh_type (the_handle q h)))"

definition posix_answer :: "'w posix \<Rightarrow> 'w controller \<Rightarrow> rl_body \<Rightarrow> rl_body" where
  "posix_answer os p req =
     (case req of
        Open_handle_request path mode \<Rightarrow> opened_answer (make_handle os p path mode)
      | Read_file_request f hi lo n \<Rightarrow>
          (case get_handle_from_id f of
             None \<Rightarrow> refusal RL_NETERR_INVALID_VALUE
           | Some h \<Rightarrow>
               if fh_handle (the_handle p h) = 0 then refusal RL_NETERR_NOT_A_FILE
               else (case fst (os_pread os (fh_handle (the_handle p h)) 4096 (unat lo) (world p)) of
                       None \<Rightarrow> refusal RL_NETERR_IO_ERROR
                     | Some bytes \<Rightarrow> Read_file_answer bytes))
      | Write_file_request f d \<Rightarrow> Write_file_answer
      | Find_next_file_request f reset \<Rightarrow>
          (case get_handle_from_id f of
             None \<Rightarrow> refusal RL_NETERR_INVALID_VALUE
           | Some h \<Rightarrow>
               if fh_type (the_handle p h) \<noteq> RL_NODE_TYPE_DIRECTORY then refusal RL_NETERR_NOT_A_DIRECTORY
               else let q = posix_search os p h (reset \<noteq> 0)
                    in posix_entry os (native_path (the_handle q h)) (dir_handle (the_handle q h)) (world q))
      | Close_handle_request f \<Rightarrow> refusal RL_NETERR_INVALID_VALUE
      | _ \<Rightarrow> refusal RL_NETERR_BAD_REQUEST)"

text \<open>
  The two requests that are not answered: a close request for a file the server knows succeeds
  silently, and a write request for a file it does not know makes the debug log read through a null
  pointer.
\<close>

definition silent_close :: "rl_body \<Rightarrow> bool" where
  "silent_close req = (case req of Close_handle_request f \<Rightarrow> get_handle_from_id f \<noteq> None | _ \<Rightarrow> False)"

definition null_write :: "bool \<Rightarrow> rl_body \<Rightarrow> bool" where
  "null_write debug req = (debug \<and> (case req of Write_file_request f d \<Rightarrow> get_handle_from_id f = None | _ \<Rightarrow> False))"

lemma null_write_off [simp]: "\<not> null_write False req"
  by (simp add: null_write_def)

lemma silent_close_off [simp]: "\<not> (\<exists>f. req = Close_handle_request f) \<Longrightarrow> \<not> silent_close req"
  by (cases req) (simp_all add: silent_close_def)

lemma posix_search_same: "same_peer p (posix_search os p h reset)"
  by (auto simp: posix_search_def Let_def split: option.split prod.split simp del: set_handle.simps)

text \<open>The handler, seen as a search followed by the delivery of one entry.\<close>

lemma find_next_file_search:
  assumes "get_handle_from_id f = Some h"
  shows "find_next_file_request host os p msg f reset =
     (if fh_type (the_handle p h) \<noteq> RL_NODE_TYPE_DIRECTORY
      then reply_with_error host p msg (neterror_code RL_NETERR_NOT_A_DIRECTORY)
      else
        let q = posix_search os p h (reset \<noteq> 0);
            answer = (\<lambda>b w. peer_transmit_message host (q\<lparr>world := w\<rparr>) ((RL_MSG_INIT b)\<lparr>hdr_seq := hdr_seq msg\<rparr>));
            fail = (\<lambda>q. reply_with_error host q msg (neterror_code RL_NETERR_IO_ERROR))
        in (case dir_handle (the_handle q h) of
              None \<Rightarrow> fail q
            | Some d \<Rightarrow>
                (case os_readdir os d (world q) of
                   (Dir_end, w) \<Rightarrow> answer (Find_next_file_answer 1 RL_NODE_TYPE_DIRECTORY [] 0) w
                 | (Dir_error, w) \<Rightarrow> fail (q\<lparr>world := w\<rparr>)
                 | (Dir_entry name, w) \<Rightarrow>
                     (case os_stat os (built NAME_MAX [native_path (the_handle q h), lit ''/'', name]) w of
                        (None, w) \<Rightarrow> fail (q\<lparr>world := w\<rparr>)
                      | (Some (is_dir, sz), w) \<Rightarrow>
                          answer (Find_next_file_answer 0 (if is_dir then RL_NODE_TYPE_DIRECTORY else RL_NODE_TYPE_FILE) name (of_int sz)) w))))"
  using assms by (simp only: find_next_file_request_def posix_search_def Let_def option.case)

lemma small_answers:
  "valid_body (Error_answer c)" "msg_size (RL_MSG_INIT (Error_answer c)) \<le> 8192"
  "valid_body Write_file_answer" "msg_size (RL_MSG_INIT Write_file_answer) \<le> 8192"
  "valid_body (Open_handle_answer i z ty)" "msg_size (RL_MSG_INIT (Open_handle_answer i z ty)) \<le> 8192"
  by (simp_all add: valid_body_def msg_size_def fixed_of_def var_of_def layouts_def msg_fields_def RL_MSG_INIT_def)

lemma find_answer_ok:
  assumes "valid_string name"
  shows "valid_body (Find_next_file_answer e ty name sz)" "msg_size (RL_MSG_INIT (Find_next_file_answer e ty name sz)) \<le> 8192"
  using assms by (simp_all add: valid_body_def valid_string_def msg_size_def fixed_of_def var_of_def layouts_def msg_fields_def
      RL_MSG_INIT_def wire_string_def)

lemma read_answer_ok:
  assumes "length bs \<le> 4096"
  shows "valid_body (Read_file_answer bs)" "msg_size (RL_MSG_INIT (Read_file_answer bs)) \<le> 8192"
  using assms by (simp_all add: valid_body_def valid_array_def msg_size_def fixed_of_def var_of_def layouts_def
      msg_fields_def RL_MSG_INIT_def wire_array_def)

text \<open>
  What the handlers have in common: each changes the table of handles and the world, then
  sends one message \<open>b\<close> that carries the sequence number of the request. The contract has two
  instances here: that the handler returns and keeps the invariants (\<open>serving\<close>), and that exactly
  the answer \<open>b\<close> is queued (\<open>answering\<close>).
\<close>

locale handler_contract =
  fixes C :: "'w controller \<Rightarrow> bool"
    and R :: "'w controller \<Rightarrow> rl_msg \<Rightarrow> rl_body \<Rightarrow> (int \<times> 'w controller) option \<Rightarrow> bool"
  assumes transmit: "C p \<Longrightarrow> same_peer p q \<Longrightarrow> valid_body b \<Longrightarrow> msg_size (RL_MSG_INIT b) \<le> 8192 \<Longrightarrow>
      R p msg b (peer_transmit_message host q ((RL_MSG_INIT b)\<lparr>hdr_seq := hdr_seq msg\<rparr>))"
    and map: "R p msg b r \<Longrightarrow> R p msg b (do { (a, q) \<leftarrow> r; Some (f a, q) })"
begin

lemma error: "C p \<Longrightarrow> same_peer p q \<Longrightarrow> R p msg (Error_answer c) (reply_with_error host q msg c)"
  using map [OF transmit [OF _ _ small_answers(1,2)], where f = "\<lambda>_. 1"] by (simp add: reply_with_error_def)

lemma open_handle:
  assumes "C p"
  shows "R p msg (posix_answer os p (Open_handle_request path mode)) (open_handle_request host os p msg path mode)"
proof -
  obtain r q where m: "make_handle os p path mode = Some (r, q)" "same_peer p q"
    using make_handle_same [of os p path mode] by blast
  then show ?thesis
    using error [OF assms m(2)] transmit [OF assms m(2) small_answers(5,6)]
    by (cases r) (simp_all add: open_handle_request_def posix_answer_def opened_answer_def refusal_def)
qed

lemma read_file:
  assumes "C p" and "posix_ok os"
  shows "R p msg (posix_answer os p (Read_file_request f hi lo n)) (read_file_request host os p msg f hi lo n)"
proof (cases "get_handle_from_id f")
  case None
  then show ?thesis using error [OF assms(1)] by (simp add: read_file_request_def posix_answer_def refusal_def)
next
  case (Some r)
  obtain res w where pr: "os_pread os (fh_handle (the_handle p r)) 4096 (unat lo) (world p) = (res, w)"
    by (cases "os_pread os (fh_handle (the_handle p r)) 4096 (unat lo) (world p)")
  have "length bs \<le> 4096" if "res = Some bs" for bs
    using assms(2) pr that unfolding posix_ok_def by (metis fst_conv option.simps(5))
  then have "R p msg (Read_file_answer bs) (peer_transmit_message host (p\<lparr>world := w\<rparr>) ((RL_MSG_INIT (Read_file_answer bs))\<lparr>hdr_seq := hdr_seq msg\<rparr>))"
    if "res = Some bs" for bs
    using that read_answer_ok by (intro transmit [OF assms(1)]) simp_all
  then show ?thesis
    using Some pr error [OF assms(1)] map [where f = "\<lambda>_. 0"]
    by (cases res) (simp_all add: read_file_request_def posix_answer_def refusal_def)
qed

lemma write_file:
  assumes "C p" and "\<not> null_write debug (Write_file_request f d)"
  shows "R p msg (posix_answer os p (Write_file_request f d)) (write_file_request host os debug p msg f d)"
  using map [OF transmit [OF assms(1) _ small_answers(3,4)], where f = "\<lambda>_. 0"] assms(2)
  by (cases "debug \<and> get_handle_from_id f = None") (auto simp: write_file_request_def posix_answer_def null_write_def Let_def)

lemma find_next_file:
  assumes "C p" and "posix_ok os"
  shows "R p msg (posix_answer os p (Find_next_file_request f reset)) (find_next_file_request host os p msg f reset)"
proof (cases "get_handle_from_id f")
  case None
  then show ?thesis using error [OF assms(1)] by (simp add: find_next_file_request_def posix_answer_def refusal_def)
next
  case (Some h)
  define q where "q = posix_search os p h (reset \<noteq> 0)"
  have q: "same_peer p q" using posix_search_same by (simp add: q_def)
  have entry: "R p msg (Find_next_file_answer e ty name sz)
      (peer_transmit_message host (q\<lparr>world := w\<rparr>) ((RL_MSG_INIT (Find_next_file_answer e ty name sz))\<lparr>hdr_seq := hdr_seq msg\<rparr>))"
    if "valid_string name" for w e ty name sz
    using q find_answer_ok [OF that] by (intro transmit [OF assms(1)]) simp_all
  have name: "valid_string name" if "os_readdir os d w = (Dir_entry name, w')" for d w w' name
    using assms(2) that unfolding posix_ok_def by (metis dir_result.simps(8) fst_conv)
  show ?thesis
    using Some error [OF assms(1)] entry name q
    by (auto simp: find_next_file_search [OF Some] q_def [symmetric] posix_answer_def refusal_def posix_entry_def valid_string_def
        Let_def simp del: set_handle.simps split: option.split prod.split dir_result.split)
qed

lemma bad_request:
  "C p \<Longrightarrow> R p msg (Error_answer c) (peer_transmit_message host p ((RL_MSG_INIT (Error_answer c))\<lparr>hdr_seq := hdr_seq msg\<rparr>))"
  by (intro transmit small_answers) simp_all

lemma serve:
  assumes "C p" and "posix_ok os" and "\<not> null_write debug (body msg)"
    and "\<And>f. body msg = Close_handle_request f \<Longrightarrow> R p msg (posix_answer os p (body msg)) (close_handle_request host os p msg f)"
  shows "R p msg (posix_answer os p (body msg)) (rl_file_serve host os debug p msg)"
  unfolding rl_file_serve_def
  by (rule map [where f = "\<lambda>_. 0"])
    (use assms open_handle read_file write_file find_next_file bad_request in
      \<open>cases "body msg"; simp add: posix_answer_def refusal_def\<close>)

lemma bad_close:
  assumes "C p" and "get_handle_from_id f = None"
  shows "R p msg (posix_answer os p (Close_handle_request f)) (close_handle_request host os p msg f)"
proof -
  have "f \<noteq> RL_FILEHANDLE_VIRTUAL_INPUT" "f \<noteq> RL_FILEHANDLE_VIRTUAL_OUTPUT"
    using assms(2) by (auto simp: get_handle_from_id_def split: if_splits)
  then show ?thesis
    using assms error [of p p] by (simp add: close_handle_request_def posix_answer_def refusal_def)
qed

end

section \<open>The two instances\<close>

definition ctl_ok :: "'w controller \<Rightarrow> bool" where
  "ctl_ok p \<longleftrightarrow> transport_ok p"

interpretation serving: handler_contract ctl_ok "\<lambda>p msg b. served p"
proof
  fix p q :: "'a controller" and b msg host
  assume "ctl_ok p" "same_peer p q" "valid_body b" "msg_size (RL_MSG_INIT b) \<le> 8192"
  then show "served p (peer_transmit_message host q ((RL_MSG_INIT b)\<lparr>hdr_seq := hdr_seq msg\<rparr>))"
    by (intro served_transmit) (simp_all add: ctl_ok_def same_peer_def valid_body_arrays RL_MSG_INIT_def)
qed (rule served_map)

text \<open>One answer: the encoded message with the sequence number of the request is queued, nothing else.\<close>

definition answered :: "'w controller \<Rightarrow> rl_msg \<Rightarrow> rl_body \<Rightarrow> (int \<times> 'w controller) option \<Rightarrow> bool" where
  "answered p msg b r \<longleftrightarrow>
     (\<exists>rc p'. r = Some (rc, p') \<and> transport_ok p' \<and> peer_state p' = PEER_CONNECTED \<and>
        same_launch p p' \<and>
        out_text p' = out_text p @ wire_msg ((RL_MSG_INIT b)\<lparr>hdr_seq := hdr_seq msg\<rparr>))"

definition can_answer :: "'w controller \<Rightarrow> bool" where
  "can_answer p \<longleftrightarrow> transport_ok p \<and> peer_state p = PEER_CONNECTED \<and> mallocs (heap p) = []"

lemma body_init [simp]: "body ((RL_MSG_INIT b)\<lparr>hdr_seq := s\<rparr>) = b"
  by (simp add: RL_MSG_INIT_def)

lemma msg_size_seq: "msg_size (m\<lparr>hdr_seq := s\<rparr>) = msg_size m"
  by (cases "body m") (simp_all add: msg_size_def fixed_of_def var_of_def layouts_def msg_fields_def)

interpretation answering: handler_contract can_answer answered
proof
  fix p q :: "'a controller" and b and msg :: rl_msg and host
  assume a: "can_answer p" "same_peer p q" "valid_body b" "msg_size (RL_MSG_INIT b) \<le> 8192"
  note t = trunc_fields [of q p] trunc_ok [of q p]
  have "\<exists>p'. peer_transmit_message host q ((RL_MSG_INIT b)\<lparr>hdr_seq := hdr_seq msg\<rparr>) = Some (0, p') \<and>
      transport_ok p' \<and> queued q p' \<and> out_text p' = out_text q @ wire_msg ((RL_MSG_INIT b)\<lparr>hdr_seq := hdr_seq msg\<rparr>)"
    using a t by (intro transmit_connected) (simp_all add: can_answer_def same_peer_def msg_size_seq)
  then obtain p' where p': "peer_transmit_message host q ((RL_MSG_INIT b)\<lparr>hdr_seq := hdr_seq msg\<rparr>) = Some (0, p')"
    "transport_ok p'" "queued q p'" "out_text p' = out_text q @ wire_msg ((RL_MSG_INIT b)\<lparr>hdr_seq := hdr_seq msg\<rparr>)"
    by blast
  then show "answered p msg b (peer_transmit_message host q ((RL_MSG_INIT b)\<lparr>hdr_seq := hdr_seq msg\<rparr>))"
    using a t more_fields [of p' q] more_ctl(6) [of p' q] same_launch_trans
    by (auto simp: answered_def queued_def can_answer_def same_peer_def)
qed (auto simp: answered_def)

section \<open>The table of open files\<close>

lemma find_slot_some:
  "find_slot hs i = Some j \<Longrightarrow> i \<le> j \<and> j < i + length hs \<and> fh_handle (hs ! (j - i)) = 0 \<and>
     (\<forall>k. i \<le> k \<longrightarrow> k < j \<longrightarrow> fh_handle (hs ! (k - i)) \<noteq> 0)"
proof (induction hs arbitrary: i)
  case Nil
  then show ?case by simp
next
  case (Cons h hs)
  show ?case
  proof (cases "fh_handle h = 0")
    case True
    then show ?thesis using Cons.prems by simp
  next
    case False
    then have "find_slot hs (i + 1) = Some j" using Cons.prems by simp
    from Cons.IH [OF this] False show ?thesis
      by (auto simp: nth_Cons' Suc_diff_le)
  qed
qed

lemma find_slot_none: "find_slot hs i = None \<longleftrightarrow> (\<forall>h\<in>set hs. fh_handle h \<noteq> 0)"
  by (induction hs arbitrary: i) auto

text \<open>Only the chosen slot of the table changes.\<close>

definition only_slot :: "nat \<Rightarrow> 'w controller \<Rightarrow> 'w controller \<Rightarrow> bool" where
  "only_slot i p q \<longleftrightarrow>
     root_handle q = root_handle p \<and> vinput_handle q = vinput_handle p \<and> voutput_handle q = voutput_handle p \<and>
     length (handles q) = length (handles p) \<and> (\<forall>k. k \<noteq> i \<longrightarrow> handles q ! k = handles p ! k)"

lemma only_slot_simps [simp]:
  "only_slot i p p" "only_slot i p (set_handle q (Slot i) f) = only_slot i p q"
  "only_slot i p (q\<lparr>world := w\<rparr>) = only_slot i p q"
  by (auto simp: only_slot_def)

lemma open_node_slot: "only_slot i p (snd (open_node os p i path mode))"
proof -
  let ?E = "if mode AND RL_OPENFLAG_WRITE = 0
             then
               (case os_stat os path (world p) of
                  (None, w) \<Rightarrow> (True, False, p\<lparr>world := w\<rparr>)
                | (Some (d, _), w) \<Rightarrow> (False, d, p\<lparr>world := w\<rparr>))
             else (False, False, p)"
  have "only_slot i p (snd (snd ?E))" by (auto split: prod.splits option.splits)
  moreover obtain e d q where E: "?E = (e, d, q)" by (rule prod_cases3)
  ultimately have q: "only_slot i p q" by simp
  show ?thesis
    unfolding open_node_def E
    using q by (auto simp: Let_def split: prod.splits option.splits simp del: set_handle.simps)
qed

lemma open_node_result:
  assumes "open_node os p i path mode = (r, q)" and "i < length (handles p)" and "fh_handle (handles p ! i) = 0"
  shows "case r of
           Inl e \<Rightarrow> fh_handle (handles q ! i) = 0
         | Inr _ \<Rightarrow> fh_type (handles q ! i) = RL_NODE_TYPE_DIRECTORY \<and> fh_handle (handles q ! i) = - 1 \<and>
                    fh_size (handles q ! i) = 0 \<or>
                    fh_type (handles q ! i) = RL_NODE_TYPE_FILE \<and> fh_handle (handles q ! i) \<noteq> - 1"
proof -
  let ?E = "if mode AND RL_OPENFLAG_WRITE = 0
             then
               (case os_stat os path (world p) of
                  (None, w) \<Rightarrow> (True, False, p\<lparr>world := w\<rparr>)
                | (Some (d, _), w) \<Rightarrow> (False, d, p\<lparr>world := w\<rparr>))
             else (False, False, p)"
  have "handles (snd (snd ?E)) = handles p" by (auto split: prod.splits option.splits)
  moreover obtain e d s where E: "?E = (e, d, s)" by (rule prod_cases3)
  ultimately have s: "handles s = handles p" by simp
  show ?thesis
    using assms s unfolding open_node_def E
    by (auto simp: Let_def split: prod.splits option.splits if_splits)
qed

section \<open>Properties of the file server\<close>

text \<open>
  An operating system with one file, for the examples: every path is a regular file of five
  bytes, which opens as descriptor 7; the world is the list of descriptors that were closed
  and the text written to the standard output.
\<close>

definition example_os :: "(int list \<times> rl_uint8 list) posix" where
  "example_os =
     \<lparr>os_stat = (\<lambda>_ w. (Some (False, 5), w)), os_open = (\<lambda>_ _ w. (7, w)), os_fstat = (\<lambda>_ w. (Some (False, 5), w)),
      os_errno = (\<lambda>_. Other_errno), os_close = (\<lambda>fd (cs, out). (cs @ [fd], out)),
      os_pread = (\<lambda>_ n off w. (Some (take n (drop off (lit ''hello''))), w)), os_opendir = (\<lambda>_ w. (None, w)),
      os_closedir = (\<lambda>_ w. w), os_readdir = (\<lambda>_ w. (Dir_end, w)),
      os_fwrite_stdout = (\<lambda>bs (cs, out). (cs, out @ bs))\<rparr>"

lemma example_os_ok: "posix_ok example_os"
  by (simp add: posix_ok_def example_os_def)

definition example_handle :: "int \<Rightarrow> rl_filehandle" where
  "example_handle fd =
     \<lparr>fh_handle = fd, dir_handle = None, native_path = [], fh_type = RL_NODE_TYPE_FILE, fh_size = 5\<rparr>"

definition example_controller :: "(int list \<times> rl_uint8 list) controller" where
  "example_controller =
     peer.extend example_peer
       (controller.fields CONTROLLER_FILE_SERVING (example_handle 0) (example_handle 0) (example_handle 1)
          (example_handle 7 # replicate 15 (example_handle 0)) (lit ''demo'') [lit ''a'', lit ''b''] 0 ([], []))"

lemma example_controller_fields [simp]:
  "peer.truncate example_controller = example_peer" "heap example_controller = heap example_peer"
  "peer_state example_controller = PEER_CONNECTED"
  "handles example_controller = example_handle 7 # replicate 15 (example_handle 0)"
  "root_handle example_controller = example_handle 0" "world example_controller = ([], [])"
  "ctl_state example_controller = CONTROLLER_FILE_SERVING"
  by (simp_all add: example_controller_def example_peer_def peer.defs controller.defs)

lemma example_controller_ok: "can_answer example_controller" "transport_ok example_controller"
proof -
  show t: "transport_ok example_controller"
    using example_peer_ok(2) 
    by (simp add: transport_ok_def tinv_def example_controller_def example_peer_def peer.defs controller.defs)
  then show "can_answer example_controller"
    by (simp add: can_answer_def) (simp add: example_peer_def)
qed

lemma serve_cases:
  assumes "can_answer p" and "posix_ok os"
  shows "if null_write debug (body msg) then rl_file_serve host os debug p msg = None
         else \<exists>p'. rl_file_serve host os debug p msg = Some (0, p') \<and> transport_ok p' \<and>
                peer_state p' = PEER_CONNECTED \<and> same_launch p p' \<and>
                out_text p' = out_text p @
                  (if silent_close (body msg) then []
                   else wire_msg ((RL_MSG_INIT (posix_answer os p (body msg)))\<lparr>hdr_seq := hdr_seq msg\<rparr>))"
proof (cases "\<exists>f. body msg = Close_handle_request f \<and> get_handle_from_id f \<noteq> None")
  case True
  then obtain f h where f: "body msg = Close_handle_request f" "get_handle_from_id f = Some h" by blast
  define q where "q = (if fh_handle (the_handle p h) = - 1
      then p\<lparr>world := os_close os (fh_handle (the_handle p h)) (world p)\<rparr> else p)"
  have t: "peer.truncate q = peer.truncate p" "peer.truncate (set_handle q h g) = peer.truncate p" for g by (simp_all add: q_def)
  have l: "same_launch p q" "same_launch p (set_handle q h g)" for g by (simp_all add: q_def)
  define q' where "q' = (if f = RL_FILEHANDLE_VIRTUAL_INPUT \<or> f = RL_FILEHANDLE_VIRTUAL_OUTPUT then p
      else set_handle q h (\<lambda>f. f\<lparr>fh_handle := 0\<rparr>))"
  have "rl_file_serve host os debug p msg = Some (0, q')"
    using f by (simp add: rl_file_serve_def close_handle_request_def q'_def q_def Let_def del: set_handle.simps)
  moreover have "peer.truncate q' = peer.truncate p" "same_launch p q'" using t l by (simp_all add: q'_def del: set_handle.simps)
  ultimately show ?thesis
    using f assms(1) trunc_ok(1,2) [of q' p] trunc_fields [of q' p]
    by (simp add: null_write_def silent_close_def can_answer_def)
next
  case False
  show ?thesis
  proof (cases "null_write debug (body msg)")
    case True
    then show ?thesis
      by (cases "body msg") (simp_all add: null_write_def rl_file_serve_def write_file_request_def)
  next
    case ok: False
    have "answered p msg (posix_answer os p (body msg)) (rl_file_serve host os debug p msg)"
      using False answering.bad_close [OF assms(1)] by (intro answering.serve [OF assms ok]) simp
    then obtain rc p' where r: "rl_file_serve host os debug p msg = Some (rc, p')" "transport_ok p'" "peer_state p' = PEER_CONNECTED"
      "same_launch p p'" "out_text p' = out_text p @ wire_msg ((RL_MSG_INIT (posix_answer os p (body msg)))\<lparr>hdr_seq := hdr_seq msg\<rparr>)"
      unfolding answered_def by blast
    moreover have "rc = 0" using r(1) by (auto simp: rl_file_serve_def bind_eq_Some_conv)
    moreover have "\<not> silent_close (body msg)" using False by (cases "body msg") (simp_all add: silent_close_def)
    ultimately show ?thesis using ok by auto
  qed
qed

text \<open>
  Claim C10: which answer every request gets, on POSIX. When the peer is connected and there is
  memory, whatever the request is and whatever the operating system does, \<open>rl_file_serve\<close> returns
  and appends to the output one message, with the sequence number of the request and exactly the body
  that \<open>posix_answer\<close> asks for: the bytes that \<open>pread\<close> delivers, the entry that \<open>readdir\<close> delivers, the slot that
  was opened, or the error. There are two exceptions: the close of a file the server knows is not answered at all;
  and with the debug channel on, a write request for a file it does not know reads through a null pointer.
  The connection stays up and the table keeps its size.
\<close>
theorem serve_answers_once:
  assumes "can_answer p" and "posix_ok os"
  shows "if null_write debug (body msg) then rl_file_serve host os debug p msg = None
         else \<exists>p'. rl_file_serve host os debug p msg = Some (0, p') \<and> transport_ok p' \<and>
                peer_state p' = PEER_CONNECTED \<and> length (handles p') = length (handles p) \<and>
                out_text p' = out_text p @
                  (if silent_close (body msg) then []
                   else wire_msg ((RL_MSG_INIT (posix_answer os p (body msg)))\<lparr>hdr_seq := hdr_seq msg\<rparr>))"
  using serve_cases [OF assms, of debug msg host] unfolding same_launch_def by auto

theorem serve_answers_once_witness:
  "(\<exists>p'. rl_file_serve example_host example_os True example_controller
            ((RL_MSG_INIT (Read_file_request 0 0 1 5))\<lparr>hdr_seq := 9\<rparr>) = Some (0, p') \<and>
      peer_state p' = PEER_CONNECTED \<and>
      out_text p' = out_text example_controller @ wire_msg ((RL_MSG_INIT (Read_file_answer (lit ''ello'')))\<lparr>hdr_seq := 9\<rparr>)) \<and>
   rl_file_serve example_host example_os True example_controller (RL_MSG_INIT (Write_file_request 99 [])) = None"
proof -
  have h: "get_handle_from_id 0 = Some (Slot 0)" "get_handle_from_id 99 = None"
    by (simp_all add: get_handle_from_id_def RL_FILEHANDLE_VIRTUAL_INPUT_def RL_FILEHANDLE_VIRTUAL_OUTPUT_def RL_MAX_FILE_HANDLES_def)
  have b: "posix_answer example_os example_controller (Read_file_request 0 0 1 5) = Read_file_answer (lit ''ello'')"
    using h(1) by (simp add: posix_answer_def example_handle_def) (simp add: example_os_def)
  note s = serve_answers_once [OF example_controller_ok(1) example_os_ok, of True _ example_host]
  show ?thesis
    using s [of "(RL_MSG_INIT (Read_file_request 0 0 1 5))\<lparr>hdr_seq := 9\<rparr>"] s [of "RL_MSG_INIT (Write_file_request 99 [])"] b h(2)
    by (simp add: null_write_def silent_close_def) (auto simp: RL_MSG_INIT_def)
qed

lemma open_node_error: "fst (open_node os p i path mode) \<noteq> Inl RL_NETERR_TOO_MANY_FILES_OPEN"
proof -
  have "translate_posix_errno e \<noteq> RL_NETERR_TOO_MANY_FILES_OPEN" for e by (cases e) simp_all
  then show ?thesis
    unfolding open_node_def by (auto simp: Let_def split: prod.splits option.splits simp del: set_handle.simps)
qed

lemma make_handle_slot:
  assumes "valid_string (native_path (root_handle p))" and "valid_string path"
  shows "\<exists>r q. make_handle os p path mode = Some (r, q) \<and> length (handles q) = length (handles p) \<and>
           (case r of
              Inl e \<Rightarrow> map fh_handle (handles q) = map fh_handle (handles p) \<and>
                       (e = RL_NETERR_TOO_MANY_FILES_OPEN \<longleftrightarrow> (\<forall>h\<in>set (handles p). fh_handle h \<noteq> 0))
            | Inr ref \<Rightarrow> \<exists>i < length (handles p). ref = Slot i \<and> fh_handle (handles p ! i) = 0 \<and>
                       (\<forall>k < i. fh_handle (handles p ! k) \<noteq> 0) \<and>
                       (\<forall>k. k \<noteq> i \<longrightarrow> handles q ! k = handles p ! k) \<and>
                       native_path (handles q ! i) =
                         take 259 (native_path (root_handle p) @ lit ''/'' @ path) \<and>
                       (fh_handle (handles q ! i) = - 1 \<longleftrightarrow> fh_type (handles q ! i) = RL_NODE_TYPE_DIRECTORY))"
proof -
  let ?root = "native_path (root_handle p)"
  let ?np = "take 259 (?root @ lit ''/'' @ path)"
  have np: "fix_path 260 path ?root = Some ?np"
    using fix_path_text [of ?root path 260] assms by (simp add: valid_string_def)
  have nf: "nul_free ?np" using assms by (intro nul_free_take) (simp add: valid_string_def)
  then have cp: "copied 260 ?np = Some ?np" using copied_eq [OF nf, of 260] by (simp del: take_append)
  show ?thesis
  proof (cases "find_slot (handles p) 0")
    case None
    then show ?thesis using np find_slot_none [of "handles p" 0] by (simp add: make_handle_def)
  next
    case (Some i)
    have i: "i < length (handles p)" "fh_handle (handles p ! i) = 0" "\<forall>k < i. fh_handle (handles p ! k) \<noteq> 0"
      using find_slot_some [OF Some] by auto
    obtain r q where o: "open_node os p i ?np mode = (r, q)" by (cases "open_node os p i ?np mode")
    have q: "length (handles q) = length (handles p)" "\<forall>k. k \<noteq> i \<longrightarrow> handles q ! k = handles p ! k"
      using open_node_slot [of i p os ?np mode] o by (simp_all add: only_slot_def)
    note res = open_node_result [OF o i(1,2)]
    have free: "\<not> (\<forall>h\<in>set (handles p). fh_handle h \<noteq> 0)" using i(1,2) by force
    show ?thesis
    proof (cases r)
      case (Inl e)
      have "map fh_handle (handles q) = map fh_handle (handles p)"
        using q res i(2) Inl by (intro nth_equalityI) (auto, metis)
      moreover have "e \<noteq> RL_NETERR_TOO_MANY_FILES_OPEN"
        using open_node_error [of os p i ?np mode] o Inl by auto
      ultimately show ?thesis using np Some o Inl q free by (simp add: make_handle_def)
    next
      case (Inr u)
      then show ?thesis
        using np cp Some o q res i
        by (auto simp: make_handle_def RL_NODE_TYPE_FILE_def RL_NODE_TYPE_DIRECTORY_def)
    qed
  qed
qed

text \<open>
  Opening a file. The path handed to the operating system is the root path, a slash
  and the requested path, cut to 259 bytes. The new handle takes the first free slot and no
  other slot changes; a directory is marked by the handle -1. When there is no free slot, or
  the operating system fails, the set of open handles is what it was.
\<close>
theorem open_takes_first_slot:
  assumes "valid_string (native_path (root_handle p))" and "valid_string path"
  shows "\<exists>r q. make_handle os p path mode = Some (r, q) \<and> length (handles q) = length (handles p) \<and>
           (case r of
              Inl e \<Rightarrow> map fh_handle (handles q) = map fh_handle (handles p) \<and>
                       (e = RL_NETERR_TOO_MANY_FILES_OPEN \<longleftrightarrow> (\<forall>h\<in>set (handles p). fh_handle h \<noteq> 0))
            | Inr ref \<Rightarrow> \<exists>i < length (handles p). ref = Slot i \<and> fh_handle (handles p ! i) = 0 \<and>
                       (\<forall>k < i. fh_handle (handles p ! k) \<noteq> 0) \<and>
                       (\<forall>k. k \<noteq> i \<longrightarrow> handles q ! k = handles p ! k) \<and>
                       native_path (handles q ! i) =
                         take 259 (native_path (root_handle p) @ lit ''/'' @ path) \<and>
                       (fh_handle (handles q ! i) = - 1 \<longleftrightarrow> fh_type (handles q ! i) = RL_NODE_TYPE_DIRECTORY))"
  by (rule make_handle_slot [OF assms])

theorem open_takes_first_slot_witness:
  "\<exists>r q. make_handle example_os example_controller (lit ''x'') RL_OPENFLAG_READ = Some (r, q) \<and> length (handles q) = 16"
proof -
  have h: "valid_string (native_path (root_handle example_controller))" "valid_string (lit ''x'')"
    by (simp_all add: example_handle_def valid_string_def)
  obtain r q where "make_handle example_os example_controller (lit ''x'') RL_OPENFLAG_READ = Some (r, q)"
    "length (handles q) = length (handles example_controller)"
    using open_takes_first_slot [OF h, of example_os RL_OPENFLAG_READ] by blast
  then show ?thesis by simp
qed

text \<open>
  A read request is answered with what \<open>pread\<close> delivers for up to 4096 bytes at the low
  half of the offset. The length in the request and the high half of the offset have no
  influence on the answer, and the read does not change the table.
\<close>
theorem read_answer_data:
  assumes "can_answer p" and "posix_ok os" and "get_handle_from_id h = Some r" and "fh_handle (the_handle p r) \<noteq> 0"
    and "os_pread os (fh_handle (the_handle p r)) 4096 (unat lo) (world p) = (Some bs, w)"
  shows "\<exists>p'. read_file_request host os p msg h hi lo n = Some (0, p') \<and> handles p' = handles p \<and> world p' = w \<and>
           out_text p' = out_text p @ wire_msg ((RL_MSG_INIT (Read_file_answer bs))\<lparr>hdr_seq := hdr_seq msg\<rparr>)"
proof -
  let ?q = "p\<lparr>world := w\<rparr>" and ?m = "(RL_MSG_INIT (Read_file_answer bs))\<lparr>hdr_seq := hdr_seq msg\<rparr>"
  have "length bs \<le> 4096" using assms(2,5) unfolding posix_ok_def by (metis fst_conv option.simps(5))
  then have v: "valid_body (body ?m)" "msg_size ?m \<le> 8192"
    by (simp_all add: valid_body_def valid_array_def msg_size_seq)
      (simp add: msg_size_def fixed_of_def var_of_def layouts_def msg_fields_def RL_MSG_INIT_def wire_array_def)
  have t: "peer.truncate ?q = peer.truncate p" by simp
  have "\<exists>p'. peer_transmit_message host ?q ?m = Some (0, p') \<and> transport_ok p' \<and> queued ?q p' \<and>
      out_text p' = out_text ?q @ wire_msg ?m"
    using assms(1) trunc_ok(1) [OF t] trunc_fields(8,10) [OF t]
    by (intro transmit_connected v) (simp_all add: can_answer_def)
  then obtain p' where "peer_transmit_message host ?q ?m = Some (0, p')" "queued ?q p'"
    "out_text p' = out_text ?q @ wire_msg ?m" by blast
  then show ?thesis
    using assms(3-5) trunc_ok(2) [OF t] more_ctl(1,3) [of p' ?q] more_fields(9) [of p' ?q]
    by (simp add: read_file_request_def queued_def)
qed

theorem read_answer_data_witness:
  "\<exists>p'. read_file_request example_host example_os example_controller (RL_MSG_INIT (Read_file_request 0 0 1 2)) 0 0 1 2 =
          Some (0, p') \<and>
        out_text p' = out_text example_controller @ wire_msg (RL_MSG_INIT (Read_file_answer (lit ''ello'')))"
proof -
  have h: "get_handle_from_id 0 = Some (Slot 0)"
    by (simp add: get_handle_from_id_def RL_FILEHANDLE_VIRTUAL_INPUT_def RL_FILEHANDLE_VIRTUAL_OUTPUT_def RL_MAX_FILE_HANDLES_def)
  have f: "fh_handle (the_handle example_controller (Slot 0)) \<noteq> 0" by (simp add: example_handle_def)
  have r: "os_pread example_os (fh_handle (the_handle example_controller (Slot 0))) 4096 (unat (1 :: rl_uint32)) (world example_controller) =
      (Some (lit ''ello''), ([], []))"
    by (simp add: example_os_def)
  show ?thesis
    using read_answer_data [OF example_controller_ok(1) example_os_ok h f r, of example_host "RL_MSG_INIT (Read_file_request 0 0 1 2)" 0 2]
    by (auto simp: RL_MSG_INIT_def)
qed

text \<open>
  Claim C27: closing a file leaks its descriptor. For a handle that is open on a regular file,
  the close request frees the slot without an answer, but the operating system is not called:
  the descriptor stays open.
\<close>
theorem close_leaks_descriptor:
  assumes "unat h < RL_MAX_FILE_HANDLES" and "length (handles p) = RL_MAX_FILE_HANDLES"
    and "fh_handle (handles p ! unat h) \<noteq> - 1"
  shows "\<exists>q. close_handle_request host os p msg h = Some (0, q) \<and> fh_handle (handles q ! unat h) = 0 \<and>
           world q = world p \<and> out_text q = out_text p"
proof -
  have "h \<noteq> - 1" "h \<noteq> RL_FILEHANDLE_VIRTUAL_INPUT" "h \<noteq> RL_FILEHANDLE_VIRTUAL_OUTPUT"
    using assms(1) by (auto simp: RL_FILEHANDLE_VIRTUAL_INPUT_def RL_FILEHANDLE_VIRTUAL_OUTPUT_def RL_MAX_FILE_HANDLES_def
        unsigned_minus_1_eq_mask mask_eq_exp_minus_1)
  then show ?thesis
    using assms trunc_ok(2) [of "set_handle p (Slot (unat h)) (\<lambda>f. f\<lparr>fh_handle := 0\<rparr>)" p]
    by (simp add: close_handle_request_def get_handle_from_id_def RL_MAX_FILE_HANDLES_def)
qed

theorem close_leaks_descriptor_witness:
  "\<exists>q. close_handle_request example_host example_os example_controller (RL_MSG_INIT (Close_handle_request 0)) 0 = Some (0, q) \<and>
     fh_handle (handles q ! 0) = 0 \<and> world q = ([], [])"
  using close_leaks_descriptor [of 0 example_controller example_host example_os "RL_MSG_INIT (Close_handle_request 0)"]
  by (simp add: RL_MAX_FILE_HANDLES_def example_handle_def) blast

end
