(* ===== verification/Rl_Streams.thy ===== *)
theory Rl_Streams
  imports Rl_Packets Rl_File_Server
begin

unbundle bit_operations_syntax

text \<open>
  Whole transfers over the file system of the target: a read that may take several answers
  of the controller and uses the read-ahead buffer of its handle, a write that is cut into
  requests of at most 4096 bytes, and the position of a handle.
\<close>

section \<open>Reading a file\<close>

text \<open>
  What the other side promises about a file \<open>F\<close>: a read at an offset is answered with a part of
  the file that starts there, of at most 4096 bytes, and empty only behind the end.
\<close>

locale file_source =
  fixes serve :: "nat \<Rightarrow> rl_uint8 list" and F :: "rl_uint8 list"
  assumes part: "\<exists>k. serve off = take k (drop off F)"
    and short: "length (serve off) \<le> 4096"
    and progress: "serve off = [] \<Longrightarrow> length F \<le> off"

text \<open>The read-ahead buffer holds a part of the file.\<close>

definition buffered :: "rl_uint8 list \<Rightarrow> rl_client_handle \<Rightarrow> bool" where
  "buffered F h \<longleftrightarrow>
     unat (buffer_start h) + unat (buffer_len h) < 2 ^ 32 \<and>
     mread (ch_buffer h) 0 (unat (buffer_len h)) = take (unat (buffer_len h)) (drop (unat (buffer_start h)) F)"

lemma buffered_offset [simp]: "buffered F (h\<lparr>offset_lo := x\<rparr>) = buffered F h"
  by (simp add: buffered_def)

text \<open>The buffer is never read beyond its data, and what is read is the file.\<close>

lemma overlap_data:
  assumes "buffered F h" and "buffer_overlap h n = Some (off, c)"
  shows "mread (ch_buffer h) (unat off) (unat c) = take (unat c) (drop (unat (offset_lo h)) F)"
    "c \<le> n" "unat c \<le> length F - unat (offset_lo h)"
    "unat off + unat c \<le> unat (buffer_len h)"
proof -
  let ?s = "unat (buffer_start h)" and ?l = "unat (buffer_len h)" and ?o = "unat (offset_lo h)"
  have hi: "unat (buffer_start h + buffer_len h) = ?s + ?l"
    using assms(1) by (subst unat_word_ariths(1)) (simp add: buffered_def)
  have c: "buffer_start h \<le> offset_lo h" "offset_lo h < buffer_start h + buffer_len h"
    "off = offset_lo h - buffer_start h" "c = min (buffer_start h + buffer_len h - offset_lo h) n"
    using assms(2) by (auto simp: buffer_overlap_def Let_def split: if_splits)
  have o: "?s \<le> ?o" "?o < ?s + ?l" using c(1,2) hi by (simp_all add: word_le_nat_alt word_less_nat_alt)
  have off: "unat off = ?o - ?s" using c(1,3) by (simp add: unat_sub)
  have "unat (buffer_start h + buffer_len h - offset_lo h) = ?s + ?l - ?o" using c(2) hi by (simp add: unat_sub)
  then have cle: "unat c \<le> ?s + ?l - ?o" using c(4) by (metis min.cobounded1 word_le_nat_alt)
  show "c \<le> n" using c(4) by simp
  show fit: "unat off + unat c \<le> ?l" using off cle o by linarith
  have "mread (ch_buffer h) (unat off) (unat c) = take (unat c) (drop (unat off) (mread (ch_buffer h) 0 ?l))"
    using fit by (intro nth_equalityI) auto
  also have "\<dots> = take (unat c) (drop (unat off) (take ?l (drop ?s F)))" using assms(1) by (simp add: buffered_def)
  also have "\<dots> = take (unat c) (drop ?o F)"
    using fit off o by (simp add: drop_take min_def)
  finally show "mread (ch_buffer h) (unat off) (unat c) = take (unat c) (drop ?o F)" .
  have "length (mread (ch_buffer h) 0 ?l) = ?l" by simp
  then have "?l \<le> length F - ?s" using assms(1) unfolding buffered_def by (metis length_drop length_take min.cobounded1 min_def)
  then show "unat c \<le> length F - ?o" using cle o by linarith
qed

text \<open>
  The state while a read of \<open>unat (dp_Arg3 pk)\<close> bytes at offset \<open>off\<close> is under way and \<open>k\<close> bytes have
  arrived. \<open>M\<close> is the memory of the programs before.
\<close>

definition reading :: "rl_uint8 list \<Rightarrow> mem \<Rightarrow> nat \<Rightarrow> addr \<Rightarrow> DosPacket \<Rightarrow> nat \<Rightarrow> rl_amigafs \<Rightarrow> bool" where
  "reading F M off p pk k fs \<longleftrightarrow>
     (\<exists>a op key h. pending fs = [(a, op)] \<and> input_packet op = p \<and> op_callback op = complete_read_fn \<and>
        expected_answer_type op = RL_MSG_READ_FILE_ANSWER \<and> destination op = dp_Arg2 pk + of_nat k \<and>
        packets fs p = Some pk \<and> HANDLE_FROM_LOCK fs (dp_Arg1 pk) = Some key \<and> handle_at fs key = Some h \<and>
        offset_lo h = of_nat (off + k) \<and> transport_ok fs) \<and>
     k \<le> unat (dp_Arg3 pk) \<and> k \<le> length F - off \<and> client_mem fs = mwrite M (unat (dp_Arg2 pk)) (take k (drop off F))"

text \<open>The state when it is over: the packet carries the count, the buffer is in order.\<close>

definition read_over :: "rl_uint8 list \<Rightarrow> mem \<Rightarrow> nat \<Rightarrow> addr \<Rightarrow> DosPacket \<Rightarrow> rl_amigafs \<Rightarrow> rl_amigafs \<Rightarrow> bool" where
  "read_over F M off p pk fs fs' \<longleftrightarrow>
     (let D = take (unat (dp_Arg3 pk)) (drop off F)
      in pending fs' = [] \<and> client_mem fs' = mwrite M (unat (dp_Arg2 pk)) D \<and>
         (\<exists>port pk'. replies fs' = replies fs @ [(port, p, pk')] \<and> dp_Res1 pk' = of_nat (length D) \<and> dp_Res2 pk' = 0) \<and>
         (\<exists>key h. HANDLE_FROM_LOCK fs' (dp_Arg1 pk) = Some key \<and> handle_at fs' key = Some h \<and>
            offset_lo h = of_nat (off + length D) \<and> buffered F h))"

text \<open>
  The controller answers as long as the operation is pending: the bytes at the offset the
  handle asks for.
\<close>

fun serve_read :: "nat \<Rightarrow> host \<Rightarrow> (nat \<Rightarrow> rl_uint8 list) \<Rightarrow> rl_amigafs \<Rightarrow> rl_amigafs option" where
  "serve_read 0 host serve fs = Some fs"
| "serve_read (Suc n) host serve fs =
     (case pending fs of
        [] \<Rightarrow> Some fs
      | (a, op) # _ \<Rightarrow> do {
          pk \<leftarrow> packets fs (input_packet op);
          key \<leftarrow> HANDLE_FROM_LOCK fs (dp_Arg1 pk);
          h \<leftarrow> handle_at fs key;
          (_, fs) \<leftarrow> rl_amigafs_process_network_message host fs
                      ((RL_MSG_INIT (Read_file_answer (serve (unat (offset_lo h)))))\<lparr>hdr_seq := request_seqno op\<rparr>);
          serve_read n host serve fs
        })"

lemma reply_eq:
  "packets fs p = Some pk \<Longrightarrow>
     reply fs p x y =
       Some (fs\<lparr>packets := (packets fs)(p := None),
                replies := replies fs @ [(dp_Port pk, p, pk\<lparr>dp_Res1 := x, dp_Res2 := y, dp_Port := device_port fs\<rparr>)]\<rparr>)"
  by (simp add: reply_def reply_to_packet_def)

lemma lock_fields [simp]:
  "HANDLE_FROM_LOCK (update_handle fs k f) l = HANDLE_FROM_LOCK fs l"
  "HANDLE_FROM_LOCK (update_op fs a g) l = HANDLE_FROM_LOCK fs l"
  "HANDLE_FROM_LOCK (unlink_pending fs a) l = HANDLE_FROM_LOCK fs l"
  "HANDLE_FROM_LOCK (fs\<lparr>client_mem := m\<rparr>) l = HANDLE_FROM_LOCK fs l"
  "HANDLE_FROM_LOCK (fs\<lparr>seqno := s\<rparr>) l = HANDLE_FROM_LOCK fs l"
  "HANDLE_FROM_LOCK (fs\<lparr>packets := P, replies := R\<rparr>) l = HANDLE_FROM_LOCK fs l"
  "handle_at (fs\<lparr>packets := P, replies := R\<rparr>) key = handle_at fs key"
  by (simp_all add: HANDLE_FROM_LOCK_def update_op_def unlink_pending_def handle_at_def split: handle_ptr.splits)

lemma op_fields [simp]:
  "packets (update_op fs a g) = packets fs" "replies (update_op fs a g) = replies fs"
  "client_mem (update_op fs a g) = client_mem fs" "seqno (update_op fs a g) = seqno fs"
  "device_port (update_op fs a g) = device_port fs"
  "pending fs = [(a, op)] \<Longrightarrow> pending (update_op fs a g) = [(a, g op)]"
  "packets (unlink_pending fs a) = packets fs" "replies (unlink_pending fs a) = replies fs"
  "client_mem (unlink_pending fs a) = client_mem fs"
  "pending fs = [(a, op)] \<Longrightarrow> pending (unlink_pending fs a) = []"
  by (simp_all add: update_op_def unlink_pending_def)

lemma more_handles:
  assumes "peer.more q = peer.more (p :: rl_amigafs)"
  shows "handle_at q = handle_at p" "HANDLE_FROM_LOCK q = HANDLE_FROM_LOCK p"
  using more_fs [OF assms] by (auto simp: handle_at_def HANDLE_FROM_LOCK_def fun_eq_iff split: handle_ptr.splits)

lemma unat_min: "unat (min a b) = min (unat a) (unat b)" for a b :: "'a :: len word"
  by (simp add: min_def word_le_nat_alt)

lemma mwrite_extend: "length xs = n \<Longrightarrow> mwrite (mwrite M a xs) (a + n) ys = mwrite M a (xs @ ys)"
  by (simp add: mwrite_append)

lemma network_read:
  assumes "pending fs = [(a, op)]" and "op_callback op = complete_read_fn"
    and "expected_answer_type op = RL_MSG_READ_FILE_ANSWER" and "hdr_seq msg = request_seqno op" and "body msg = Read_file_answer d"
  shows "rl_amigafs_process_network_message host fs msg = map_option (Pair 0) (complete_read host fs (a, op) msg)"
  using assms
  by (simp add: rl_amigafs_process_network_message_def find_pending_op_def rl_msg_kind_of_def RL_MSG_READ_FILE_ANSWER_def)

text \<open>The state after the data of an answer were taken over, and how \<open>complete_read\<close> goes on from there.\<close>

definition taken :: "rl_amigafs \<Rightarrow> addr \<Rightarrow> rl_pending_operation \<Rightarrow> handle_ptr \<Rightarrow> rl_uint8 list \<Rightarrow> rl_uint32 \<Rightarrow> rl_amigafs" where
  "taken fs a op key d s =
     update_op (update_handle (fs\<lparr>client_mem := mwrite (client_mem fs) (unat (destination op)) (take (unat s) d)\<rparr>)
       key (\<lambda>h. h\<lparr>offset_lo := offset_lo h + s\<rparr>)) a (\<lambda>_. op\<lparr>destination := destination op + s\<rparr>)"

lemma complete_read_eq:
  assumes "packets fs (input_packet op) = Some pk" and "HANDLE_FROM_LOCK fs (dp_Arg1 pk) = Some key"
    and "handle_at fs key = Some h" and "body msg = Read_file_answer d"
    and "s = min (dp_Arg3 pk - readop_bytes_read op pk) (of_nat (length d))" and "of_nat (length d) - s \<le> 4096"
    and "op' = op\<lparr>destination := destination op + s\<rparr>" and "q = taken fs a op key d s"
  shows "complete_read host fs (a, op) msg =
      (if dp_Arg3 pk = readop_bytes_read op' pk \<or> of_nat (length d) = (0 :: rl_uint32)
       then do {
         fs \<leftarrow> reply (update_handle q key (\<lambda>h. h\<lparr>buffer_start := offset_lo h, buffer_len := of_nat (length d) - s,
                          ch_buffer := mwrite (ch_buffer h) 0 (drop (unat s) d)\<rparr>))
                (input_packet op) (readop_bytes_read op' pk) 0;
         Some (unlink_pending fs a)
       }
       else do {
         let fs = update_op (q\<lparr>seqno := seqno q + 1\<rparr>) a (\<lambda>op. op\<lparr>request_seqno := seqno q\<rparr>);
         handle \<leftarrow> handle_at fs key;
         (rc, fs) \<leftarrow> transmit_read_request host fs handle (seqno q) (dp_Arg3 pk - readop_bytes_read op' pk);
         if rc \<noteq> 0
         then do {
           fs \<leftarrow> reply fs (input_packet op) 0 ERROR_SEEK_ERROR;
           Some (unlink_pending fs a)
         }
         else Some fs
       })"
  unfolding complete_read_def assms(7,8) taken_def Let_def
  using assms(1-4,6) unfolding assms(5) by simp

lemma unat_of_nat32: "m < 2 ^ 32 \<Longrightarrow> unat (of_nat m :: rl_uint32) = m"
  by (simp add: unat_of_nat take_bit_nat_eq_self)

lemma buffered_fill:
  assumes "unat bs = o1" and "unat bl = length rest" and "take (length rest) (drop o1 F) = rest" and "o1 + length rest < 2 ^ 32"
  shows "buffered F (h\<lparr>buffer_start := bs, buffer_len := bl, ch_buffer := mwrite b 0 rest\<rparr>)"
  using assms by (simp add: buffered_def)

lemma read_overI:
  assumes "take (unat (dp_Arg3 pk)) (drop off F) = D" and "length D = n" and "pending fs' = []"
    and "client_mem fs' = mwrite M (unat (dp_Arg2 pk)) D" and "replies fs' = replies fs @ [(port, p, pk')]"
    and "dp_Res1 pk' = of_nat n" and "dp_Res2 pk' = 0" and "HANDLE_FROM_LOCK fs' (dp_Arg1 pk) = Some key"
    and "handle_at fs' key = Some h" and "offset_lo h = of_nat (off + n)" and "buffered F h"
  shows "read_over F M off p pk fs fs'"
  unfolding read_over_def Let_def assms(1,2) using assms(3-) by blast

context file_source
begin

lemma read_step:
  assumes "reading F M off p pk k fs" and "length F < 2 ^ 31" and "off < 2 ^ 31"
    and "unat (dp_Arg2 pk) + unat (dp_Arg3 pk) < 2 ^ 32" and "pending fs = (a, op) # ops"
  shows "\<exists>fs'. rl_amigafs_process_network_message host fs
                 ((RL_MSG_INIT (Read_file_answer (serve (off + k))))\<lparr>hdr_seq := request_seqno op\<rparr>) = Some (0, fs') \<and>
           (read_over F M off p pk fs fs' \<or>
            (\<exists>k' > k. reading F M off p pk k' fs' \<and> replies fs' = replies fs))"
proof -
  let ?d = "serve (off + k)" and ?n = "unat (dp_Arg3 pk)" and ?b = "unat (dp_Arg2 pk)"
  obtain key h where r: "pending fs = [(a, op)]" "input_packet op = p" "op_callback op = complete_read_fn"
    "expected_answer_type op = RL_MSG_READ_FILE_ANSWER" "destination op = dp_Arg2 pk + of_nat k"
    "packets fs p = Some pk" "HANDLE_FROM_LOCK fs (dp_Arg1 pk) = Some key" "handle_at fs key = Some h"
    "offset_lo h = of_nat (off + k)" "transport_ok fs" "k \<le> ?n" "k \<le> length F - off"
    "client_mem fs = mwrite M ?b (take k (drop off F))"
    using assms(1,5) by (auto simp: reading_def)
  obtain j where "?d = take j (drop (off + k) F)" using part by blast
  then have d: "?d = take (length ?d) (drop (off + k) F)" by (metis length_take min.cobounded2 take_all take_take min_def)
  have dl: "length ?d \<le> 4096" by (rule short)
  let ?s = "min (?n - k) (length ?d)"
  have kb: "k < 2 ^ 32" "?b + k < 2 ^ 32" using r(11) assms(4) by linarith+
  have rb: "readop_bytes_read op pk = of_nat k" by (simp add: readop_bytes_read_def r(5))
  have left: "unat (dp_Arg3 pk - of_nat k) = ?n - k"
    using r(11) kb(1) by (subst unat_sub) (simp_all add: word_le_nat_alt unat_of_nat take_bit_nat_eq_self)
  have ud: "unat (of_nat (length ?d) :: rl_uint32) = length ?d"
    using dl by (simp add: unat_of_nat take_bit_nat_eq_self)
  let ?sw = "min (dp_Arg3 pk - of_nat k) (of_nat (length ?d)) :: rl_uint32"
  have us: "unat ?sw = ?s" by (simp only: unat_min left ud)
  have sw: "?sw = of_nat ?s" by (simp only: us [symmetric]) simp
  let ?op = "op\<lparr>destination := destination op + ?sw\<rparr>"
  define q where "q = taken fs a op key ?d ?sw"
  have "unat (destination op) = ?b + k"
    using r(5) kb by (simp add: unat_word_ariths(1) unat_of_nat take_bit_nat_eq_self)
  moreover have "take ?s ?d = take ?s (drop (off + k) F)" by (subst d) (simp add: min_def)
  then have "take k (drop off F) @ take ?s ?d = take (k + ?s) (drop off F)" by (simp add: take_add add.commute)
  moreover have "length (take k (drop off F)) = k" using r(12) by simp
  ultimately have mq: "client_mem q = mwrite M ?b (take (k + ?s) (drop off F))"
    using r(13) by (simp add: q_def taken_def us mwrite_extend)
  have ks: "k + ?s \<le> length F - off"
  proof -
    have "length ?d \<le> length F - (off + k)" using arg_cong [OF d, of length] by simp
    moreover have "?s \<le> length ?d" by simp
    ultimately show ?thesis using r(12) by linarith
  qed
  have q: "pending q = [(a, ?op)]" "packets q = packets fs" "replies q = replies fs" "seqno q = seqno fs"
    "HANDLE_FROM_LOCK q = HANDLE_FROM_LOCK fs" "handle_at q key = Some (h\<lparr>offset_lo := of_nat (off + (k + ?s))\<rparr>)"
    using r(1,8,9) by (simp_all add: q_def taken_def sw fun_eq_iff)
  have fits: "of_nat (length ?d) - ?sw \<le> 4096"
  proof -
    have "unat (of_nat (length ?d) - ?sw) = length ?d - ?s"
      using ud us by (subst unat_sub) (simp_all add: word_le_nat_alt)
    then show ?thesis using dl by (simp add: word_le_nat_alt)
  qed
  have rb2: "readop_bytes_read ?op pk = of_nat (k + ?s)" by (simp add: readop_bytes_read_def r(5) sw)
  have nk: "k + ?s \<le> ?n" "k + ?s < 2 ^ 32" using assms(4) r(11) by auto
  have fin: "(dp_Arg3 pk = readop_bytes_read ?op pk) = (k + ?s = ?n)"
    unfolding rb2 word_unat_eq_iff unat_of_nat32 [OF nk(2)] by auto
  let ?m = "(RL_MSG_INIT (Read_file_answer ?d))\<lparr>hdr_seq := request_seqno op\<rparr>"
  have z: "(of_nat (length ?d) = (0 :: rl_uint32)) = (?d = [])"
    using unat_eq_0 [of "of_nat (length ?d) :: rl_uint32"] unfolding ud by simp
  have net: "rl_amigafs_process_network_message host fs ?m = map_option (Pair 0) (complete_read host fs (a, op) ?m)"
    using r(1,3,4) by (intro network_read) simp_all
  note run = complete_read_eq [where fs = fs and op = op and pk = pk and key = key and h = h and msg = ?m and d = ?d
      and s = ?sw and op' = ?op and q = q and a = a and host = host, unfolded fin z rb r(2), OF r(6-8) body_seq(1) refl fits refl q_def]
  show ?thesis
  proof (cases "k + ?s = ?n \<or> ?d = []")
    case True
    have D: "take ?n (drop off F) = take (k + ?s) (drop off F)" "length (take ?n (drop off F)) = k + ?s"
    proof -
      have "length F \<le> off + k" if "?d = []" using progress [OF that] .
      then show "take ?n (drop off F) = take (k + ?s) (drop off F)" using True ks nk(1) by auto
      then show "length (take ?n (drop off F)) = k + ?s" using ks by simp
    qed
    let ?f = "\<lambda>h. h\<lparr>buffer_start := offset_lo h, buffer_len := of_nat (length ?d) - ?sw,
                  ch_buffer := mwrite (ch_buffer h) 0 (drop (unat ?sw) ?d)\<rparr>"
    let ?h = "?f (h\<lparr>offset_lo := of_nat (off + (k + ?s))\<rparr>)"
    have sum: "off + x < 2 ^ 32" if "x \<le> length F - off" for x using that assms(2,3) by simp
    have bl: "unat (of_nat (length ?d) - ?sw) = length ?d - ?s"
      using ud us by (subst unat_sub) (simp_all add: word_le_nat_alt)
    have o: "unat (of_nat (off + (k + ?s)) :: rl_uint32) = off + (k + ?s)"
      using unat_of_nat32 [OF sum [OF ks]] .
    have rest: "take (length ?d - x) (drop (off + (k + x)) F) = drop x ?d" for x
      using arg_cong [OF d, of "drop x"] by (simp add: drop_take ac_simps)
    have "off + x + 4096 < 2 ^ 32" if "x \<le> length F - off" for x using that assms(2,3) by simp
    from this [OF ks] have "off + (k + ?s) + length (drop ?s ?d) < 2 ^ 32" using dl by simp
    then have "buffered F ((h\<lparr>offset_lo := of_nat (off + (k + ?s))\<rparr>)\<lparr>buffer_start := of_nat (off + (k + ?s)),
        buffer_len := of_nat (length ?d) - ?sw, ch_buffer := mwrite (ch_buffer h) 0 (drop (unat ?sw) ?d)\<rparr>)"
      unfolding us by (intro buffered_fill [OF o]) (simp_all only: bl length_drop rest)
    then have "buffered F ?h" by simp
    then have bh: "buffered F ?h" .
    have h': "handle_at (update_handle q key ?f) key = Some ?h" using q(6) by simp
    let ?pk = "pk\<lparr>dp_Res1 := of_nat (k + ?s), dp_Res2 := 0, dp_Port := device_port (update_handle q key ?f)\<rparr>"
    obtain fs' where fs': "complete_read host fs (a, op) ?m = Some fs'" "fs' = unlink_pending
        ((update_handle q key ?f)\<lparr>packets := (packets q)(p := None), replies := replies q @ [(dp_Port pk, p, ?pk)]\<rparr>) a"
      using run True r(6) q(2) rb2 reply_eq [of "update_handle q key ?f" p pk "of_nat (k + ?s)" 0] by simp
    have f1: "handle_at fs' key = Some ?h" "HANDLE_FROM_LOCK fs' (dp_Arg1 pk) = Some key"
      unfolding fs'(2) using h' q(5) r(7) by (simp_all only: lock_fields handle_at_fields)
    have f2: "pending fs' = []" "client_mem fs' = mwrite M ?b (take (k + ?s) (drop off F))"
      "replies fs' = replies fs @ [(dp_Port pk, p, ?pk)]"
      unfolding fs'(2) using q(1,3) mq by simp_all
    have "read_over F M off p pk fs fs'"
      by (rule read_overI [where n = "k + ?s", OF D(1) _ f2 _ _ f1(2,1) _ bh]) (use D(2) [unfolded D(1)] in simp_all)
    then show ?thesis using net fs'(1) by simp
  next
    case False
    let ?q = "update_op (q\<lparr>seqno := seqno q + 1\<rparr>) a (\<lambda>op. op\<lparr>request_seqno := seqno q\<rparr>)"
    let ?h = "h\<lparr>offset_lo := of_nat (off + (k + ?s))\<rparr>"
    have kq: "keeps fs ?q"
    proof -
      have "keeps fs q" unfolding q_def taken_def
        by (rule keeps_op) (use calm_keeps [OF calm_refl [OF r(10)]] r(1) in simp_all)
      then show ?thesis by (intro keeps_op) simp_all
    qed
    obtain fs' where fs': "transmit_read_request host ?q ?h (seqno q) (dp_Arg3 pk - readop_bytes_read ?op pk) = Some (0, fs')"
      "keeps fs fs'" "peer.more fs' = peer.more ?q"
      using transmit_read_keeps [OF kq] by blast
    have "complete_read host fs (a, op) ?m = Some fs'" using run False fs'(1) q(6) by (simp add: Let_def)
    moreover have "reading F M off p pk (k + ?s) fs'"
      unfolding reading_def
      using more_fs [OF fs'(3)] more_handles [OF fs'(3)] keeps_ok [OF fs'(2)] r q mq nk ks
      by (intro conjI exI [of _ a] exI [of _ "?op\<lparr>request_seqno := seqno q\<rparr>"] exI [of _ key] exI [of _ ?h])
        (simp_all add: sw)
    moreover have "k < k + ?s" using False nk(1) by auto
    ultimately show ?thesis using net fs'(2) by (auto simp: keeps_def)
  qed
qed

end

text \<open>The start: the part that is in the buffer is copied, and if it is not all, the rest is requested.\<close>

lemma read_start:
  assumes "transport_ok fs" and "packets fs p = Some pk" and "pending fs = []"
    and "HANDLE_FROM_LOCK fs (dp_Arg1 pk) = Some key" and "handle_at fs key = Some h" and "buffered F h"
    and "allocs fs = a # as" and "a \<noteq> 0"
  shows "\<exists>fs'. action_read host fs p = Some fs' \<and>
           (read_over F (client_mem fs) (unat (offset_lo h)) p pk fs fs' \<or>
            (\<exists>k. reading F (client_mem fs) (unat (offset_lo h)) p pk k fs' \<and> replies fs' = replies fs))"
proof -
  let ?n = "unat (dp_Arg3 pk)" and ?off = "unat (offset_lo h)" and ?M = "client_mem fs"
  define c where "c = (case buffer_overlap h (dp_Arg3 pk) of None \<Rightarrow> 0 | Some (off, c) \<Rightarrow> c)"
  obtain m q where q: "read_from_buffer fs key h pk = (m, q)" by (cases "read_from_buffer fs key h pk")
  have c: "unat c \<le> length F - ?off" "c \<le> dp_Arg3 pk" "m = dp_Arg3 pk - c"
    "client_mem q = mwrite ?M (unat (dp_Arg2 pk)) (take (unat c) (drop ?off F))"
    "handle_at q key = Some (h\<lparr>offset_lo := offset_lo h + c\<rparr>)" "HANDLE_FROM_LOCK q = HANDLE_FROM_LOCK fs"
    "pending q = []" "packets q = packets fs" "replies q = replies fs"
    using q overlap_data [OF assms(6)] assms(3,5) unfolding c_def
    by (auto simp: read_from_buffer_def fun_eq_iff HANDLE_FROM_LOCK_def split: option.splits)
  have calm: "calm fs q" "allocs q = allocs fs" using buffer_calm [OF q assms(1)] by auto
  have up: "(of_nat (?off + unat c) :: rl_uint32) = offset_lo h + c" by simp
  show ?thesis
  proof (cases "buffer_overlap h (dp_Arg3 pk) \<noteq> None \<and> m = 0")
    case True
    then have n: "c = dp_Arg3 pk" using c(3) by simp
    have pq: "packets q p = Some pk" using c(8) assms(2) by simp
    obtain fs' where fs': "action_read host fs p = Some fs'"
      "fs' = q\<lparr>packets := (packets q)(p := None), replies := replies q @
        [(dp_Port pk, p, pk\<lparr>dp_Res1 := dp_Arg3 pk, dp_Res2 := 0, dp_Port := device_port q\<rparr>)]\<rparr>"
      using assms(2,4,5) q True reply_eq [OF pq, of "dp_Arg3 pk" 0] by (simp add: action_read_def)
    have h': "handle_at fs' key = Some (h\<lparr>offset_lo := offset_lo h + c\<rparr>)" "HANDLE_FROM_LOCK fs' (dp_Arg1 pk) = Some key"
      unfolding fs'(2) using c(5,6) assms(4) by simp_all
    have "read_over F ?M ?off p pk fs fs'"
      by (rule read_overI [where n = "unat c", OF _ _ _ _ _ _ _ h'(2,1)])
        (use c(1,4,7,9) n assms(6) up in \<open>auto simp: fs'(2)\<close>)
    then show ?thesis using fs'(1) by blast
  next
    case False
    let ?op = "\<lparr>request_seqno = seqno q, input_packet = p, expected_answer_type = RL_MSG_READ_FILE_ANSWER,
                op_callback = complete_read_fn, destination = 0, w_source = 0, w_length = 0\<rparr>"
    let ?q1 = "q\<lparr>allocs := as, seqno := seqno q + 1, pending := [(a, ?op)]\<rparr>"
    let ?q2 = "update_op ?q1 a (\<lambda>op. op\<lparr>destination := dp_Arg2 pk + c\<rparr>)"
    have al: "alloc_pending q p RL_MSG_READ_FILE_ANSWER complete_read_fn = (Some (a, ?op), ?q1)"
      using calm(2) assms(7,8) c(7) by (simp add: alloc_pending_def alloc_zeroed_def Let_def)
    have "peer.truncate ?q2 = peer.truncate q" by (simp add: update_op_def)
    then have t: "transport_ok ?q2" using trunc_ok(1) calm_ok [OF calm(1)] by blast
    have h2: "handle_at ?q2 key = Some (h\<lparr>offset_lo := offset_lo h + c\<rparr>)" "HANDLE_FROM_LOCK ?q2 = HANDLE_FROM_LOCK fs"
      using c(5,6) by (auto simp: handle_at_def HANDLE_FROM_LOCK_def fun_eq_iff update_op_def split: handle_ptr.splits)
    obtain fs' where fs': "transmit_read_request host ?q2 (h\<lparr>offset_lo := offset_lo h + c\<rparr>) (seqno q) m = Some (0, fs')"
      "keeps ?q2 fs'" "peer.more fs' = peer.more ?q2"
      using transmit_read_keeps [OF calm_keeps [OF calm_refl [OF t]]] by blast
    have run: "action_read host fs p = Some fs'"
      using assms(2,4,5) q False al h2(1) fs'(1) c(3) by (auto simp: action_read_def Let_def)
    have "reading F ?M ?off p pk (unat c) fs'"
      unfolding reading_def
      using more_fs [OF fs'(3)] more_handles [OF fs'(3)] keeps_ok [OF fs'(2)] c h2 assms(2,4) up
      by (intro conjI exI [of _ a] exI [of _ "?op\<lparr>destination := dp_Arg2 pk + c\<rparr>"] exI [of _ key]
            exI [of _ "h\<lparr>offset_lo := offset_lo h + c\<rparr>"]) (simp_all add: word_le_nat_alt)
    then show ?thesis using run more_fs [OF fs'(3)] c(9) by auto
  qed
qed

context file_source
begin

text \<open>Every round brings the read further, so as many rounds as bytes are wanted are enough.\<close>

lemma read_rounds:
  assumes "length F < 2 ^ 31" and "off < 2 ^ 31" and "unat (dp_Arg2 pk) + unat (dp_Arg3 pk) < 2 ^ 32"
  shows "reading F M off p pk k fs \<Longrightarrow> unat (dp_Arg3 pk) - k < n \<Longrightarrow>
    \<exists>fs'. serve_read n host serve fs = Some fs' \<and> read_over F M off p pk fs fs'"
proof (induction n arbitrary: k fs)
  case (Suc n)
  obtain a op key h where r: "pending fs = [(a, op)]" "input_packet op = p" "packets fs p = Some pk"
    "HANDLE_FROM_LOCK fs (dp_Arg1 pk) = Some key" "handle_at fs key = Some h" "offset_lo h = of_nat (off + k)"
    "k \<le> length F - off"
    using Suc.prems(1) by (auto simp: reading_def)
  have "off + x < 2 ^ 32" if "x \<le> length F - off" for x using that assms(1,2) by simp
  then have o: "unat (offset_lo h) = off + k" using r(6,7) unat_of_nat32 by metis
  obtain fs1 where fs1: "rl_amigafs_process_network_message host fs
      ((RL_MSG_INIT (Read_file_answer (serve (off + k))))\<lparr>hdr_seq := request_seqno op\<rparr>) = Some (0, fs1)"
    "read_over F M off p pk fs fs1 \<or> (\<exists>k' > k. reading F M off p pk k' fs1 \<and> replies fs1 = replies fs)"
    using read_step [OF Suc.prems(1) assms r(1)] by blast
  have run: "serve_read (Suc n) host serve fs = serve_read n host serve fs1"
    using r(1-5) o fs1(1) by simp
  from fs1(2) show ?case
  proof
    assume over: "read_over F M off p pk fs fs1"
    then have "serve_read n host serve fs1 = Some fs1" by (cases n) (simp_all add: read_over_def Let_def)
    then show ?thesis using run over by auto
  next
    assume "\<exists>k' > k. reading F M off p pk k' fs1 \<and> replies fs1 = replies fs"
    then obtain k' where k': "k < k'" "reading F M off p pk k' fs1" "replies fs1 = replies fs" by blast
    moreover have "k' \<le> unat (dp_Arg3 pk)" using k'(2) by (simp add: reading_def)
    then have "unat (dp_Arg3 pk) - k' < n" using k'(1) Suc.prems(2) by linarith
    ultimately obtain fs' where "serve_read n host serve fs1 = Some fs'" "read_over F M off p pk fs1 fs'"
      using Suc.IH by blast
    then show ?thesis using run k'(3) by (auto simp: read_over_def Let_def)
  qed
qed simp

end

section \<open>Writing to a file\<close>

lemma store_mallocs: "store h p f = Some h' \<Longrightarrow> mallocs h' = mallocs h"
  by (auto simp: store_def split: option.splits if_splits)

lemma enqueue_mallocs:
  assumes "enqueue_output_message host t msg = Some (rc, t')" and "mallocs (heap t) = []"
  shows "mallocs (heap t') = []"
proof -
  have alloc: "mallocs (heap t1) = []" if "rl_transport_alloc_buffer t = Some (r, t1)" for r t1
    using that assms(2)
    by (auto simp: rl_transport_alloc_buffer_def rl_alloc_sized_and_clear_def malloc_outcome_def Let_def
        dest!: store_mallocs split: if_splits bind_splits list.splits)
  have free: "mallocs (heap t2) = mallocs (heap t1)" if "rl_transport_free_buffer t1 b = Some t2" for t1 t2 b
    using that
    by (auto simp: rl_transport_free_buffer_def rl_free_sized_def dest!: store_mallocs split: if_splits bind_splits option.splits)
  have add: "mallocs (heap t2) = mallocs (heap t1)" if "rl_transport_add_output_message t1 b = Some (x, t2)" for t1 t2 b x
    using that by (auto simp: rl_transport_add_output_message_def dest!: store_mallocs split: if_splits bind_splits)
  show ?thesis
    using assms(1)
    by (auto simp: enqueue_output_message_def Let_def dest!: alloc free add store_mallocs split: bind_splits option.splits prod.splits if_splits)
qed

text \<open>A connected peer with memory sends what it is given.\<close>

definition can_send :: "'a peer_scheme \<Rightarrow> bool" where
  "can_send p \<longleftrightarrow> transport_ok p \<and> peer_state p = PEER_CONNECTED \<and> mallocs (heap p) = []"

lemma can_send_trunc: "peer.truncate q = peer.truncate p \<Longrightarrow> can_send q = can_send p" for p q :: "'a peer_scheme"
  using trunc_fields [of q p] trunc_ok [of q p] by (simp add: can_send_def)

lemma transmit_sends:
  fixes p :: "'a peer_scheme"
  assumes "can_send p" and "valid_body (body m)" and "msg_size m \<le> 8192"
  shows "\<exists>p'. peer_transmit_message host p m = Some (0, p') \<and> can_send p' \<and> peer.more p' = peer.more p \<and>
           out_text p' = out_text p @ wire_msg m \<and> peer_index p' = peer_index p"
proof -
  have a: "transport_ok p" "peer_state p = PEER_CONNECTED" "mallocs (heap p) = []" using assms(1) by (auto simp: can_send_def)
  obtain p' where p': "enqueue_output_message host p m = Some (0, p')" "transport_ok p'" "queued p p'"
    "out_text p' = out_text p @ wire_msg m"
    using enqueue_wire [OF a(1) assms(2,3), of host] a(3) by auto
  moreover have "mallocs (heap p') = []" using enqueue_mallocs [OF p'(1) a(3)] .
  moreover have "peer_state p' = PEER_CONNECTED" "peer.more p' = peer.more p" "peer_index p' = peer_index p"
    using p'(3) a(2) more_fields [of p' p] by (auto simp: queued_def)
  ultimately show ?thesis
    using a(2) by (auto simp: can_send_def peer_transmit_message_def invoke_action_def dispatch_def on_transmit_message_def)
qed

text \<open>The requests for a list of pieces, numbered from \<open>s\<close>.\<close>

fun write_requests :: "rl_uint32 \<Rightarrow> rl_uint32 \<Rightarrow> rl_uint8 list list \<Rightarrow> rl_uint8 list" where
  "write_requests hid s [] = []"
| "write_requests hid s (c # cs) =
     wire_msg ((RL_MSG_INIT (Write_file_request hid c))\<lparr>hdr_seq := s\<rparr>) @ write_requests hid (s + 1) cs"

lemma write_requests_snoc:
  "write_requests hid s (cs @ [c]) =
     write_requests hid s cs @ wire_msg ((RL_MSG_INIT (Write_file_request hid c))\<lparr>hdr_seq := s + of_nat (length cs)\<rparr>)"
  by (induction cs arbitrary: s) (simp_all add: add.assoc add.commute)

definition writing :: "mem \<Rightarrow> rl_uint32 \<Rightarrow> rl_uint32 \<Rightarrow> rl_uint8 list \<Rightarrow> addr \<Rightarrow> DosPacket \<Rightarrow> rl_uint8 list list \<Rightarrow> rl_amigafs \<Rightarrow> bool" where
  "writing M hid s out0 p pk cs fs \<longleftrightarrow>
     (\<exists>a op key h. pending fs = [(a, op)] \<and> input_packet op = p \<and> op_callback op = complete_write_fn \<and>
        expected_answer_type op = RL_MSG_WRITE_FILE_ANSWER \<and>
        w_source op + w_length op = dp_Arg2 pk + of_nat (length (concat cs)) \<and>
        packets fs p = Some pk \<and> HANDLE_FROM_LOCK fs (dp_Arg1 pk) = Some key \<and> handle_at fs key = Some h \<and>
        handle_id h = hid) \<and> can_send fs \<and> client_mem fs = M \<and> seqno fs = s + of_nat (length cs) \<and>
     out_text fs = out0 @ write_requests hid s cs \<and> list_all (\<lambda>c. length c \<le> 4096) cs \<and>
     concat cs = mread M (unat (dp_Arg2 pk)) (length (concat cs)) \<and> length (concat cs) \<le> unat (dp_Arg3 pk)"

lemma write_request_size:
  assumes "length c \<le> 4096"
  shows "valid_body (Write_file_request hid c)" "msg_size ((RL_MSG_INIT (Write_file_request hid c))\<lparr>hdr_seq := s\<rparr>) \<le> 8192"
  using assms
  by (simp_all add: valid_body_def valid_array_def msg_size_def fixed_of_def var_of_def layouts_def msg_fields_def
      RL_MSG_INIT_def wire_array_def)

lemma signed_min_nat: "n < 2 ^ 31 \<Longrightarrow> signed_min (of_nat n) 4096 = of_nat (min n 4096)"
proof -
  assume n: "n < 2 ^ 31"
  then have "uint (of_nat n :: rl_uint32) = int n" by (simp add: uint_word_of_int_eq unsigned_of_nat take_bit_nat_eq_self)
  then have "sint (of_nat n :: rl_uint32) = int n" using n by (simp add: sint_uint signed_take_bit_int_eq_self)
  then show ?thesis by (auto simp: signed_min_def min_def)
qed

lemma write_piece:
  assumes "pending q = [(a, op)]" and "input_packet op = p" and "op_callback op = complete_write_fn"
    and "expected_answer_type op = RL_MSG_WRITE_FILE_ANSWER" and "packets q p = Some pk"
    and "HANDLE_FROM_LOCK q (dp_Arg1 pk) = Some key" and "handle_at q key = Some h" and "can_send q"
    and "client_mem q = M" and "seqno q = s + of_nat (length cs) + 1" and "out_text q = out0 @ write_requests (handle_id h) s cs"
    and "list_all (\<lambda>c. length c \<le> 4096) cs" and "concat cs = mread M (unat (dp_Arg2 pk)) (length (concat cs))"
    and "length (concat cs) \<le> unat (dp_Arg3 pk)" and "unat (dp_Arg2 pk) + unat (dp_Arg3 pk) < 2 ^ 32" and "unat (dp_Arg3 pk) < 2 ^ 31"
  defines "k \<equiv> length (concat cs)"
  defines "c \<equiv> min (unat (dp_Arg3 pk) - k) 4096"
  shows "\<exists>fs'. transmit_write_request host q h a (s + of_nat (length cs)) (dp_Arg2 pk + of_nat k)
             (signed_min (dp_Arg3 pk - of_nat k) 4096) = Some (0, fs') \<and>
           writing M (handle_id h) s out0 p pk (cs @ [mread M (unat (dp_Arg2 pk) + k) c]) fs' \<and> replies fs' = replies q"
proof -
  let ?w = "signed_min (dp_Arg3 pk - of_nat k) 4096" and ?src = "dp_Arg2 pk + of_nat k"
  let ?piece = "mread M (unat (dp_Arg2 pk) + k) c"
  have kn: "k \<le> unat (dp_Arg3 pk)" using assms(14) by (simp add: k_def)
  have kb: "k < 2 ^ 32" "unat (dp_Arg2 pk) + k < 2 ^ 32" using kn assms(15) by linarith+
  have "dp_Arg3 pk - of_nat k = of_nat (unat (dp_Arg3 pk) - k)" using kn by (simp add: of_nat_diff)
  then have w: "?w = of_nat c" using signed_min_nat [of "unat (dp_Arg3 pk) - k"] assms(16) by (simp add: c_def)
  have c4: "c \<le> 4096" by (simp add: c_def)
  have uw: "unat ?w = c" unfolding w using c4 by (intro unat_of_nat32) simp
  have us: "unat ?src = unat (dp_Arg2 pk) + k" using kb by (simp add: unat_word_ariths(1) unat_of_nat take_bit_nat_eq_self)
  let ?op = "op\<lparr>w_source := ?src, w_length := ?w\<rparr>"
  let ?q = "update_op q a (\<lambda>op. op\<lparr>w_source := ?src, w_length := ?w\<rparr>)"
  have t: "peer.truncate ?q = peer.truncate q" by (simp add: update_op_def)
  let ?m = "(RL_MSG_INIT (Write_file_request (handle_id h) ?piece))\<lparr>hdr_seq := s + of_nat (length cs)\<rparr>"
  have "length ?piece \<le> 4096" using c4 by simp
  note sz = write_request_size [OF this]
  obtain fs' where fs': "peer_transmit_message host ?q ?m = Some (0, fs')" "can_send fs'" "peer.more fs' = peer.more ?q"
    "out_text fs' = out_text ?q @ wire_msg ?m"
    using transmit_sends [of ?q ?m host] can_send_trunc [OF t] assms(8) sz by auto
  have "transmit_write_request host q h a (s + of_nat (length cs)) ?src ?w = Some (0, fs')"
    using fs'(1) by (simp add: transmit_write_request_def us uw assms(9))
  moreover have "writing M (handle_id h) s out0 p pk (cs @ [?piece]) fs'"
    unfolding writing_def
  proof (intro conjI exI [of _ a] exI [of _ ?op] exI [of _ key] exI [of _ h])
    show "out_text fs' = out0 @ write_requests (handle_id h) s (cs @ [?piece])"
      using fs'(4) trunc_ok(2) [OF t] assms(11) by (simp add: write_requests_snoc)
    show "concat (cs @ [?piece]) = mread M (unat (dp_Arg2 pk)) (length (concat (cs @ [?piece])))"
      using assms(13) by (simp add: k_def [symmetric] mread_add)
    show "length (concat (cs @ [?piece])) \<le> unat (dp_Arg3 pk)" using kn by (simp add: k_def [symmetric] c_def)
    show "w_source ?op + w_length ?op = dp_Arg2 pk + of_nat (length (concat (cs @ [?piece])))"
      using w by (simp add: k_def [symmetric])
  qed (use assms(1-7,9,10,12) more_fs [OF fs'(3)] more_handles [OF fs'(3)] fs'(2) c4 in simp_all)
  ultimately show ?thesis using more_fs [OF fs'(3)] by simp
qed

text \<open>The controller acknowledges as long as the operation is pending.\<close>

fun serve_write :: "nat \<Rightarrow> host \<Rightarrow> rl_amigafs \<Rightarrow> rl_amigafs option" where
  "serve_write 0 host fs = Some fs"
| "serve_write (Suc n) host fs =
     (case pending fs of
        [] \<Rightarrow> Some fs
      | (a, op) # _ \<Rightarrow> do {
          (_, fs) \<leftarrow> rl_amigafs_process_network_message host fs ((RL_MSG_INIT Write_file_answer)\<lparr>hdr_seq := request_seqno op\<rparr>);
          serve_write n host fs
        })"

definition write_over ::
  "mem \<Rightarrow> rl_uint32 \<Rightarrow> rl_uint32 \<Rightarrow> rl_uint8 list \<Rightarrow> addr \<Rightarrow> DosPacket \<Rightarrow> rl_amigafs \<Rightarrow> rl_amigafs \<Rightarrow> bool" where
  "write_over M hid s out0 p pk fs fs' \<longleftrightarrow>
     pending fs' = [] \<and> client_mem fs' = M \<and>
     (\<exists>port pk'. replies fs' = replies fs @ [(port, p, pk')] \<and> dp_Res1 pk' = dp_Arg3 pk \<and> dp_Res2 pk' = 0) \<and>
     (\<exists>cs. concat cs = mread M (unat (dp_Arg2 pk)) (unat (dp_Arg3 pk)) \<and> list_all (\<lambda>c. length c \<le> 4096) cs \<and>
        out_text fs' = out0 @ write_requests hid s cs)"

lemma network_write:
  assumes "pending fs = [(a, op)]" and "op_callback op = complete_write_fn"
    and "expected_answer_type op = RL_MSG_WRITE_FILE_ANSWER" and "hdr_seq msg = request_seqno op" and "body msg = Write_file_answer"
  shows "rl_amigafs_process_network_message host fs msg = map_option (Pair 0) (complete_write host fs (a, op) msg)"
  using assms
  by (simp add: rl_amigafs_process_network_message_def find_pending_op_def rl_msg_kind_of_def RL_MSG_WRITE_FILE_ANSWER_def)

lemma write_step:
  assumes "writing M hid s out0 p pk cs fs" and "pending fs = (a, op) # ops"
    and "unat (dp_Arg2 pk) + unat (dp_Arg3 pk) < 2 ^ 32" and "unat (dp_Arg3 pk) < 2 ^ 31"
  shows "\<exists>fs'. rl_amigafs_process_network_message host fs ((RL_MSG_INIT Write_file_answer)\<lparr>hdr_seq := request_seqno op\<rparr>) =
             Some (0, fs') \<and>
           (write_over M hid s out0 p pk fs fs' \<or>
            (\<exists>cs'. length (concat cs) < length (concat cs') \<and> writing M hid s out0 p pk cs' fs' \<and> replies fs' = replies fs))"
proof -
  let ?n = "unat (dp_Arg3 pk)" and ?k = "length (concat cs)" and ?b = "unat (dp_Arg2 pk)"
  let ?m = "(RL_MSG_INIT Write_file_answer)\<lparr>hdr_seq := request_seqno op\<rparr>"
  obtain key h where w: "pending fs = [(a, op)]" "input_packet op = p" "op_callback op = complete_write_fn"
    "expected_answer_type op = RL_MSG_WRITE_FILE_ANSWER" "w_source op + w_length op = dp_Arg2 pk + of_nat ?k"
    "packets fs p = Some pk" "HANDLE_FROM_LOCK fs (dp_Arg1 pk) = Some key" "handle_at fs key = Some h" "handle_id h = hid"
    "can_send fs" "client_mem fs = M" "seqno fs = s + of_nat (length cs)" "out_text fs = out0 @ write_requests hid s cs"
    "list_all (\<lambda>c. length c \<le> 4096) cs" "concat cs = mread M ?b ?k" "?k \<le> ?n"
    using assms(1,2) unfolding writing_def by auto
  have net: "rl_amigafs_process_network_message host fs ?m = map_option (Pair 0) (complete_write host fs (a, op) ?m)"
    using w(1,3,4) by (intro network_write) (simp_all add: RL_MSG_INIT_def)
  have kb: "?b + ?k < 2 ^ 32" "?k < 2 ^ 32" using w(16) assms(3) by linarith+
  have ptr: "unat (dp_Arg2 pk + of_nat ?k) = ?b + ?k" "unat (dp_Arg2 pk + dp_Arg3 pk) = ?b + ?n"
    using kb assms(3) by (simp_all add: unat_word_ariths(1) unat_of_nat take_bit_nat_eq_self)
  have more: "(dp_Arg2 pk + of_nat ?k < dp_Arg2 pk + dp_Arg3 pk) = (?k < ?n)"
    unfolding word_less_nat_alt ptr by simp
  show ?thesis
  proof (cases "?k < ?n")
    case True
    let ?q = "update_op (fs\<lparr>seqno := seqno fs + 1\<rparr>) a (\<lambda>op. op\<lparr>request_seqno := seqno fs\<rparr>)"
    have t: "peer.truncate ?q = peer.truncate fs" by (simp add: update_op_def)
    have q: "pending ?q = [(a, op\<lparr>request_seqno := seqno fs\<rparr>)]" "packets ?q p = Some pk" "client_mem ?q = M"
      "HANDLE_FROM_LOCK ?q (dp_Arg1 pk) = Some key" "handle_at ?q key = Some h" "seqno ?q = s + of_nat (length cs) + 1"
      "replies ?q = replies fs"
      using w(1,6,7,8,11,12) by simp_all
    have d: "dp_Arg2 pk + dp_Arg3 pk - (dp_Arg2 pk + of_nat ?k) = dp_Arg3 pk - of_nat ?k" by simp
    let ?c = "min (?n - ?k) 4096"
    have "\<exists>fs'. transmit_write_request host ?q h a (s + of_nat (length cs)) (dp_Arg2 pk + of_nat ?k)
             (signed_min (dp_Arg3 pk - of_nat ?k) 4096) = Some (0, fs') \<and>
           writing M (handle_id h) s out0 p pk (cs @ [mread M (?b + ?k) ?c]) fs' \<and> replies fs' = replies ?q"
      by (rule write_piece [OF q(1) _ _ _ q(2,4,5) _ q(3,6) _ w(14,15,16) assms(3,4)])
        (use w(2,3,4,9,10,13) can_send_trunc [OF t] trunc_ok(2) [OF t] in simp_all)
    then obtain fs' where fs': "transmit_write_request host ?q h a (s + of_nat (length cs)) (dp_Arg2 pk + of_nat ?k)
             (signed_min (dp_Arg3 pk - of_nat ?k) 4096) = Some (0, fs')"
      "writing M hid s out0 p pk (cs @ [mread M (?b + ?k) ?c]) fs'" "replies fs' = replies fs"
      using q(7) w(9) by auto
    have "complete_write host fs (a, op) ?m = Some fs'"
      using w(2,5,6,7,8) True more d fs'(1) w(12) by (simp add: complete_write_def Let_def)
    moreover have "length (concat cs) < length (concat (cs @ [mread M (?b + ?k) ?c]))" using True by simp
    ultimately show ?thesis using net fs'(2,3) by auto
  next
    case False
    then have kn: "?k = ?n" using w(16) by simp
    let ?pk = "pk\<lparr>dp_Res1 := dp_Arg3 pk, dp_Res2 := 0, dp_Port := device_port fs\<rparr>"
    let ?r = "fs\<lparr>packets := (packets fs)(p := None), replies := replies fs @ [(dp_Port pk, p, ?pk)]\<rparr>"
    have run: "complete_write host fs (a, op) ?m = Some (unlink_pending ?r a)"
      using w(2,5,6,7,8) False more reply_eq [OF w(6), of "dp_Arg3 pk" 0] by (simp add: complete_write_def Let_def)
    have "peer.truncate (unlink_pending ?r a) = peer.truncate fs" by (simp add: unlink_pending_def)
    then have "out_text (unlink_pending ?r a) = out_text fs" by (rule trunc_ok)
    then have "write_over M hid s out0 p pk fs (unlink_pending ?r a)"
      unfolding write_over_def using w(1,11,13,14,15) kn by (intro conjI exI [of _ cs]) auto
    then show ?thesis using run net by simp
  qed
qed

lemma write_rounds:
  assumes "unat (dp_Arg2 pk) + unat (dp_Arg3 pk) < 2 ^ 32" and "unat (dp_Arg3 pk) < 2 ^ 31"
  shows "writing M hid s out0 p pk cs fs \<Longrightarrow> unat (dp_Arg3 pk) - length (concat cs) < n \<Longrightarrow>
    \<exists>fs'. serve_write n host fs = Some fs' \<and> write_over M hid s out0 p pk fs fs'"
proof (induction n arbitrary: cs fs)
  case (Suc n)
  obtain a op where pd: "pending fs = [(a, op)]" using Suc.prems(1) by (auto simp: writing_def)
  obtain fs1 where fs1: "rl_amigafs_process_network_message host fs ((RL_MSG_INIT Write_file_answer)\<lparr>hdr_seq := request_seqno op\<rparr>) =
      Some (0, fs1)"
    "write_over M hid s out0 p pk fs fs1 \<or>
     (\<exists>cs'. length (concat cs) < length (concat cs') \<and> writing M hid s out0 p pk cs' fs1 \<and> replies fs1 = replies fs)"
    using write_step [OF Suc.prems(1) pd assms] by blast
  have run: "serve_write (Suc n) host fs = serve_write n host fs1" using pd fs1(1) by simp
  from fs1(2) show ?case
  proof
    assume over: "write_over M hid s out0 p pk fs fs1"
    then have "serve_write n host fs1 = Some fs1" by (cases n) (simp_all add: write_over_def)
    then show ?thesis using run over by auto
  next
    assume "\<exists>cs'. length (concat cs) < length (concat cs') \<and> writing M hid s out0 p pk cs' fs1 \<and> replies fs1 = replies fs"
    then obtain cs' where cs': "length (concat cs) < length (concat cs')" "writing M hid s out0 p pk cs' fs1"
      "replies fs1 = replies fs" by blast
    moreover have "length (concat cs') \<le> unat (dp_Arg3 pk)" using cs'(2) by (simp add: writing_def)
    then have "unat (dp_Arg3 pk) - length (concat cs') < n" using cs'(1) Suc.prems(2) by linarith
    ultimately obtain fs' where "serve_write n host fs1 = Some fs'" "write_over M hid s out0 p pk fs1 fs'"
      using Suc.IH by blast
    then show ?thesis using run cs'(3) by (auto simp: write_over_def)
  qed
qed simp

lemma write_start:
  assumes "can_send fs" and "packets fs p = Some pk" and "pending fs = []"
    and "HANDLE_FROM_LOCK fs (dp_Arg1 pk) = Some key" and "handle_at fs key = Some h"
    and "allocs fs = a # as" and "a \<noteq> 0"
    and "unat (dp_Arg2 pk) + unat (dp_Arg3 pk) < 2 ^ 32" and "unat (dp_Arg3 pk) < 2 ^ 31"
  shows "\<exists>fs' cs. action_write host fs p = Some fs' \<and>
           writing (client_mem fs) (handle_id h) (seqno fs) (out_text fs) p pk cs fs' \<and> replies fs' = replies fs"
proof -
  let ?op = "\<lparr>request_seqno = seqno fs, input_packet = p, expected_answer_type = RL_MSG_WRITE_FILE_ANSWER,
              op_callback = complete_write_fn, destination = 0, w_source = 0, w_length = 0\<rparr>"
  let ?q = "fs\<lparr>allocs := as, seqno := seqno fs + 1, pending := [(a, ?op)]\<rparr>"
  have al: "alloc_pending fs p RL_MSG_WRITE_FILE_ANSWER complete_write_fn = (Some (a, ?op), ?q)"
    using assms(3,6,7) by (simp add: alloc_pending_def alloc_zeroed_def Let_def)
  have t: "peer.truncate ?q = peer.truncate fs" by simp
  have h: "HANDLE_FROM_LOCK ?q (dp_Arg1 pk) = Some key" "handle_at ?q key = Some h" "pending ?q = [(a, ?op)]"
    "packets ?q p = Some pk" "client_mem ?q = client_mem fs" "seqno ?q = seqno fs + of_nat (length ([] :: rl_uint8 list list)) + 1"
    using assms(2,4,5) by (simp_all add: HANDLE_FROM_LOCK_def handle_at_def split: handle_ptr.splits)
  let ?n = "unat (dp_Arg3 pk)" and ?b = "unat (dp_Arg2 pk)"
  have cs: "can_send ?q" "out_text ?q = out_text fs @ write_requests (handle_id h) (seqno fs) []"
    using can_send_trunc [OF t] trunc_ok(2) [OF t] assms(1) by simp_all
  have "\<exists>fs'. transmit_write_request host ?q h a (seqno fs) (dp_Arg2 pk) (signed_min (dp_Arg3 pk) 4096) = Some (0, fs') \<and>
           writing (client_mem fs) (handle_id h) (seqno fs) (out_text fs) p pk [mread (client_mem fs) ?b (min ?n 4096)] fs' \<and>
           replies fs' = replies fs"
    using write_piece [where cs = "[]" and s = "seqno fs" and p = p and pk = pk and host = host, OF h(3) _ _ _ h(4,1,2) cs(1) h(5,6) cs(2)]
      assms(8,9) by simp
  then show ?thesis using assms(2,4,5) al by (auto simp: action_write_def)
qed

section \<open>Transfers from the packet to its reply\<close>

text \<open>
  What the file server puts into the answer of a read, and the documented behaviour of \<^verbatim>\<open>pread\<close>
  on a file that does not change: it delivers at most the bytes wanted, from the offset on,
  and none only at the end.
\<close>

definition pread_data :: "'w posix \<Rightarrow> int \<Rightarrow> 'w \<Rightarrow> nat \<Rightarrow> rl_uint8 list" where
  "pread_data os fd w off = (case fst (os_pread os fd 4096 off w) of None \<Rightarrow> [] | Some bs \<Rightarrow> bs)"

definition posix_file :: "'w posix \<Rightarrow> int \<Rightarrow> 'w \<Rightarrow> rl_uint8 list \<Rightarrow> bool" where
  "posix_file os fd w F \<longleftrightarrow>
     (\<forall>off. \<exists>k \<le> 4096. fst (os_pread os fd 4096 off w) = Some (take k (drop off F)) \<and> (k = 0 \<longrightarrow> length F \<le> off))"

lemma posix_file_source:
  assumes "posix_file os fd w F"
  shows "file_source (pread_data os fd w) F"
proof
  fix off
  obtain k where k: "k \<le> 4096" "pread_data os fd w off = take k (drop off F)" "k = 0 \<longrightarrow> length F \<le> off"
    using assms unfolding posix_file_def pread_data_def by (metis option.simps(5))
  show "\<exists>k. pread_data os fd w off = take k (drop off F)" using k(2) by blast
  show "length (pread_data os fd w off) \<le> 4096" using k(1,2) by simp
  show "pread_data os fd w off = [] \<Longrightarrow> length F \<le> off" using k(2,3) by auto
qed

lemma example_file: "posix_file example_os 7 w (lit ''hello'')"
  unfolding posix_file_def example_os_def by (auto intro!: exI [of _ 4096])

interpretation hello: file_source "pread_data example_os 7 w" "lit ''hello''" for w
  by (rule posix_file_source [OF example_file])

text \<open>A file system with an open file and a packet for it, for the examples.\<close>

definition example_open :: "DosPacket \<Rightarrow> rl_amigafs" where
  "example_open pk =
     example_fs\<lparr>locks := [20 \<mapsto> \<lparr>fl_Key = Client_handle 24, fl_Access = SHARED_LOCK, fl_Task = 64, fl_Volume = 32\<rparr>],
                client_handles := [24 \<mapsto> new_handle RL_HANDLE_FILE 0 5 (lit ''f'')],
                packets := [8 \<mapsto> pk], allocs := [28], client_mem := (\<lambda>a. if a = 1000 then 7 else 0)\<rparr>"

lemma example_open_fields [simp]:
  "pending (example_open pk) = []" "packets (example_open pk) = [8 \<mapsto> pk]" "replies (example_open pk) = []"
  "HANDLE_FROM_LOCK (example_open pk) 20 = Some (Client_handle 24)" "allocs (example_open pk) = [28]"
  "handle_at (example_open pk) (Client_handle 24) = Some (new_handle RL_HANDLE_FILE 0 5 (lit ''f''))"
  "client_mem (example_open pk) = (\<lambda>a. if a = 1000 then 7 else 0)"
  by (simp_all add: example_open_def HANDLE_FROM_LOCK_def handle_at_def)

lemma example_open_ok: "can_send (example_open pk)" "transport_ok (example_open pk)"
proof -
  have t: "peer.truncate (example_open pk) = peer.truncate example_fs" by (simp add: example_open_def)
  show o: "transport_ok (example_open pk)" using trunc_ok(1) [OF t] example_fs_ok(1) by simp
  show "can_send (example_open pk)"
    using o by (simp add: can_send_def) (simp add: example_open_def example_fs_def example_peer_def peer.defs rl_amigafs.defs)
qed

text \<open>
  Claim C17: a read returns the file. When the controller answers every request of a read with
  what \<open>pread\<close> delivers for the file, then, however the read is spread over the read-ahead
  buffer of the handle and over answers, the read ends after at most one answer per byte, the
  bytes of the file from the handle's position on are in the program's buffer and nothing else
  of its memory has changed, the packet is replied to once, with the number of bytes, the
  position has moved by it, and the read-ahead buffer again holds a part of the file.
\<close>
theorem read_returns_file:
  assumes "posix_file os fd w F" and "transport_ok fs" and "packets fs p = Some pk" and "pending fs = []"
    and "HANDLE_FROM_LOCK fs (dp_Arg1 pk) = Some key" and "handle_at fs key = Some h" and "buffered F h"
    and "allocs fs = a # as" and "a \<noteq> 0"
    and "length F < 2 ^ 31" and "unat (offset_lo h) < 2 ^ 31" and "unat (dp_Arg2 pk) + unat (dp_Arg3 pk) < 2 ^ 32"
  defines "D \<equiv> take (unat (dp_Arg3 pk)) (drop (unat (offset_lo h)) F)"
  shows "\<exists>fs1 fs2. action_read host fs p = Some fs1 \<and>
           serve_read (unat (dp_Arg3 pk) + 1) host (pread_data os fd w) fs1 = Some fs2 \<and> pending fs2 = [] \<and>
           client_mem fs2 = mwrite (client_mem fs) (unat (dp_Arg2 pk)) D \<and>
           (\<exists>port pk'. replies fs2 = replies fs @ [(port, p, pk')] \<and> dp_Res1 pk' = of_nat (length D) \<and> dp_Res2 pk' = 0) \<and>
           (\<exists>key h'. HANDLE_FROM_LOCK fs2 (dp_Arg1 pk) = Some key \<and> handle_at fs2 key = Some h' \<and>
              offset_lo h' = of_nat (unat (offset_lo h) + length D) \<and> buffered F h')"
proof -
  let ?M = "client_mem fs" and ?off = "unat (offset_lo h)" and ?n = "unat (dp_Arg3 pk) + 1" and ?serve = "pread_data os fd w"
  obtain fs1 where fs1: "action_read host fs p = Some fs1"
    "read_over F ?M ?off p pk fs fs1 \<or> (\<exists>k. reading F ?M ?off p pk k fs1 \<and> replies fs1 = replies fs)"
    using read_start [OF assms(2-9)] by blast
  from fs1(2) obtain fs2 where fs2: "serve_read ?n host ?serve fs1 = Some fs2" "read_over F ?M ?off p pk fs fs2"
  proof (elim disjE exE conjE)
    assume over: "read_over F ?M ?off p pk fs fs1"
    then have "serve_read ?n host ?serve fs1 = Some fs1" by (simp add: read_over_def Let_def)
    then show thesis using over by (rule that)
  next
    fix k
    assume k: "reading F ?M ?off p pk k fs1" "replies fs1 = replies fs"
    have "unat (dp_Arg3 pk) - k < ?n" by simp
    then obtain fs2 where fs2: "serve_read ?n host ?serve fs1 = Some fs2" "read_over F ?M ?off p pk fs1 fs2"
      using file_source.read_rounds [OF posix_file_source [OF assms(1)] assms(10-12) k(1)] by blast
    then have "read_over F ?M ?off p pk fs fs2" using k(2) by (simp add: read_over_def Let_def)
    with fs2(1) show thesis by (rule that)
  qed
  then show ?thesis using fs1(1) unfolding read_over_def D_def Let_def by blast
qed

theorem read_returns_file_witness:
  "\<exists>fs1 fs2. action_read example_host (example_open ((example_packet ACTION_READ 20)\<lparr>dp_Arg3 := 4\<rparr>)) 8 = Some fs1 \<and>
     serve_read 5 example_host (pread_data example_os 7 ([], [])) fs1 = Some fs2 \<and>
     mread (client_mem fs2) 1000 4 = lit ''hell'' \<and> client_mem fs2 1004 = 0"
proof -
  let ?pk = "(example_packet ACTION_READ 20)\<lparr>dp_Arg3 := 4\<rparr>" and ?h = "new_handle RL_HANDLE_FILE 0 5 (lit ''f'')"
  have a: "dp_Arg1 ?pk = 20" "dp_Arg2 ?pk = 1000" "dp_Arg3 ?pk = 4" by (simp_all add: example_packet_def)
  have h: "offset_lo ?h = 0" "buffered (lit ''hello'') ?h" by (simp_all add: buffered_def new_handle_def)
  obtain fs1 fs2 where f: "action_read example_host (example_open ?pk) 8 = Some fs1"
    "serve_read 5 example_host (pread_data example_os 7 ([], [])) fs1 = Some fs2"
    "client_mem fs2 = mwrite (client_mem (example_open ?pk)) 1000 (take 4 (lit ''hello''))"
    using read_returns_file [OF example_file [of "([], [])"] example_open_ok(2) [of ?pk], of 8 ?pk "Client_handle 24" ?h 28 "[]" example_host]
      a h by auto
  moreover have "mread (client_mem fs2) 1000 4 = lit ''hell''" "client_mem fs2 1004 = 0"
    unfolding f(3) by (simp_all add: mread_def mwrite_def lit_def)
  ultimately show ?thesis by blast
qed

text \<open>
  Claim C18: a write sends everything. When there is memory and the controller acknowledges every
  request, the write ends after at most one answer per byte; what was sent are write requests
  for the handle, with consecutive sequence numbers and at most 4096 bytes each, whose data put
  together are the bytes of the program's buffer; the packet is replied to once, with the
  number of bytes, and the program's memory is unchanged.
\<close>
theorem write_sends_all:
  assumes "can_send fs" and "packets fs p = Some pk" and "pending fs = []"
    and "HANDLE_FROM_LOCK fs (dp_Arg1 pk) = Some key" and "handle_at fs key = Some h"
    and "allocs fs = a # as" and "a \<noteq> 0"
    and "unat (dp_Arg2 pk) + unat (dp_Arg3 pk) < 2 ^ 32" and "unat (dp_Arg3 pk) < 2 ^ 31"
  shows "\<exists>fs1 fs2 cs. action_write host fs p = Some fs1 \<and> serve_write (unat (dp_Arg3 pk) + 1) host fs1 = Some fs2 \<and>
           pending fs2 = [] \<and> client_mem fs2 = client_mem fs \<and>
           (\<exists>port pk'. replies fs2 = replies fs @ [(port, p, pk')] \<and> dp_Res1 pk' = dp_Arg3 pk \<and> dp_Res2 pk' = 0) \<and>
           concat cs = mread (client_mem fs) (unat (dp_Arg2 pk)) (unat (dp_Arg3 pk)) \<and> list_all (\<lambda>c. length c \<le> 4096) cs \<and>
           out_text fs2 = out_text fs @ write_requests (handle_id h) (seqno fs) cs"
proof -
  obtain fs1 cs where fs1: "action_write host fs p = Some fs1" "replies fs1 = replies fs"
    "writing (client_mem fs) (handle_id h) (seqno fs) (out_text fs) p pk cs fs1"
    using write_start [OF assms] by blast
  have "unat (dp_Arg3 pk) - length (concat cs) < unat (dp_Arg3 pk) + 1" by simp
  then obtain fs2 where "serve_write (unat (dp_Arg3 pk) + 1) host fs1 = Some fs2"
    "write_over (client_mem fs) (handle_id h) (seqno fs) (out_text fs) p pk fs1 fs2"
    using write_rounds [OF assms(8,9) fs1(3)] by blast
  then show ?thesis using fs1(1,2) unfolding write_over_def by metis
qed

theorem write_sends_all_witness:
  "\<exists>fs1 fs2 cs. action_write example_host (example_open ((example_packet ACTION_WRITE 20)\<lparr>dp_Arg3 := 2\<rparr>)) 8 = Some fs1 \<and>
     serve_write 3 example_host fs1 = Some fs2 \<and> concat cs = [7, 0] \<and> out_text fs2 = out_text (example_open
       ((example_packet ACTION_WRITE 20)\<lparr>dp_Arg3 := 2\<rparr>)) @ write_requests 0 (seqno (example_open ((example_packet ACTION_WRITE 20)\<lparr>dp_Arg3 := 2\<rparr>))) cs"
proof -
  let ?pk = "(example_packet ACTION_WRITE 20)\<lparr>dp_Arg3 := 2\<rparr>" and ?h = "new_handle RL_HANDLE_FILE 0 5 (lit ''f'')"
  have a: "dp_Arg1 ?pk = 20" "dp_Arg2 ?pk = 1000" "dp_Arg3 ?pk = 2" by (simp_all add: example_packet_def)
  have m: "mread (client_mem (example_open ?pk)) 1000 2 = [7, 0]" by (simp add: mread_def)
  show ?thesis
    using write_sends_all [OF example_open_ok(1) [of ?pk], of 8 ?pk "Client_handle 24" ?h 28 "[]" example_host] a m
    by (auto simp: new_handle_def)
qed

lemma seek_word:
  fixes b s a :: rl_uint32
  assumes "uint b < 2 ^ 31" and "uint s < 2 ^ 31"
  shows "uint (if b + a > s then s else b + a) =
           (if 0 \<le> uint b + sint a \<and> uint b + sint a \<le> uint s then uint b + sint a else uint s)"
proof -
  have a: "- 2147483648 \<le> sint a" "sint a < 2147483648" using sint_ge [of a] sint_lt [of a] by simp_all
  have s: "uint s < 2147483648" using assms(2) by simp
  have "b + a = word_of_int (uint b + sint a)" by simp
  then have u: "uint (b + a) = (uint b + sint a) mod 2 ^ 32" by (simp only: uint_word_of_int) simp
  have b: "0 \<le> uint b" "0 \<le> uint s" by simp_all
  show ?thesis
  proof (cases "0 \<le> uint b + sint a")
    case True
    then have "uint (b + a) = uint b + sint a" using u a assms(1) by (simp add: mod_pos_pos_trivial)
    then show ?thesis using True by (simp add: word_less_def)
  next
    case False
    have "0 \<le> uint b + sint a + 4294967296" using a(1) b(1) by linarith
    with False have "(uint b + sint a) mod 2 ^ 32 = uint b + sint a + 2 ^ 32"
      by (subst mod_add_self2 [symmetric], subst mod_pos_pos_trivial) simp_all
    moreover have "uint s < uint b + sint a + 4294967296" using a(1) b(1) s by linarith
    ultimately show ?thesis using False u by (simp add: word_less_def)
  qed
qed

text \<open>
  Claim C30: a seek never leaves the file. With a valid lock, \<open>action_seek\<close> replies the old
  position, once, and leaves the handle at a position of at most the size. A target position
  inside the file is reached exactly; every other one, also one in front of the start, which
  wraps around to a large number, ends at the size.
\<close>
theorem seek_stays_inside:
  assumes "packets fs p = Some pk" and "HANDLE_FROM_LOCK fs (dp_Arg1 pk) = Some key" and "handle_at fs key = Some h"
    and "offset_lo h \<le> size_lo h" and "size_lo h < 2 ^ 31"
  defines "base \<equiv> (if dp_Arg3 pk = OFFSET_BEGINNING then 0 else if dp_Arg3 pk = OFFSET_END then uint (size_lo h) else uint (offset_lo h))"
  defines "target \<equiv> (if dp_Arg3 pk \<in> {OFFSET_BEGINNING, OFFSET_CURRENT, OFFSET_END} then base + sint (dp_Arg2 pk) else base)"
  shows "\<exists>fs' port pk' h'. action_seek host fs p = Some fs' \<and> replies fs' = replies fs @ [(port, p, pk')] \<and>
           dp_Res1 pk' = offset_lo h \<and> packets fs' = (packets fs)(p := None) \<and> handle_at fs' key = Some h' \<and>
           uint (offset_lo h') = (if 0 \<le> target \<and> target \<le> uint (size_lo h) then target else uint (size_lo h))"
proof -
  let ?h = "h\<lparr>offset_lo := seek_position h (dp_Arg2 pk) (dp_Arg3 pk)\<rparr>"
  let ?q = "update_handle fs key (\<lambda>h. h\<lparr>offset_lo := seek_position h (dp_Arg2 pk) (dp_Arg3 pk)\<rparr>)"
  have q: "packets ?q = packets fs" "replies ?q = replies fs" "handle_at ?q key = Some ?h"
    using assms(3) by (auto simp: update_handle_def handle_at_def split: handle_ptr.splits)
  have r: "reply ?q p (offset_lo h) 0 = Some (?q\<lparr>packets := (packets fs)(p := None), replies := replies fs @
      [(dp_Port pk, p, pk\<lparr>dp_Res1 := offset_lo h, dp_Res2 := 0, dp_Port := device_port ?q\<rparr>)]\<rparr>)" (is "_ = Some ?fs'")
    using reply_eq [of ?q p pk "offset_lo h" 0] q(1,2) assms(1) by simp
  have "uint (offset_lo h) \<le> uint (size_lo h)" "uint (size_lo h) < 2 ^ 31"
    using assms(4,5) by (simp_all add: word_le_def word_less_def)
  then have b: "uint (size_lo h) < 2 ^ 31" "uint (offset_lo h) < 2 ^ 31" "uint (0 :: rl_uint32) < 2 ^ 31"
    "uint (offset_lo h) \<le> uint (size_lo h)" by simp_all
  have "uint (seek_position h (dp_Arg2 pk) (dp_Arg3 pk)) =
      (if 0 \<le> target \<and> target \<le> uint (size_lo h) then target else uint (size_lo h))"
    unfolding seek_position_def target_def base_def Let_def
    using seek_word [OF b(1,1), of "dp_Arg2 pk"] seek_word [OF b(2,1), of "dp_Arg2 pk"] seek_word [OF b(3,1), of "dp_Arg2 pk"] b(4) assms(4)
    by (auto simp: OFFSET_BEGINNING_def OFFSET_CURRENT_def OFFSET_END_def)
  moreover have "handle_at ?fs' key = Some ?h" using q(3) by simp
  moreover have "action_seek host fs p = Some ?fs'" using r assms(1-3) by (simp add: action_seek_def Let_def)
  ultimately show ?thesis by (intro exI [of _ ?fs'] exI [of _ ?h]) auto
qed

theorem seek_stays_inside_witness:
  "\<exists>fs' h'. action_seek example_host (example_open ((example_packet ACTION_SEEK 20)\<lparr>dp_Arg2 := - 3, dp_Arg3 := OFFSET_CURRENT\<rparr>)) 8 = Some fs' \<and>
     handle_at fs' (Client_handle 24) = Some h' \<and> uint (offset_lo h') = 5"
proof -
  let ?pk = "(example_packet ACTION_SEEK 20)\<lparr>dp_Arg2 := - 3, dp_Arg3 := OFFSET_CURRENT\<rparr>"
  let ?h = "new_handle RL_HANDLE_FILE 0 5 (lit ''f'')"
  show ?thesis
    using seek_stays_inside [of "example_open ?pk" 8 ?pk "Client_handle 24" ?h example_host]
    by (auto simp: example_packet_def new_handle_def OFFSET_BEGINNING_def OFFSET_CURRENT_def OFFSET_END_def)
qed

end
