(* ===== verification/Rl_File_Server_Win.thy ===== *)
theory Rl_File_Server_Win
  imports Rl_Streams
begin

unbundle bit_operations_syntax

text \<open>
  The Windows branches of the file server (\<^verbatim>\<open>src/src/file_server.c\<close>). The record \<open>controller\<close> is
  shared with the POSIX branches: \<open>fh_handle\<close> is the value of the pointer \<^verbatim>\<open>handle\<close>, with 0 for \<^verbatim>\<open>NULL\<close>
  and -1 for \<^verbatim>\<open>INVALID_HANDLE_VALUE\<close>, and \<open>dir_handle\<close> is \<^verbatim>\<open>find_handle\<close>, with \<open>None\<close> for \<^verbatim>\<open>NULL\<close>. The
  calls of the operating system are the fields of a record \<open>win32\<close>; what is assumed of them
  is \<open>win_ok\<close>. \<open>win_answer\<close> is the reference: the answer that a request shall get.
\<close>

section \<open>The operating system\<close>

datatype win_error = ERROR_ACCESS_DENIED | Other_win_error

record find_data =
  find_is_dir :: bool
  cFileName :: cstring
  nFileSizeLow :: rl_uint32

text \<open>
  \<open>GetFileAttributes\<close> says whether the path is a directory; \<open>CreateFileA\<close> gets whether it shall
  read, write and always create, and returns -1 when it fails; \<open>SetFilePointerEx\<close> gets a signed
  position.
\<close>

record 'w win32 =
  GetFileAttributes :: "cstring \<Rightarrow> 'w \<Rightarrow> bool option \<times> 'w"
  CreateFileA :: "cstring \<Rightarrow> bool \<times> bool \<times> bool \<Rightarrow> 'w \<Rightarrow> int \<times> 'w"
  GetLastError :: "'w \<Rightarrow> win_error"
  GetFileSize :: "int \<Rightarrow> 'w \<Rightarrow> rl_uint32 \<times> 'w"
  CloseHandle :: "int \<Rightarrow> 'w \<Rightarrow> 'w"
  SetFilePointerEx :: "int \<Rightarrow> int \<Rightarrow> 'w \<Rightarrow> bool \<times> 'w"
  ReadFile :: "int \<Rightarrow> nat \<Rightarrow> 'w \<Rightarrow> rl_uint8 list option \<times> 'w"
  FindFirstFile :: "cstring \<Rightarrow> 'w \<Rightarrow> (nat \<times> find_data) option \<times> 'w"
  FindNextFile :: "nat \<Rightarrow> 'w \<Rightarrow> find_data option \<times> 'w"
  FindClose :: "nat \<Rightarrow> 'w \<Rightarrow> 'w"
  fwrite_stdout :: "rl_uint8 list \<Rightarrow> 'w \<Rightarrow> 'w"

section \<open>Paths\<close>

text \<open>
  The characters of a string in memory: its bytes, the terminator, and then whatever follows it,
  which \<open>beyond\<close> gives. \<open>backslash_path\<close> is the array of 127 characters that the loop fills.
\<close>

definition c_char :: "(nat \<Rightarrow> rl_uint8) \<Rightarrow> cstring \<Rightarrow> nat \<Rightarrow> rl_uint8" where
  "c_char beyond input i = (if i < length input then input ! i else if i = length input then 0 else beyond i)"

definition slash_to_backslash :: "rl_uint8 \<Rightarrow> rl_uint8" where
  "slash_to_backslash ch = (if ch = 47 then 92 else ch)"

definition backslash_path :: "(nat \<Rightarrow> rl_uint8) \<Rightarrow> cstring \<Rightarrow> rl_uint8 list" where
  "backslash_path beyond input = map (\<lambda>i. slash_to_backslash (c_char beyond input i)) [0..<127] @ [0]"

text \<open>The text as \<^verbatim>\<open>%s\<close> reads it. The formatter is the one of a 64-bit host.\<close>

definition win_fix_path :: "(nat \<Rightarrow> rl_uint8) \<Rightarrow> nat \<Rightarrow> cstring \<Rightarrow> cstring \<Rightarrow> cstring option" where
  "win_fix_path beyond dest_size input root_path =
     formatted Posix dest_size (lit ''%s'' @ 92 # lit ''%s'')
       [AStr root_path, AStr (takeWhile (\<lambda>c. c \<noteq> 0) (backslash_path beyond input))]"

section \<open>Opening and closing\<close>

fun translate_win_error :: "win_error \<Rightarrow> rl_proto_neterror" where
  "translate_win_error ERROR_ACCESS_DENIED = RL_NETERR_ACCESS_DENIED"
| "translate_win_error Other_win_error = RL_NETERR_IO_ERROR"

definition win_open_node ::
  "'w win32 \<Rightarrow> 'w controller \<Rightarrow> nat \<Rightarrow> cstring \<Rightarrow> rl_uint32 \<Rightarrow> (rl_proto_neterror + unit) \<times> 'w controller" where
  "win_open_node win self slot path mode =
     (let s = Slot slot;
          (attributes, self) =
            (if mode AND RL_OPENFLAG_WRITE = 0
             then (case GetFileAttributes win path (world self) of (a, w) \<Rightarrow> (a, self\<lparr>world := w\<rparr>))
             else (Some False, self))
      in (case attributes of
            None \<Rightarrow> (Inl RL_NETERR_NOT_FOUND, set_handle self s (\<lambda>h. h\<lparr>fh_handle := 0\<rparr>))
          | Some True \<Rightarrow>
              (Inr (), set_handle self s
                 (\<lambda>h. h\<lparr>fh_type := RL_NODE_TYPE_DIRECTORY, fh_handle := - 1, dir_handle := None, fh_size := 0\<rparr>))
          | Some False \<Rightarrow>
              let (fd, w) = CreateFileA win path
                    (mode AND RL_OPENFLAG_READ \<noteq> 0, mode AND RL_OPENFLAG_WRITE \<noteq> 0, mode AND RL_OPENFLAG_CREATE \<noteq> 0)
                    (world self);
                  self = set_handle (self\<lparr>world := w\<rparr>) s
                    (\<lambda>h. h\<lparr>fh_type := RL_NODE_TYPE_FILE, fh_handle := fd, dir_handle := None\<rparr>)
              in if fd = - 1
                 then (Inl (translate_win_error (GetLastError win w)), set_handle self s (\<lambda>h. h\<lparr>fh_handle := 0\<rparr>))
                 else
                   (case GetFileSize win fd w of
                      (sz, w) \<Rightarrow> (Inr (), set_handle (self\<lparr>world := w\<rparr>) s (\<lambda>h. h\<lparr>fh_size := sz\<rparr>)))))"

definition win_make_handle ::
  "(nat \<Rightarrow> rl_uint8) \<Rightarrow> 'w win32 \<Rightarrow> 'w controller \<Rightarrow> cstring \<Rightarrow> rl_uint32 \<Rightarrow>
     ((rl_proto_neterror + handle_ref) \<times> 'w controller) option" where
  "win_make_handle beyond win self path mode = do {
     npath \<leftarrow> win_fix_path beyond 260 path (native_path (root_handle self));
     (case find_slot (handles self) 0 of
        None \<Rightarrow> Some (Inl RL_NETERR_TOO_MANY_FILES_OPEN, self)
      | Some slot \<Rightarrow>
          (case win_open_node win self slot npath mode of
             (Inl error, self) \<Rightarrow> Some (Inl error, self)
           | (Inr _, self) \<Rightarrow> do {
               stored \<leftarrow> copied 260 npath;
               Some (Inr (Slot slot), set_handle self (Slot slot) (\<lambda>h. h\<lparr>native_path := stored\<rparr>))
             }))
   }"

definition win_open_handle_request ::
  "host \<Rightarrow> (nat \<Rightarrow> rl_uint8) \<Rightarrow> 'w win32 \<Rightarrow> 'w controller \<Rightarrow> rl_msg \<Rightarrow> cstring \<Rightarrow> rl_uint32 \<Rightarrow>
     (int \<times> 'w controller) option" where
  "win_open_handle_request host beyond win peer msg path mode = do {
     (handle, peer) \<leftarrow> win_make_handle beyond win peer path mode;
     (case handle of
        Inl error \<Rightarrow> reply_with_error host peer msg (neterror_code error)
      | Inr h \<Rightarrow>
          peer_transmit_message host peer
            ((RL_MSG_INIT (Open_handle_answer (get_filehandle_index h) (fh_size (the_handle peer h))
                             (fh_type (the_handle peer h))))\<lparr>hdr_seq := hdr_seq msg\<rparr>))
   }"

definition win_close_handle_request ::
  "host \<Rightarrow> 'w win32 \<Rightarrow> 'w controller \<Rightarrow> rl_msg \<Rightarrow> rl_uint32 \<Rightarrow> (int \<times> 'w controller) option" where
  "win_close_handle_request host win peer msg file =
     (if file = RL_FILEHANDLE_VIRTUAL_INPUT \<or> file = RL_FILEHANDLE_VIRTUAL_OUTPUT
      then Some (0, peer)
      else
        (case get_handle_from_id file of
           None \<Rightarrow> reply_with_error host peer msg (neterror_code RL_NETERR_INVALID_VALUE)
         | Some h \<Rightarrow>
             let peer = (if fh_handle (the_handle peer h) \<noteq> - 1
                         then peer\<lparr>world := CloseHandle win (fh_handle (the_handle peer h)) (world peer)\<rparr>
                         else peer)
             in Some (0, set_handle peer h (\<lambda>f. f\<lparr>fh_handle := 0\<rparr>))))"

section \<open>Directories\<close>

definition MAX_PATH :: nat where "MAX_PATH = 260"

text \<open>
  The loop over the entries: the first round after a reset opens the directory anew, the others
  ask for the next entry; an entry whose name starts with a dot is passed over. The result is
  an error, the end of the directory or an entry.
\<close>

partial_function (option) find_entry ::
  "'w win32 \<Rightarrow> 'w controller \<Rightarrow> handle_ref \<Rightarrow> bool \<Rightarrow> ((rl_proto_neterror + find_data option) \<times> 'w controller) option" where
  "find_entry win peer h reset =
     (if reset
      then
        let peer = (case dir_handle (the_handle peer h) of
                      Some d \<Rightarrow> set_handle (peer\<lparr>world := FindClose win d (world peer)\<rparr>) h (\<lambda>f. f\<lparr>dir_handle := None\<rparr>)
                    | None \<Rightarrow> peer)
        in Option.bind (formatted Posix MAX_PATH (lit ''%s'' @ 92 # lit ''*'') [AStr (native_path (the_handle peer h))])
             (\<lambda>search_path.
                case FindFirstFile win search_path (world peer) of
                  (None, w) \<Rightarrow> Some (Inl RL_NETERR_IO_ERROR, set_handle (peer\<lparr>world := w\<rparr>) h (\<lambda>f. f\<lparr>dir_handle := None\<rparr>))
                | (Some (d, entry), w) \<Rightarrow>
                    let peer = set_handle (peer\<lparr>world := w\<rparr>) h (\<lambda>f. f\<lparr>dir_handle := Some d\<rparr>)
                    in if c_char (\<lambda>_. 0) (cFileName entry) 0 = 46 then find_entry win peer h False
                       else Some (Inr (Some entry), peer))
      else
        (case dir_handle (the_handle peer h) of
           None \<Rightarrow> Some (Inl RL_NETERR_INVALID_VALUE, peer)
         | Some d \<Rightarrow>
             (case FindNextFile win d (world peer) of
                (None, w) \<Rightarrow> Some (Inr None, peer\<lparr>world := w\<rparr>)
              | (Some entry, w) \<Rightarrow>
                  if c_char (\<lambda>_. 0) (cFileName entry) 0 = 46 then find_entry win (peer\<lparr>world := w\<rparr>) h False
                  else Some (Inr (Some entry), peer\<lparr>world := w\<rparr>))))"

definition win_find_next_file_request ::
  "host \<Rightarrow> 'w win32 \<Rightarrow> 'w controller \<Rightarrow> rl_msg \<Rightarrow> rl_uint32 \<Rightarrow> rl_uint8 \<Rightarrow> (int \<times> 'w controller) option" where
  "win_find_next_file_request host win peer msg file reset =
     (case get_handle_from_id file of
        None \<Rightarrow> reply_with_error host peer msg (neterror_code RL_NETERR_INVALID_VALUE)
      | Some h \<Rightarrow>
          if fh_type (the_handle peer h) \<noteq> RL_NODE_TYPE_DIRECTORY
          then reply_with_error host peer msg (neterror_code RL_NETERR_NOT_A_DIRECTORY)
          else do {
            (found, peer) \<leftarrow> find_entry win peer h (reset \<noteq> 0);
            (case found of
               Inl error \<Rightarrow> reply_with_error host peer msg (neterror_code error)
             | Inr None \<Rightarrow>
                 peer_transmit_message host peer
                   ((RL_MSG_INIT (Find_next_file_answer 1 RL_NODE_TYPE_DIRECTORY [] 0))\<lparr>hdr_seq := hdr_seq msg\<rparr>)
             | Inr (Some entry) \<Rightarrow>
                 peer_transmit_message host peer
                   ((RL_MSG_INIT (Find_next_file_answer 0
                       (if find_is_dir entry then RL_NODE_TYPE_DIRECTORY else RL_NODE_TYPE_FILE)
                       (cFileName entry) (nFileSizeLow entry)))\<lparr>hdr_seq := hdr_seq msg\<rparr>))
          })"

section \<open>Reading and writing\<close>

text \<open>The two halves of a \<^verbatim>\<open>LARGE_INTEGER\<close>.\<close>

definition large_integer :: "rl_uint32 \<Rightarrow> rl_uint32 \<Rightarrow> int" where
  "large_integer hi lo = sint hi * 2 ^ 32 + uint lo"

definition win_read_file_request ::
  "host \<Rightarrow> 'w win32 \<Rightarrow> 'w controller \<Rightarrow> rl_msg \<Rightarrow> rl_uint32 \<Rightarrow> rl_uint32 \<Rightarrow> rl_uint32 \<Rightarrow> rl_uint32 \<Rightarrow>
     (int \<times> 'w controller) option" where
  "win_read_file_request host win peer msg file hi lo n =
     (case get_handle_from_id file of
        None \<Rightarrow> reply_with_error host peer msg (neterror_code RL_NETERR_INVALID_VALUE)
      | Some h \<Rightarrow>
          if fh_handle (the_handle peer h) = - 1
          then reply_with_error host peer msg (neterror_code RL_NETERR_NOT_A_FILE)
          else
            let fd = fh_handle (the_handle peer h);
                (positioned, w) =
                  (if h \<noteq> Vinput_handle then SetFilePointerEx win fd (large_integer hi lo) (world peer)
                   else (True, world peer));
                peer = peer\<lparr>world := w\<rparr>
            in if \<not> positioned then reply_with_error host peer msg (neterror_code RL_NETERR_IO_ERROR)
               else
                 (case ReadFile win fd (min 4096 (unat n)) w of
                    (None, w) \<Rightarrow> reply_with_error host (peer\<lparr>world := w\<rparr>) msg (neterror_code RL_NETERR_IO_ERROR)
                  | (Some bytes, w) \<Rightarrow> do {
                      (_, peer) \<leftarrow> peer_transmit_message host (peer\<lparr>world := w\<rparr>)
                                     ((RL_MSG_INIT (Read_file_answer bytes))\<lparr>hdr_seq := hdr_seq msg\<rparr>);
                      Some (0, peer)
                    }))"

definition win_write_file_request ::
  "host \<Rightarrow> 'w win32 \<Rightarrow> bool \<Rightarrow> 'w controller \<Rightarrow> rl_msg \<Rightarrow> rl_uint32 \<Rightarrow> rl_uint8 list \<Rightarrow>
     (int \<times> 'w controller) option" where
  "win_write_file_request host win debug peer msg file data =
     (let handle = get_handle_from_id file
      in if debug \<and> handle = None then None
         else do {
           let peer = (if handle = Some Voutput_handle
                       then peer\<lparr>world := fwrite_stdout win data (world peer)\<rparr> else peer);
           (_, peer) \<leftarrow> peer_transmit_message host peer ((RL_MSG_INIT Write_file_answer)\<lparr>hdr_seq := hdr_seq msg\<rparr>);
           Some (0, peer)
         })"

definition win_file_serve ::
  "host \<Rightarrow> (nat \<Rightarrow> rl_uint8) \<Rightarrow> 'w win32 \<Rightarrow> bool \<Rightarrow> 'w controller \<Rightarrow> rl_msg \<Rightarrow> (int \<times> 'w controller) option" where
  "win_file_serve host beyond win debug peer msg = do {
     (_, peer) \<leftarrow>
       (case body msg of
          Read_file_request h hi lo n \<Rightarrow> win_read_file_request host win peer msg h hi lo n
        | Write_file_request h d \<Rightarrow> win_write_file_request host win debug peer msg h d
        | Open_handle_request p m \<Rightarrow> win_open_handle_request host beyond win peer msg p m
        | Close_handle_request h \<Rightarrow> win_close_handle_request host win peer msg h
        | Find_next_file_request h r \<Rightarrow> win_find_next_file_request host win peer msg h r
        | _ \<Rightarrow>
            peer_transmit_message host peer
              ((RL_MSG_INIT (Error_answer (neterror_code RL_NETERR_BAD_REQUEST)))\<lparr>hdr_seq := hdr_seq msg\<rparr>));
     Some (0, peer)
   }"

section \<open>What the handlers rely on\<close>

text \<open>
  \<^verbatim>\<open>ReadFile\<close> does not return more than it was asked for, names are strings of at most 255 bytes,
  and a directory has an end.
\<close>

definition win_ok :: "'w win32 \<Rightarrow> bool" where
  "win_ok win \<longleftrightarrow>
     (\<forall>fd n w. case fst (ReadFile win fd n w) of None \<Rightarrow> True | Some bs \<Rightarrow> length bs \<le> n) \<and>
     (\<forall>path w. case fst (FindFirstFile win path w) of None \<Rightarrow> True | Some (d, e) \<Rightarrow> valid_string (cFileName e)) \<and>
     (\<forall>d w. case fst (FindNextFile win d w) of None \<Rightarrow> True | Some e \<Rightarrow> valid_string (cFileName e)) \<and>
     (\<exists>rank :: nat \<Rightarrow> 'w \<Rightarrow> nat. \<forall>d w. case FindNextFile win d w of (None, _) \<Rightarrow> True | (Some _, w') \<Rightarrow> rank d w' < rank d w)"

lemma win_ok_read: "win_ok win \<Longrightarrow> ReadFile win fd n w = (Some bs, w') \<Longrightarrow> length bs \<le> n"
  unfolding win_ok_def by (metis fst_conv option.simps(5))

lemma win_ok_first: "win_ok win \<Longrightarrow> FindFirstFile win path w = (Some (d, e), w') \<Longrightarrow> valid_string (cFileName e)"
  unfolding win_ok_def by (metis (no_types, lifting) fst_conv option.simps(5) split_conv)

lemma win_ok_next: "win_ok win \<Longrightarrow> FindNextFile win d w = (Some e, w') \<Longrightarrow> valid_string (cFileName e)"
  unfolding win_ok_def by (metis (no_types, lifting) fst_conv option.simps(5))

section \<open>Paths\<close>

lemma backslash_text:
  assumes "nul_free input"
  shows "takeWhile (\<lambda>c. c \<noteq> 0) (backslash_path beyond input) = take 127 (map slash_to_backslash input)"
proof (cases "127 \<le> length input")
  case True
  then have "map (\<lambda>i. slash_to_backslash (c_char beyond input i)) [0..<127] = take 127 (map slash_to_backslash input)"
    by (intro nth_equalityI) (simp_all add: c_char_def)
  moreover have "list_all (\<lambda>c. c \<noteq> 0) (take 127 (map slash_to_backslash input))"
    using assms by (auto simp: nul_free_iff list_all_iff slash_to_backslash_def dest!: in_set_takeD)
  ultimately show ?thesis
    unfolding backslash_path_def by (simp add: takeWhile_append2 list_all_iff)
next
  case False
  define n where "n = length input"
  have n: "n < 127" using False by (simp add: n_def)
  then have "[0..<127] = [0..<n] @ n # [Suc n..<127]" using upt_add_eq_append [of 0 n "127 - n"] by (simp add: upt_conv_Cons [of n])
  moreover have "map (\<lambda>i. slash_to_backslash (c_char beyond input i)) [0..<n] = map slash_to_backslash input"
    by (intro nth_equalityI) (simp_all add: c_char_def n_def)
  moreover have "slash_to_backslash (c_char beyond input n) = 0" by (simp add: c_char_def n_def slash_to_backslash_def)
  moreover have "nul_free (map slash_to_backslash input)"
    using assms by (auto simp: nul_free_iff slash_to_backslash_def)
  ultimately show ?thesis
    unfolding backslash_path_def using n by (simp add: takeWhile_nul_free_append n_def [symmetric])
qed

lemma win_format_pair:
  "format_text Posix (lit ''%s'' @ 92 # lit ''%s'') [AStr root, AStr input] = Some (root @ 92 # input)"
  if "length root < 2 ^ 31" "length input < 2 ^ 31"
proof -
  have "format_text Posix ([92] @ lit ''%s'') [AStr input] = Some (92 # input)"
    using format_text_s [of "[92]" input Posix "[]" "[]"] that(2) format_text_literal [of "[]" Posix "[]"]
    by (simp add: is_percent_def)
  then show ?thesis using format_text_s [of "[]" root Posix "92 # lit ''%s''" "[AStr input]"] that(1) by simp
qed

lemma win_fix_path_text:
  assumes "nul_free input" and "length root < 2 ^ 31" and "0 < n"
  shows "win_fix_path beyond n input root = Some (take (n - 1) (root @ 92 # take 127 (map slash_to_backslash input)))"
proof -
  have "length (take 127 (map slash_to_backslash input)) < 2 ^ 31" by simp
  from formatted_eq [OF assms(3) win_format_pair [OF assms(2) this]] backslash_text [OF assms(1), of beyond]
  show ?thesis by (simp add: win_fix_path_def)
qed

text \<open>What the loop reads behind the end of the path has no influence.\<close>

lemma win_beyond_ignored:
  assumes "nul_free path"
  shows "win_make_handle beyond win p path mode = win_make_handle beyond' win p path mode"
  using backslash_text [OF assms, of beyond] backslash_text [OF assms, of beyond'] by (simp add: win_make_handle_def win_fix_path_def)

lemma win_fix_path_some: "0 < n \<Longrightarrow> \<exists>s. win_fix_path beyond n input root = Some s"
proof -
  assume n: "0 < n"
  let ?p = "takeWhile (\<lambda>c. c \<noteq> 0) (backslash_path beyond input)"
  have "\<exists>out. format_text Posix ([] :: cstring) [] = Some out"
    using format_text_literal [of "[]" Posix "[]"] by simp
  from format_s_some [OF this, of "[92]" ?p]
  have "\<exists>out. format_text Posix (92 # lit ''%s'') [AStr ?p] = Some out" by (simp add: is_percent_def)
  from format_s_some [OF this, of "[]" root]
  have "\<exists>out. format_text Posix (lit ''%s'' @ 92 # lit ''%s'') [AStr root, AStr ?p] = Some out" by simp
  then show ?thesis using formatted_eq [OF n] unfolding win_fix_path_def by blast
qed

lemma search_path_some: "\<exists>s. formatted Posix MAX_PATH (lit ''%s'' @ 92 # lit ''*'') [AStr path] = Some s"
proof -
  have "\<exists>out. format_text Posix (92 # lit ''*'') [] = Some out"
    using format_text_literal [of "92 # lit ''*''" Posix "[]"] by (simp add: is_percent_def)
  from format_s_some [OF this, of "[]" path]
  have "\<exists>out. format_text Posix (lit ''%s'' @ 92 # lit ''*'') [AStr path] = Some out" by simp
  then show ?thesis using formatted_eq [of MAX_PATH] by (force simp: MAX_PATH_def)
qed

section \<open>The handlers keep the peer\<close>

lemma win_open_node_same: "same_peer p (snd (win_open_node win p slot path mode))"
proof -
  let ?E = "if mode AND RL_OPENFLAG_WRITE = 0
             then (case GetFileAttributes win path (world p) of (a, w) \<Rightarrow> (a, p\<lparr>world := w\<rparr>)) else (Some False, p)"
  have "same_peer p (snd ?E)" by (auto split: prod.splits)
  moreover obtain a q where E: "?E = (a, q)" by (rule prod.exhaust)
  ultimately have q: "same_peer p q" by simp
  show ?thesis
    unfolding win_open_node_def E
    using q by (auto simp: Let_def split: prod.splits option.splits bool.splits simp del: set_handle.simps)
qed

lemma win_make_handle_same: "\<exists>r q. win_make_handle beyond win p path mode = Some (r, q) \<and> same_peer p q"
proof -
  obtain np where np: "win_fix_path beyond 260 path (native_path (root_handle p)) = Some np"
    using win_fix_path_some [of 260 beyond path] by auto
  obtain st where st: "copied 260 np = Some st" using copied_some [of 260] by auto
  show ?thesis
  proof (cases "find_slot (handles p) 0")
    case None
    then show ?thesis using np by (simp add: win_make_handle_def)
  next
    case (Some slot)
    obtain r q where o: "win_open_node win p slot np mode = (r, q)" by (cases "win_open_node win p slot np mode")
    then show ?thesis
      using np st Some win_open_node_same [of p win slot np mode]
      by (cases r) (simp_all add: win_make_handle_def del: set_handle.simps)
  qed
qed

text \<open>The loop over the directory ends, with a proper name if it finds an entry.\<close>

definition found_ok :: "'w controller \<Rightarrow> ((rl_proto_neterror + find_data option) \<times> 'w controller) option \<Rightarrow> bool" where
  "found_ok p r \<longleftrightarrow> (\<exists>f q. r = Some (f, q) \<and> same_peer p q \<and> (\<forall>e. f = Inr (Some e) \<longrightarrow> valid_string (cFileName e)))"

lemma same_peer_trans: "same_peer p q \<Longrightarrow> same_peer q r \<Longrightarrow> same_peer p r"
  unfolding same_peer_def using same_launch_trans by metis

lemma found_ok_mono: "found_ok q r \<Longrightarrow> same_peer p q \<Longrightarrow> found_ok p r"
  unfolding found_ok_def using same_peer_trans by blast

lemma the_handle_world [simp]: "the_handle (p\<lparr>world := w\<rparr>) h = the_handle p h"
  by (cases h) simp_all

lemma find_rest_ok:
  assumes "win_ok win"
  shows "found_ok p (find_entry win p h False)"
proof -
  obtain rank :: "nat \<Rightarrow> 'a \<Rightarrow> nat" where
    rank: "\<And>d w e w'. FindNextFile win d w = (Some e, w') \<Longrightarrow> rank d w' < rank d w"
    using assms unfolding win_ok_def by (metis (no_types, lifting) option.simps(5) split_conv)
  have "dir_handle (the_handle p h) = Some d \<Longrightarrow> found_ok p (find_entry win p h False)" for d
  proof (induction "rank d (world p)" arbitrary: p rule: less_induct)
    case less
    obtain f w where f: "FindNextFile win d (world p) = (f, w)" by (cases "FindNextFile win d (world p)")
    show ?case
    proof (cases f)
      case None
      then show ?thesis using f less.prems by (subst find_entry.simps) (simp add: found_ok_def)
    next
      case (Some e)
      have "found_ok (p\<lparr>world := w\<rparr>) (find_entry win (p\<lparr>world := w\<rparr>) h False)"
        using less.hyps [of "p\<lparr>world := w\<rparr>"] rank f Some less.prems by simp
      then have "found_ok p (find_entry win (p\<lparr>world := w\<rparr>) h False)" by (rule found_ok_mono) simp
      then show ?thesis
        using f Some less.prems win_ok_next [OF assms] by (subst find_entry.simps) (auto simp: found_ok_def)
    qed
  qed
  then show ?thesis
    by (cases "dir_handle (the_handle p h)") (subst find_entry.simps, simp add: found_ok_def)
qed

lemma find_entry_ok:
  assumes "win_ok win"
  shows "found_ok p (find_entry win p h reset)"
proof (cases reset)
  case True
  define q where "q = (case dir_handle (the_handle p h) of
      Some d \<Rightarrow> set_handle (p\<lparr>world := FindClose win d (world p)\<rparr>) h (\<lambda>f. f\<lparr>dir_handle := None\<rparr>) | None \<Rightarrow> p)"
  have q: "same_peer p q" by (auto simp: q_def simp del: set_handle.simps split: option.splits)
  obtain s where s: "formatted Posix MAX_PATH (lit ''%s'' @ 92 # lit ''*'') [AStr (native_path (the_handle q h))] = Some s"
    using search_path_some by blast
  obtain f w where f: "FindFirstFile win s (world q) = (f, w)" by (cases "FindFirstFile win s (world q)")
  have rest: "found_ok p (find_entry win (set_handle (q\<lparr>world := w\<rparr>) h g) h False)" for g
    using find_rest_ok [OF assms] by (rule found_ok_mono) (use q in simp)
  show ?thesis
    using True s f q rest win_ok_first [OF assms]
    by (subst find_entry.simps) (auto simp: q_def [symmetric] found_ok_def Let_def simp del: set_handle.simps split: option.splits)
qed (use find_rest_ok [OF assms] in simp)

section \<open>The answer that is due\<close>

text \<open>The reference for the answers, as for POSIX: the body of the answer to a request.\<close>

definition win_answer :: "(nat \<Rightarrow> rl_uint8) \<Rightarrow> 'w win32 \<Rightarrow> 'w controller \<Rightarrow> rl_body \<Rightarrow> rl_body" where
  "win_answer beyond win p req =
     (case req of
        Open_handle_request path mode \<Rightarrow> opened_answer (win_make_handle beyond win p path mode)
      | Read_file_request f hi lo n \<Rightarrow>
          (case get_handle_from_id f of
             None \<Rightarrow> refusal RL_NETERR_INVALID_VALUE
           | Some h \<Rightarrow>
               if fh_handle (the_handle p h) = - 1 then refusal RL_NETERR_NOT_A_FILE
               else let (positioned, w) =
                          (if h = Vinput_handle then (True, world p)
                           else SetFilePointerEx win (fh_handle (the_handle p h)) (large_integer hi lo) (world p))
                    in if \<not> positioned then refusal RL_NETERR_IO_ERROR
                       else (case fst (ReadFile win (fh_handle (the_handle p h)) (min 4096 (unat n)) w) of
                               None \<Rightarrow> refusal RL_NETERR_IO_ERROR
                             | Some bytes \<Rightarrow> Read_file_answer bytes))
      | Write_file_request f d \<Rightarrow> Write_file_answer
      | Find_next_file_request f reset \<Rightarrow>
          (case get_handle_from_id f of
             None \<Rightarrow> refusal RL_NETERR_INVALID_VALUE
           | Some h \<Rightarrow>
               if fh_type (the_handle p h) \<noteq> RL_NODE_TYPE_DIRECTORY then refusal RL_NETERR_NOT_A_DIRECTORY
               else (case fst (the (find_entry win p h (reset \<noteq> 0))) of
                       Inl e \<Rightarrow> refusal e
                     | Inr None \<Rightarrow> Find_next_file_answer 1 RL_NODE_TYPE_DIRECTORY [] 0
                     | Inr (Some e) \<Rightarrow>
                         Find_next_file_answer 0 (if find_is_dir e then RL_NODE_TYPE_DIRECTORY else RL_NODE_TYPE_FILE)
                           (cFileName e) (nFileSizeLow e)))
      | Close_handle_request f \<Rightarrow> refusal RL_NETERR_INVALID_VALUE
      | _ \<Rightarrow> refusal RL_NETERR_BAD_REQUEST)"

context handler_contract
begin

lemma win_open_handle:
  assumes "C p"
  shows "R p msg (win_answer beyond win p (Open_handle_request path mode)) (win_open_handle_request host beyond win p msg path mode)"
proof -
  obtain r q where m: "win_make_handle beyond win p path mode = Some (r, q)" "same_peer p q"
    using win_make_handle_same [of beyond win p path mode] by blast
  then show ?thesis
    using error [OF assms m(2)] transmit [OF assms m(2) small_answers(5,6)]
    by (cases r) (simp_all add: win_open_handle_request_def win_answer_def opened_answer_def refusal_def)
qed

lemma win_read_file:
  assumes "C p" and "win_ok win"
  shows "R p msg (win_answer beyond win p (Read_file_request f hi lo n)) (win_read_file_request host win p msg f hi lo n)"
proof -
  have "R p msg (Read_file_answer bs)
      (do { (_, p) \<leftarrow> peer_transmit_message host (p\<lparr>world := w\<rparr>) ((RL_MSG_INIT (Read_file_answer bs))\<lparr>hdr_seq := hdr_seq msg\<rparr>); Some (0, p) })"
    if "ReadFile win fd (min 4096 (unat n)) w0 = (Some bs, w1)" for fd w0 bs w1 w
    using win_ok_read [OF assms(2) that] by (intro map [where f = "\<lambda>_. 0"] transmit [OF assms(1)] read_answer_ok) simp_all
  then show ?thesis
    using error [OF assms(1)]
    by (auto simp: win_read_file_request_def win_answer_def refusal_def Let_def split: option.split prod.split)
qed

lemma win_write_file:
  assumes "C p" and "\<not> null_write debug (Write_file_request f d)"
  shows "R p msg (win_answer beyond win p (Write_file_request f d)) (win_write_file_request host win debug p msg f d)"
  using map [OF transmit [OF assms(1) _ small_answers(3,4)], where f = "\<lambda>_. 0"] assms(2)
  by (cases "debug \<and> get_handle_from_id f = None") (auto simp: win_write_file_request_def win_answer_def null_write_def Let_def)

lemma win_find_next_file:
  assumes "C p" and "win_ok win"
  shows "R p msg (win_answer beyond win p (Find_next_file_request f reset)) (win_find_next_file_request host win p msg f reset)"
proof (cases "get_handle_from_id f")
  case None
  then show ?thesis using error [OF assms(1)] by (simp add: win_find_next_file_request_def win_answer_def refusal_def)
next
  case (Some h)
  obtain r q where r: "find_entry win p h (reset \<noteq> 0) = Some (r, q)" "same_peer p q"
    "\<forall>e. r = Inr (Some e) \<longrightarrow> valid_string (cFileName e)"
    using find_entry_ok [OF assms(2)] unfolding found_ok_def by blast
  have "R p msg (Find_next_file_answer b ty name sz)
      (peer_transmit_message host q ((RL_MSG_INIT (Find_next_file_answer b ty name sz))\<lparr>hdr_seq := hdr_seq msg\<rparr>))"
    if "valid_string name" for b ty name sz
    using find_answer_ok [OF that] by (intro transmit [OF assms(1) r(2)])
  then show ?thesis
    using Some r error [OF assms(1)]
    by (auto simp: win_find_next_file_request_def win_answer_def refusal_def valid_string_def split: sum.split option.split)
qed

lemma win_serve:
  assumes "C p" and "win_ok win" and "\<not> null_write debug (body msg)"
    and "\<And>f. body msg = Close_handle_request f \<Longrightarrow> R p msg (win_answer beyond win p (body msg)) (win_close_handle_request host win p msg f)"
  shows "R p msg (win_answer beyond win p (body msg)) (win_file_serve host beyond win debug p msg)"
  unfolding win_file_serve_def
  by (rule map [where f = "\<lambda>_. 0"])
    (use assms win_open_handle win_read_file win_write_file win_find_next_file bad_request in
      \<open>cases "body msg"; simp add: win_answer_def refusal_def\<close>)

lemma win_bad_close:
  assumes "C p" and "get_handle_from_id f = None"
  shows "R p msg (win_answer beyond win p (Close_handle_request f)) (win_close_handle_request host win p msg f)"
proof -
  have "f \<noteq> RL_FILEHANDLE_VIRTUAL_INPUT" "f \<noteq> RL_FILEHANDLE_VIRTUAL_OUTPUT"
    using assms(2) by (auto simp: get_handle_from_id_def split: if_splits)
  then show ?thesis
    using assms error [of p p] by (simp add: win_close_handle_request_def win_answer_def refusal_def)
qed

end

lemma win_serve_cases:
  assumes "can_answer p" and "win_ok win"
  shows "if null_write debug (body msg) then win_file_serve host beyond win debug p msg = None
         else \<exists>p'. win_file_serve host beyond win debug p msg = Some (0, p') \<and> transport_ok p' \<and>
                peer_state p' = PEER_CONNECTED \<and> same_launch p p' \<and>
                out_text p' = out_text p @
                  (if silent_close (body msg) then []
                   else wire_msg ((RL_MSG_INIT (win_answer beyond win p (body msg)))\<lparr>hdr_seq := hdr_seq msg\<rparr>))"
proof (cases "\<exists>f. body msg = Close_handle_request f \<and> get_handle_from_id f \<noteq> None")
  case True
  then obtain f h where f: "body msg = Close_handle_request f" "get_handle_from_id f = Some h" by blast
  define q where "q = (if fh_handle (the_handle p h) \<noteq> - 1
      then p\<lparr>world := CloseHandle win (fh_handle (the_handle p h)) (world p)\<rparr> else p)"
  have t: "peer.truncate q = peer.truncate p" "peer.truncate (set_handle q h g) = peer.truncate p" for g by (simp_all add: q_def)
  have l: "same_launch p q" "same_launch p (set_handle q h g)" for g by (simp_all add: q_def)
  define q' where "q' = (if f = RL_FILEHANDLE_VIRTUAL_INPUT \<or> f = RL_FILEHANDLE_VIRTUAL_OUTPUT then p
      else set_handle q h (\<lambda>f. f\<lparr>fh_handle := 0\<rparr>))"
  have "win_file_serve host beyond win debug p msg = Some (0, q')"
    using f by (simp add: win_file_serve_def win_close_handle_request_def q'_def q_def Let_def del: set_handle.simps)
  moreover have "peer.truncate q' = peer.truncate p" "same_launch p q'" using t l by (simp_all add: q'_def del: set_handle.simps)
  ultimately show ?thesis
    using f assms(1) trunc_ok(1,2) [of q' p] trunc_fields [of q' p]
    by (simp add: null_write_def silent_close_def can_answer_def)
next
  case False
  show ?thesis
  proof (cases "null_write debug (body msg)")
    case True
    then show ?thesis
      by (cases "body msg") (simp_all add: null_write_def win_file_serve_def win_write_file_request_def)
  next
    case ok: False
    have "answered p msg (win_answer beyond win p (body msg)) (win_file_serve host beyond win debug p msg)"
      using False answering.win_bad_close [OF assms(1)] by (intro answering.win_serve [OF assms ok]) simp
    then obtain rc p' where r: "win_file_serve host beyond win debug p msg = Some (rc, p')" "transport_ok p'" "peer_state p' = PEER_CONNECTED"
      "same_launch p p'" "out_text p' = out_text p @ wire_msg ((RL_MSG_INIT (win_answer beyond win p (body msg)))\<lparr>hdr_seq := hdr_seq msg\<rparr>)"
      unfolding answered_def by blast
    moreover have "rc = 0" using r(1) by (auto simp: win_file_serve_def bind_eq_Some_conv)
    moreover have "\<not> silent_close (body msg)" using False by (cases "body msg") (simp_all add: silent_close_def)
    ultimately show ?thesis using ok by auto
  qed
qed

text \<open>
  A Windows for the examples: every path is a directory that holds itself and two files; a
  search has the number 3. The world is the list of entries that the search has still to show.
\<close>

definition example_entry :: "string \<Rightarrow> bool \<Rightarrow> find_data" where
  "example_entry name d = \<lparr>find_is_dir = d, cFileName = lit name, nFileSizeLow = 5\<rparr>"

definition example_entries :: "find_data list" where
  "example_entries = [example_entry ''.'' True, example_entry ''a'' False, example_entry ''.c'' False, example_entry ''b'' True]"

definition example_win :: "find_data list win32" where
  "example_win =
     \<lparr>GetFileAttributes = (\<lambda>_ w. (Some True, w)), CreateFileA = (\<lambda>_ _ w. (- 1, w)), GetLastError = (\<lambda>_. ERROR_ACCESS_DENIED),
      GetFileSize = (\<lambda>_ w. (0, w)), CloseHandle = (\<lambda>_ w. w), SetFilePointerEx = (\<lambda>_ _ w. (True, w)),
      ReadFile = (\<lambda>_ _ w. (None, w)), FindFirstFile = (\<lambda>_ w. (Some (3, hd example_entries), tl example_entries)),
      FindNextFile = (\<lambda>_ w. case w of [] \<Rightarrow> (None, []) | e # es \<Rightarrow> if valid_string (cFileName e) then (Some e, es) else (None, [])),
      FindClose = (\<lambda>_ w. w), fwrite_stdout = (\<lambda>_ w. w)\<rparr>"

lemma example_win_ok: "win_ok example_win"
  unfolding win_ok_def
proof (intro conjI exI [of _ "\<lambda>_ w. length w"])
  show "\<forall>path w. case fst (FindFirstFile example_win path w) of None \<Rightarrow> True | Some (d, e) \<Rightarrow> valid_string (cFileName e)"
    by (simp add: example_win_def example_entries_def example_entry_def valid_string_def)
qed (auto simp: example_win_def split: list.splits prod.splits option.splits)

definition example_win_controller :: "find_data list controller" where
  "example_win_controller =
     peer.extend example_peer
       (controller.fields CONTROLLER_FILE_SERVING (example_handle 0) (example_handle 0) (example_handle 1)
          ((example_handle (- 1))\<lparr>fh_type := RL_NODE_TYPE_DIRECTORY\<rparr> # replicate 15 (example_handle 0)) (lit ''demo'') [] 0 [])"

lemma example_win_controller_fields [simp]:
  "peer.truncate example_win_controller = example_peer"
  "handles example_win_controller = (example_handle (- 1))\<lparr>fh_type := RL_NODE_TYPE_DIRECTORY\<rparr> # replicate 15 (example_handle 0)"
  "world example_win_controller = []"
  by (simp_all add: example_win_controller_def example_peer_def peer.defs controller.defs)

lemma example_win_controller_ok: "can_send example_win_controller" "can_answer example_win_controller"
proof -
  have "transport_ok example_win_controller"
    using example_peer_ok(2)
    by (simp add: transport_ok_def tinv_def example_win_controller_def example_peer_def peer.defs controller.defs)
  then show "can_send example_win_controller" "can_answer example_win_controller"
    unfolding can_send_def can_answer_def
    by (simp_all add: example_win_controller_def example_peer_def peer.defs controller.defs)
qed

text \<open>
  Claim C11: which answer every request gets, on Windows. When the peer is connected and there is memory,
  whatever the request is, whatever lies in memory behind the path, and whatever the operating system
  does, as long as directories have an end, the file server returns and appends to the output one
  message, with the sequence number of the request and exactly the body that \<open>win_answer\<close> asks for; in particular
  the loop over the entries of a directory ends. There are two exceptions: the close of a file the server knows is
  not answered at all; and with the debug channel on, a write request for a file it does not know reads
  through a null pointer.
\<close>
theorem win_serve_answers_once:
  assumes "can_answer p" and "win_ok win"
  shows "if null_write debug (body msg) then win_file_serve host beyond win debug p msg = None
         else \<exists>p'. win_file_serve host beyond win debug p msg = Some (0, p') \<and> transport_ok p' \<and>
                peer_state p' = PEER_CONNECTED \<and> length (handles p') = length (handles p) \<and>
                out_text p' = out_text p @
                  (if silent_close (body msg) then []
                   else wire_msg ((RL_MSG_INIT (win_answer beyond win p (body msg)))\<lparr>hdr_seq := hdr_seq msg\<rparr>))"
  using win_serve_cases [OF assms, of debug msg host beyond] unfolding same_launch_def by auto

theorem win_serve_answers_once_witness:
  "(\<exists>p'. win_file_serve example_host (\<lambda>_. 7) example_win True example_win_controller
            ((RL_MSG_INIT (Read_file_request 99 0 0 5))\<lparr>hdr_seq := 9\<rparr>) = Some (0, p') \<and>
      out_text p' = out_text example_win_controller @ wire_msg ((RL_MSG_INIT (refusal RL_NETERR_INVALID_VALUE))\<lparr>hdr_seq := 9\<rparr>)) \<and>
   (\<exists>p'. win_file_serve example_host (\<lambda>_. 7) example_win True example_win_controller (RL_MSG_INIT (Close_handle_request 0)) = Some (0, p') \<and>
      out_text p' = out_text example_win_controller)"
proof -
  have h: "get_handle_from_id 0 = Some (Slot 0)" "get_handle_from_id 99 = None"
    by (simp_all add: get_handle_from_id_def RL_FILEHANDLE_VIRTUAL_INPUT_def RL_FILEHANDLE_VIRTUAL_OUTPUT_def RL_MAX_FILE_HANDLES_def)
  have b: "win_answer (\<lambda>_. 7) example_win example_win_controller (Read_file_request 99 0 0 5) = refusal RL_NETERR_INVALID_VALUE"
    using h(2) by (simp add: win_answer_def)
  note s = win_serve_answers_once [OF example_win_controller_ok(2) example_win_ok, of True _ example_host "\<lambda>_. 7"]
  show ?thesis
    using s [of "(RL_MSG_INIT (Read_file_request 99 0 0 5))\<lparr>hdr_seq := 9\<rparr>"] s [of "RL_MSG_INIT (Close_handle_request 0)"] b h(1)
    by (simp add: null_write_def silent_close_def) (auto simp: RL_MSG_INIT_def silent_close_def)
qed

section \<open>Listing a directory\<close>

text \<open>
  What a search shows: \<open>rest d w\<close> are the entries that the search \<open>d\<close> has still to show, and the
  whole directory is \<open>es\<close>.
\<close>

definition holds_directory :: "'w win32 \<Rightarrow> (nat \<Rightarrow> 'w \<Rightarrow> find_data list) \<Rightarrow> cstring \<Rightarrow> find_data list \<Rightarrow> bool" where
  "holds_directory win rest path es \<longleftrightarrow>
     (\<forall>w. case FindFirstFile win path w of (None, _) \<Rightarrow> False | (Some (d, e), w') \<Rightarrow> es = e # rest d w') \<and>
     (\<forall>d w. case FindNextFile win d w of (None, w') \<Rightarrow> rest d w = [] \<and> rest d w' = [] | (Some e, w') \<Rightarrow> rest d w = e # rest d w')"

definition visible :: "find_data \<Rightarrow> bool" where
  "visible e \<longleftrightarrow> c_char (\<lambda>_. 0) (cFileName e) 0 \<noteq> 46"

text \<open>The answers that a client expects for the entries \<open>es\<close>, numbered from \<open>s\<close>.\<close>

definition entry_answer :: "rl_uint32 \<Rightarrow> find_data list \<Rightarrow> rl_msg" where
  "entry_answer s es =
     (RL_MSG_INIT (case es of
        [] \<Rightarrow> Find_next_file_answer 1 RL_NODE_TYPE_DIRECTORY [] 0
      | e # _ \<Rightarrow> Find_next_file_answer 0 (if find_is_dir e then RL_NODE_TYPE_DIRECTORY else RL_NODE_TYPE_FILE)
                    (cFileName e) (nFileSizeLow e)))\<lparr>hdr_seq := s\<rparr>"

fun listing :: "rl_uint32 \<Rightarrow> find_data list \<Rightarrow> rl_msg list" where
  "listing s [] = [entry_answer s []]"
| "listing s (e # es) = entry_answer s (e # es) # listing (s + 1) es"

text \<open>\<open>n\<close> requests of a client, the first of which asks for a reset if \<open>reset\<close> is not 0.\<close>

fun win_list ::
  "nat \<Rightarrow> host \<Rightarrow> (nat \<Rightarrow> rl_uint8) \<Rightarrow> 'w win32 \<Rightarrow> rl_uint32 \<Rightarrow> rl_uint32 \<Rightarrow> rl_uint8 \<Rightarrow> 'w controller \<Rightarrow> 'w controller option" where
  "win_list 0 host beyond win f s reset p = Some p"
| "win_list (Suc n) host beyond win f s reset p = do {
     (_, p) \<leftarrow> win_file_serve host beyond win False p ((RL_MSG_INIT (Find_next_file_request f reset))\<lparr>hdr_seq := s\<rparr>);
     win_list n host beyond win f (s + 1) 0 p
   }"

text \<open>A search under way, with the entries \<open>es\<close> to come.\<close>

definition scanning :: "(nat \<Rightarrow> 'w \<Rightarrow> find_data list) \<Rightarrow> handle_ref \<Rightarrow> find_data list \<Rightarrow> 'w controller \<Rightarrow> bool" where
  "scanning rest h es p \<longleftrightarrow>
     fh_type (the_handle p h) = RL_NODE_TYPE_DIRECTORY \<and>
     (\<exists>d. dir_handle (the_handle p h) = Some d \<and> filter visible (rest d (world p)) = es)"

definition found :: "find_data list \<Rightarrow> rl_proto_neterror + find_data option" where
  "found es = Inr (case es of [] \<Rightarrow> None | e # _ \<Rightarrow> Some e)"

lemma directory_next:
  assumes "holds_directory win rest path all"
  shows "\<exists>w'. FindNextFile win d w = ((case rest d w of [] \<Rightarrow> None | e # _ \<Rightarrow> Some e), w') \<and> rest d w' = tl (rest d w)"
proof -
  obtain f w' where f: "FindNextFile win d w = (f, w')" by (cases "FindNextFile win d w")
  have "case FindNextFile win d w of (None, w') \<Rightarrow> rest d w = [] \<and> rest d w' = [] | (Some e, w') \<Rightarrow> rest d w = e # rest d w'"
    using assms by (simp add: holds_directory_def)
  then show ?thesis using f by (cases f) auto
qed

lemma find_rest:
  assumes "holds_directory win rest path all" and "scanning rest h es p"
  shows "\<exists>w. find_entry win p h False = Some (found es, p\<lparr>world := w\<rparr>) \<and> scanning rest h (tl es) (p\<lparr>world := w\<rparr>)"
proof -
  have "dir_handle (the_handle p h) = Some d \<Longrightarrow>
      \<exists>w. find_entry win p h False = Some (found (filter visible (rest d (world p))), p\<lparr>world := w\<rparr>) \<and>
          filter visible (rest d w) = tl (filter visible (rest d (world p)))" for d
  proof (induction "rest d (world p)" arbitrary: p)
    case Nil
    then obtain w where "FindNextFile win d (world p) = (None, w)" "rest d w = []"
      using directory_next [OF assms(1), of d "world p"] by auto
    then show ?case using Nil by (subst find_entry.simps) (auto simp: found_def)
  next
    case (Cons e r)
    then obtain w where w: "FindNextFile win d (world p) = (Some e, w)" "rest d w = r"
      using directory_next [OF assms(1), of d "world p"] by (metis list.sel(3) list.simps(5))
    obtain w' where "find_entry win (p\<lparr>world := w\<rparr>) h False = Some (found (filter visible r), p\<lparr>world := w'\<rparr>)"
      "filter visible (rest d w') = tl (filter visible r)"
      using Cons.hyps(1) [of "p\<lparr>world := w\<rparr>"] Cons.prems w(2) by auto
    then show ?case
      using w Cons.prems Cons.hyps(2) [symmetric] by (subst find_entry.simps) (auto simp: found_def visible_def)
  qed
  then show ?thesis using assms(2) by (fastforce simp: scanning_def)
qed

lemma the_handle_set:
  "get_handle_from_id f = Some h \<Longrightarrow> length (handles p) = RL_MAX_FILE_HANDLES \<Longrightarrow> the_handle (set_handle p h g) h = g (the_handle p h)"
  by (cases h) (auto simp: get_handle_from_id_def split: if_splits)

lemma search_path_text:
  assumes "length path \<le> 257"
  shows "formatted Posix MAX_PATH (lit ''%s'' @ 92 # lit ''*'') [AStr path] = Some (path @ 92 # lit ''*'')"
proof -
  have "format_text Posix (lit ''%s'' @ 92 # lit ''*'') [AStr path] = Some (path @ 92 # lit ''*'')"
    using format_text_s [of "[]" path Posix "92 # lit ''*''" "[]"] format_text_literal [of "92 # lit ''*''" Posix "[]"] assms
    by (simp add: is_percent_def)
  from formatted_eq [OF _ this, of MAX_PATH] assms show ?thesis by (simp add: MAX_PATH_def)
qed

lemma find_first:
  assumes "holds_directory win rest (native_path (the_handle p h) @ 92 # lit ''*'') es" and "length (native_path (the_handle p h)) \<le> 257"
    and "get_handle_from_id f = Some h" and "length (handles p) = RL_MAX_FILE_HANDLES"
    and "fh_type (the_handle p h) = RL_NODE_TYPE_DIRECTORY"
  shows "\<exists>q. find_entry win p h True = Some (found (filter visible es), q) \<and> scanning rest h (tl (filter visible es)) q \<and> same_peer p q"
proof -
  define q where "q = (case dir_handle (the_handle p h) of
      Some d \<Rightarrow> set_handle (p\<lparr>world := FindClose win d (world p)\<rparr>) h (\<lambda>f. f\<lparr>dir_handle := None\<rparr>) | None \<Rightarrow> p)"
  let ?path = "native_path (the_handle p h)"
  have q: "same_peer p q" "length (handles q) = RL_MAX_FILE_HANDLES" "native_path (the_handle q h) = ?path"
    "fh_type (the_handle q h) = RL_NODE_TYPE_DIRECTORY"
    using assms(4,5) by (auto simp: q_def the_handle_set [OF assms(3)] simp del: set_handle.simps split: option.splits)
  obtain d e w where f: "FindFirstFile win (?path @ 92 # lit ''*'') (world q) = (Some (d, e), w)" "es = e # rest d w"
  proof -
    have "case FindFirstFile win (?path @ 92 # lit ''*'') (world q) of (None, _) \<Rightarrow> False | (Some (d, e), w') \<Rightarrow> es = e # rest d w'"
      using assms(1) by (simp add: holds_directory_def)
    then show thesis using that by (auto split: prod.splits option.splits)
  qed
  let ?q = "set_handle (q\<lparr>world := w\<rparr>) h (\<lambda>f. f\<lparr>dir_handle := Some d\<rparr>)"
  have s: "scanning rest h (filter visible (rest d w)) ?q" "same_peer p ?q"
    using q the_handle_set [OF assms(3), of "q\<lparr>world := w\<rparr>"] by (simp_all add: scanning_def del: set_handle.simps)
  from find_rest [OF assms(1) s(1)] obtain w' where
    r: "find_entry win ?q h False = Some (found (filter visible (rest d w)), ?q\<lparr>world := w'\<rparr>)"
      "scanning rest h (tl (filter visible (rest d w))) (?q\<lparr>world := w'\<rparr>)" by blast
  have "find_entry win p h True =
      (if visible e then Some (Inr (Some e), ?q) else find_entry win ?q h False)"
    using search_path_text [OF assms(2)] f(1) q(3)
    by (subst find_entry.simps) (simp add: q_def [symmetric] visible_def Let_def del: set_handle.simps)
  then show ?thesis
    using r s f(2) by (cases "visible e") (simp_all add: found_def del: set_handle.simps)
qed

lemma scanning_more:
  fixes p q :: "'w controller"
  assumes "peer.more q = peer.more p"
  shows "scanning rest h es q = scanning rest h es p"
proof -
  have "the_handle q h = the_handle p h" using assms by (cases p, cases q, cases h) simp_all
  then show ?thesis using more_ctl(3) [OF assms] by (simp add: scanning_def)
qed

lemma list_step:
  assumes "get_handle_from_id f = Some h" and "can_send p" and "fh_type (the_handle p h) = RL_NODE_TYPE_DIRECTORY"
    and "find_entry win p h (reset \<noteq> 0) = Some (found es, q)" and "same_peer p q" and "scanning rest h es' q"
    and "list_all (\<lambda>e. valid_string (cFileName e)) es"
  shows "\<exists>q'. win_file_serve host beyond win False p ((RL_MSG_INIT (Find_next_file_request f reset))\<lparr>hdr_seq := s\<rparr>) = Some (0, q') \<and>
           can_send q' \<and> scanning rest h es' q' \<and> out_text q' = out_text p @ wire_msg (entry_answer s es)"
proof -
  have t: "peer.truncate q = peer.truncate p" using assms(5) by (simp add: same_peer_def)
  have "valid_body (body (entry_answer s es))" "msg_size (entry_answer s es) \<le> 8192"
    using assms(7) find_answer_ok by (cases es; simp add: entry_answer_def msg_size_seq valid_string_def)+
  then obtain q' where q': "peer_transmit_message host q (entry_answer s es) = Some (0, q')" "can_send q'" "peer.more q' = peer.more q"
    "out_text q' = out_text q @ wire_msg (entry_answer s es)"
    using transmit_sends [of q "entry_answer s es" host] can_send_trunc [OF t] assms(2) by blast
  have "win_find_next_file_request host win p ((RL_MSG_INIT (Find_next_file_request f reset))\<lparr>hdr_seq := s\<rparr>) f reset = Some (0, q')"
    using assms(1,3,4) q'(1)
    by (cases es) (simp_all add: win_find_next_file_request_def found_def entry_answer_def)
  then show ?thesis
    using q'(2-4) trunc_ok(2) [OF t] scanning_more [OF q'(3), of rest h es'] assms(6) by (simp add: win_file_serve_def)
qed

lemma list_rest:
  assumes "holds_directory win rest path all" and "get_handle_from_id f = Some h"
  shows "list_all (\<lambda>e. valid_string (cFileName e)) es \<Longrightarrow> can_send p \<Longrightarrow> scanning rest h es p \<Longrightarrow>
    \<exists>q. win_list (Suc (length es)) host beyond win f s 0 p = Some q \<and> can_send q \<and>
      out_text q = out_text p @ concat (map wire_msg (listing s es))"
proof (induction es arbitrary: p s)
  case Nil
  obtain w where w: "find_entry win p h False = Some (found [], p\<lparr>world := w\<rparr>)" "scanning rest h [] (p\<lparr>world := w\<rparr>)"
    using find_rest [OF assms(1) Nil.prems(3)] by auto
  have ty: "fh_type (the_handle p h) = RL_NODE_TYPE_DIRECTORY" using Nil.prems(3) by (simp add: scanning_def)
  obtain q where "win_file_serve host beyond win False p ((RL_MSG_INIT (Find_next_file_request f 0))\<lparr>hdr_seq := s\<rparr>) = Some (0, q)"
    "can_send q" "out_text q = out_text p @ wire_msg (entry_answer s [])"
    using list_step [OF assms(2) Nil.prems(2) ty, of win 0 "[]" "p\<lparr>world := w\<rparr>" rest "[]" host beyond s] w by auto
  then show ?case by simp
next
  case (Cons e es)
  obtain w where w: "find_entry win p h False = Some (found (e # es), p\<lparr>world := w\<rparr>)" "scanning rest h es (p\<lparr>world := w\<rparr>)"
    using find_rest [OF assms(1) Cons.prems(3)] by auto
  have ty: "fh_type (the_handle p h) = RL_NODE_TYPE_DIRECTORY" using Cons.prems(3) by (simp add: scanning_def)
  obtain q where q: "win_file_serve host beyond win False p ((RL_MSG_INIT (Find_next_file_request f 0))\<lparr>hdr_seq := s\<rparr>) = Some (0, q)"
    "can_send q" "scanning rest h es q" "out_text q = out_text p @ wire_msg (entry_answer s (e # es))"
    using list_step [OF assms(2) Cons.prems(2) ty, of win 0 "e # es" "p\<lparr>world := w\<rparr>" rest es host beyond s] w Cons.prems(1) by auto
  then show ?case using Cons.IH [OF _ q(2,3), of "s + 1"] Cons.prems(1) by auto
qed

text \<open>
  Claim C25: a directory is listed completely on Windows. A client that asks for the entries of
  an open directory, with a reset first, gets one answer for every entry whose name does not
  start with a dot, in the order of the directory and with its type, name and size, and then the answer
  that marks the end; a search that was left open does not matter. The path has at most 257 bytes, since the
  search pattern is cut at 259.
\<close>
theorem win_listing:
  assumes "can_send p" and "get_handle_from_id f = Some h" and "length (handles p) = RL_MAX_FILE_HANDLES"
    and "fh_type (the_handle p h) = RL_NODE_TYPE_DIRECTORY" and "length (native_path (the_handle p h)) \<le> 257"
    and "holds_directory win rest (native_path (the_handle p h) @ 92 # lit ''*'') es"
    and "list_all (\<lambda>e. valid_string (cFileName e)) es"
  defines "shown \<equiv> filter (\<lambda>e. take 1 (cFileName e) \<noteq> lit ''.'') es"
  shows "\<exists>q. win_list (length shown + 1) host beyond win f s 1 p = Some q \<and> can_send q \<and>
           out_text q = out_text p @ concat (map wire_msg (listing s shown))"
proof -
  have "visible = (\<lambda>e. take 1 (cFileName e) \<noteq> lit ''.'')"
    by (rule ext) (auto simp: visible_def c_char_def take_Suc hd_conv_nth Suc_le_eq)
  then have v: "filter visible es = shown" by (simp add: shown_def)
  have n: "list_all (\<lambda>e. valid_string (cFileName e)) shown" using assms(7) by (auto simp: shown_def list_all_iff)
  obtain q where q: "find_entry win p h True = Some (found shown, q)" "scanning rest h (tl shown) q" "same_peer p q"
    using find_first [OF assms(6,5,2-4)] unfolding v by blast
  obtain q' where q': "win_file_serve host beyond win False p ((RL_MSG_INIT (Find_next_file_request f 1))\<lparr>hdr_seq := s\<rparr>) = Some (0, q')"
    "can_send q'" "scanning rest h (tl shown) q'" "out_text q' = out_text p @ wire_msg (entry_answer s shown)"
    using list_step [OF assms(2,1,4), of win 1 shown q rest "tl shown" host beyond s] q n by auto
  show ?thesis
  proof (cases shown)
    case Nil
    then show ?thesis using q' by simp
  next
    case (Cons e r)
    then show ?thesis
      using q' list_rest [OF assms(6,2) _ q'(2), of r host beyond "s + 1"] n by auto
  qed
qed

theorem win_listing_witness:
  "\<exists>q. win_list 3 example_host (\<lambda>_. 0) example_win 0 7 1 example_win_controller = Some q \<and> can_send q \<and>
     out_text q = out_text example_win_controller @
       concat (map wire_msg (listing 7 [example_entry ''a'' False, example_entry ''b'' True]))"
proof -
  have h: "get_handle_from_id 0 = Some (Slot 0)"
    by (simp add: get_handle_from_id_def RL_FILEHANDLE_VIRTUAL_INPUT_def RL_FILEHANDLE_VIRTUAL_OUTPUT_def RL_MAX_FILE_HANDLES_def)
  have d: "holds_directory example_win (\<lambda>_ w. takeWhile (\<lambda>e. valid_string (cFileName e)) w) path example_entries" for path
    by (auto simp: holds_directory_def example_win_def example_entries_def example_entry_def valid_string_def split: list.split)
  have e: "filter (\<lambda>e. take 1 (cFileName e) \<noteq> lit ''.'') example_entries = [example_entry ''a'' False, example_entry ''b'' True]"
    by (simp add: example_entries_def example_entry_def)
  have v: "list_all (\<lambda>e. valid_string (cFileName e)) example_entries"
    by (simp add: example_entries_def example_entry_def valid_string_def)
  show ?thesis
    using win_listing [OF example_win_controller_ok(1) h _ _ _ d v, of example_host "\<lambda>_. 0" 7] e
    by (simp add: example_handle_def RL_MAX_FILE_HANDLES_def numeral_3_eq_3)
qed

end
