(* ===== verification/Rl_Controller.thy ===== *)
theory Rl_Controller
  imports Rl_File_Server
begin

unbundle bit_operations_syntax

text \<open>
  The controller (\<^verbatim>\<open>src/src/controller.c\<close>): its callbacks as the owner of a peer (ask the target to
  launch the executable, then serve files until the program is done), the loop that drives
  the peer, and the part of \<^verbatim>\<open>main\<close> that reads the command line and sets up the root path. The
  controller is built for POSIX here. The connection (\<open>connect_to_target\<close>) and \<^verbatim>\<open>main\<close> as a whole are in
  \<open>Rl_Connect\<close>.
\<close>

section \<open>Callbacks\<close>

text \<open>
  The loop that prints the arguments one after the other into the buffer \<open>arguments[256]\<close>:
  \<open>p\<close> is the place of the next one, \<open>p_max\<close> the last byte of the buffer.
\<close>

fun format_arguments :: "mem \<Rightarrow> nat \<Rightarrow> nat \<Rightarrow> bool \<Rightarrow> cstring list \<Rightarrow> (mem \<times> nat) option" where
  "format_arguments m p p_max first [] = Some (m, p)"
| "format_arguments m p p_max first (a # as) =
     (if p < p_max
      then do {
        (m, n) \<leftarrow> rl_format_msg Posix m p (p_max - p) (if first then lit ''%s'' else lit '' %s'') [AStr a];
        format_arguments m (p + n) p_max False as
      }
      else Some (m, p))"

definition arguments_text :: "cstring list \<Rightarrow> cstring option" where
  "arguments_text as =
     map_option (\<lambda>(m, p). takeWhile (\<lambda>c. c \<noteq> 0) (mread (m(p := 0)) 0 256))
       (format_arguments (\<lambda>_. 0) 0 255 True as)"

definition ctl_on_connected :: "host \<Rightarrow> 'w controller \<Rightarrow> (int \<times> 'w controller) option" where
  "ctl_on_connected host peer = do {
     text \<leftarrow> arguments_text (arguments peer);
     (rc, peer) \<leftarrow> peer_transmit_message host peer
                     (RL_MSG_INIT (Launch_executable_request (executable peer) text));
     if rc = 0
     then Some (0, peer\<lparr>ctl_state := CONTROLLER_WAIT_EXECUTABLE_LAUNCHED\<rparr>)
     else Some (1, peer\<lparr>ctl_state := CONTROLLER_ERROR\<rparr>)
   }"

definition on_message_received ::
  "host \<Rightarrow> 'w posix \<Rightarrow> bool \<Rightarrow> 'w controller \<Rightarrow> rl_msg \<Rightarrow> (int \<times> 'w controller) option" where
  "on_message_received host os debug peer msg =
     (if ctl_state peer = CONTROLLER_FILE_SERVING \<or> ctl_state peer = CONTROLLER_WAIT_EXECUTABLE_LAUNCHED
      then
        (case body msg of
           Launch_executable_answer \<Rightarrow> Some (0, peer\<lparr>ctl_state := CONTROLLER_FILE_SERVING\<rparr>)
         | Executable_done_request result_code \<Rightarrow> Some (1, peer\<lparr>ctl_result := result_code\<rparr>)
         | _ \<Rightarrow> do {
             (_, peer) \<leftarrow> rl_file_serve host os debug peer msg;
             Some (0, peer)
           })
      else Some (0, peer\<lparr>ctl_state := CONTROLLER_ERROR\<rparr>))"

definition controller_callbacks :: "host \<Rightarrow> 'w posix \<Rightarrow> bool \<Rightarrow> 'w controller peer_callbacks" where
  "controller_callbacks host os debug =
     \<lparr>on_message = on_message_received host os debug, on_connected = ctl_on_connected host\<rparr>"

section \<open>The loop\<close>

text \<open>
  An event is the machine at that moment and the outcome of \<^verbatim>\<open>select\<close>: an error, or whether the
  socket is readable and writable. Output is only asked for in the first round and when the
  last update wanted it. \<open>None\<close> as return code: the events ran out, the loop goes on.
\<close>

datatype select_outcome = Select_error | Selected bool bool

fun pump_peer_state_machine ::
  "(host \<Rightarrow> 'a peer_scheme peer_callbacks) \<Rightarrow> 'a peer_scheme \<Rightarrow> bool \<Rightarrow> int \<Rightarrow>
     (host \<times> select_outcome) list \<Rightarrow> (int option \<times> 'a peer_scheme) option" where
  "pump_peer_state_machine cb peer first_update peer_status [] = Some (None, peer)"
| "pump_peer_state_machine cb peer first_update peer_status ((host, sel) # es) =
     (case sel of
        Select_error \<Rightarrow> Some (Some (- 1), peer)
      | Selected readable writable \<Rightarrow> do {
          let in_output_set = (first_update \<or> PEER_STATUS_NEED_OUTPUT AND peer_status \<noteq> 0);
          (peer_status, peer) \<leftarrow> peer_update host (cb host) peer readable (writable \<and> in_output_set);
          if PEER_STATUS_REMOVE_ME AND peer_status = 0
          then pump_peer_state_machine cb peer False peer_status es
          else Some (Some 0, peer)
        })"

section \<open>The command line\<close>

record options =
  peer_hostname :: "cstring option"
  peer_port :: cstring
  fsroot :: cstring
  opt_executable :: "cstring option"
  opt_arguments :: "cstring list"
  log_bits :: rl_uint32
  opt_log :: log_state
  options_done :: bool

text \<open>
  The loop over the arguments. The left result is the jump to \<^verbatim>\<open>cleanup\<close> after the usage text;
  \<open>None\<close> comes from the log channel letters, whose complaints are printed.
\<close>

fun parse_args :: "cstring list \<Rightarrow> options \<Rightarrow> (unit + options) option" where
  "parse_args [] o1 = Some (Inr o1)"
| "parse_args [this_arg] o1 =
     (if \<not> options_done o1 \<and> this_arg = lit ''-fsroot'' then Some (Inr (o1\<lparr>fsroot := []\<rparr>))
      else if \<not> options_done o1 \<and> this_arg = lit ''-port'' then Some (Inr (o1\<lparr>peer_port := []\<rparr>))
      else if \<not> options_done o1 \<and> this_arg = lit ''-log'' then do {
        (bits, out) \<leftarrow> rl_toggle_log_bits Posix [] (log_bits o1, opt_log o1);
        Some (Inr (o1\<lparr>log_bits := bits, opt_log := out\<rparr>))
      }
      else if peer_hostname o1 = None
      then Some (Inr (o1\<lparr>peer_hostname := Some this_arg, options_done := True\<rparr>))
      else if opt_executable o1 = None
      then Some (Inr (o1\<lparr>opt_executable := Some this_arg, options_done := True\<rparr>))
      else if options_done o1 \<and> length (opt_arguments o1) < 16
      then Some (Inr (o1\<lparr>opt_arguments := opt_arguments o1 @ [this_arg]\<rparr>))
      else Some (Inl ()))"
| "parse_args (this_arg # next_arg # as) o1 =
     (if \<not> options_done o1 \<and> this_arg = lit ''-fsroot'' then parse_args as (o1\<lparr>fsroot := next_arg\<rparr>)
      else if \<not> options_done o1 \<and> this_arg = lit ''-port'' then parse_args as (o1\<lparr>peer_port := next_arg\<rparr>)
      else if \<not> options_done o1 \<and> this_arg = lit ''-log'' then do {
        (bits, out) \<leftarrow> rl_toggle_log_bits Posix next_arg (log_bits o1, opt_log o1);
        parse_args as (o1\<lparr>log_bits := bits, opt_log := out\<rparr>)
      }
      else if peer_hostname o1 = None
      then parse_args (next_arg # as) (o1\<lparr>peer_hostname := Some this_arg, options_done := True\<rparr>)
      else if opt_executable o1 = None
      then parse_args (next_arg # as) (o1\<lparr>opt_executable := Some this_arg, options_done := True\<rparr>)
      else if options_done o1 \<and> length (opt_arguments o1) < 16
      then parse_args (next_arg # as) (o1\<lparr>opt_arguments := opt_arguments o1 @ [this_arg]\<rparr>)
      else Some (Inl ()))"

text \<open>
  The root path: \<^verbatim>\<open>-fsroot\<close> or the working directory, without a slash at the end. \<open>cwd\<close> is
  what \<^verbatim>\<open>getcwd\<close> leaves in the buffer of 260 bytes.
\<close>

definition root_path :: "cstring \<Rightarrow> cstring \<Rightarrow> cstring option" where
  "root_path root cwd = do {
     path \<leftarrow> (if root \<noteq> [] then copied 260 root else Some cwd);
     Some (if length path > 0 \<and> path ! (length path - 1) = of_char CHR ''/''
           then take (length path - 1) path else path)
   }"

definition new_filehandle :: "int \<Rightarrow> cstring \<Rightarrow> rl_uint8 \<Rightarrow> rl_filehandle" where
  "new_filehandle fd path ty =
     \<lparr>fh_handle = fd, dir_handle = None, native_path = path, fh_type = ty, fh_size = 0\<rparr>"

text \<open>
  The controller structure as \<^verbatim>\<open>main\<close> has filled it in when it connects; the peer part and the
  world are those of \<open>p\<close>.
\<close>

definition setup_controller :: "'w controller \<Rightarrow> options \<Rightarrow> cstring \<Rightarrow> 'w controller option" where
  "setup_controller p opts cwd = do {
     exe \<leftarrow> opt_executable opts;
     _ \<leftarrow> peer_hostname opts;
     root \<leftarrow> root_path (fsroot opts) cwd;
     vin \<leftarrow> copied 260 (lit ''(virtual input)'');
     vout \<leftarrow> copied 260 (lit ''(virtual output)'');
     Some (p\<lparr>ctl_state := CONTROLLER_INITIAL,
             root_handle := new_filehandle 0 root RL_NODE_TYPE_DIRECTORY,
             vinput_handle := new_filehandle 0 vin RL_NODE_TYPE_FILE,
             voutput_handle := new_filehandle 1 vout RL_NODE_TYPE_FILE,
             handles := replicate RL_MAX_FILE_HANDLES (new_filehandle 0 [] 0),
             executable := exe, arguments := opt_arguments opts, ctl_result := 0\<rparr>)
   }"

section \<open>The launch request\<close>

text \<open>What the loop over the arguments prints: the arguments with a space before each but the first.\<close>

fun spaced :: "bool \<Rightarrow> cstring list \<Rightarrow> cstring" where
  "spaced first [] = []"
| "spaced first (a # as) = (if first then a else lit '' '' @ a) @ spaced False as"

definition c_argument :: "cstring \<Rightarrow> bool" where
  "c_argument a \<longleftrightarrow> nul_free a \<and> length a < 2 ^ 31"

lemma argument_text:
  assumes "length a < 2 ^ 31"
  shows "format_text Posix (if first then lit ''%s'' else lit '' %s'') [AStr a] =
           Some (if first then a else lit '' '' @ a)"
proof -
  have "format_text Posix ([] :: cstring) [] = Some []" by (rule format_text_literal) simp
  then show ?thesis
    using format_text_s [of "[]" a Posix "[]" "[]"] format_text_s [of "lit '' ''" a Posix "[]" "[]"] assms
    by (simp add: is_percent_def)
qed

lemma take_take_append: "take n (take n xs @ ys) = take n (xs @ ys)"
  by (cases "n \<le> length xs") simp_all

lemma format_arguments_text:
  assumes "list_all (\<lambda>a. length a < 2 ^ 31) as" and "length t \<le> 254" and "mread m 0 (length t) = t"
  shows "\<exists>m'. format_arguments m (length t) 255 first as = Some (m', length (take 254 (t @ spaced first as))) \<and>
           mread m' 0 (length (take 254 (t @ spaced first as))) = take 254 (t @ spaced first as)"
  using assms
proof (induction as arbitrary: m t first)
  case Nil
  then show ?case by simp
next
  case (Cons a as)
  let ?a = "if first then a else lit '' '' @ a"
  let ?s = "take (254 - length t) ?a" and ?t = "take 254 (t @ ?a)"
  let ?m = "mwrite m (length t) (?s @ [0])"
  have "rl_format_msg Posix m (length t) (255 - length t) (if first then lit ''%s'' else lit '' %s'') [AStr a] =
      Some (?m, min (254 - length t) (length ?a))"
    using rl_format_msg_eq [OF _ argument_text [of a first], of "255 - length t" m "length t"] Cons.prems by simp
  moreover have t: "?t = t @ ?s" "length t + min (254 - length t) (length ?a) = length ?t"
    using Cons.prems(2) by auto
  ultimately have run: "format_arguments m (length t) 255 first (a # as) = format_arguments ?m (length ?t) 255 False as"
    using Cons.prems(2) by simp
  have "mread ?m 0 (length t) = mread m 0 (length t)" by (rule mread_mwrite_other) simp
  moreover have "mread (mwrite m b (s @ [0])) b (length s) = s" for s b
    using mread_mwrite_prefix [of "length s" "s @ [0]" m b] by simp
  ultimately have r: "mread ?m 0 (length ?t) = ?t"
    unfolding t(1) length_append mread_add using Cons.prems(3) by (simp only: add_0)
  have l: "list_all (\<lambda>a. length a < 2 ^ 31) as" "length ?t \<le> 254" using Cons.prems(1) by auto
  have e: "take 254 (?t @ spaced False as) = take 254 (t @ spaced first (a # as))"
    by (simp only: spaced.simps append_assoc [symmetric] take_take_append)
  show ?case using Cons.IH [OF l r, of False] unfolding run e .
qed

lemma spaced_nul_free: "list_all c_argument as \<Longrightarrow> nul_free (spaced first as)"
  by (induction as arbitrary: first) (auto simp: c_argument_def)

lemma arguments_text_eq:
  assumes "list_all c_argument as"
  shows "arguments_text as = Some (take 254 (spaced True as))"
proof -
  have l: "list_all (\<lambda>a. length a < 2 ^ 31) as" using assms by (auto simp: list_all_iff c_argument_def)
  have nf: "nul_free (take 254 (spaced True as))" using spaced_nul_free [OF assms] by (rule nul_free_take)
  let ?t = "take 254 (spaced True as)"
  obtain m where m: "format_arguments (\<lambda>_. 0) 0 255 True as = Some (m, length ?t)" "mread m 0 (length ?t) = ?t"
    using format_arguments_text [OF l, of "[]" "\<lambda>_. 0" True] by auto
  let ?m = "m(length ?t := 0)"
  have "mread ?m 0 (Suc (length ?t)) = ?t @ [0]"
    using mread_upd_snoc [of m 0 "length ?t" 0] unfolding add_0 m(2) .
  then have "str_at ?m 0 ?t" using nf by (simp add: str_at_def)
  from str_at_read [OF this, of 256] show ?thesis using m(1) by (simp add: arguments_text_def)
qed

section \<open>The controller owns its peer\<close>

text \<open>The invariant of the controller's own data: the table has its size, the arguments are C strings.\<close>

definition ctl_data :: "'w controller \<Rightarrow> bool" where
  "ctl_data c \<longleftrightarrow> length (handles c) = RL_MAX_FILE_HANDLES \<and> list_all c_argument (arguments c)"

definition owner_data :: "('w, unit) controller_ext \<Rightarrow> bool" where
  "owner_data x \<longleftrightarrow> ctl_data (peer.extend example_peer x)"

lemma owner_data_more [simp]: "owner_data (peer.more c) = ctl_data c"
  by (cases c) (simp add: owner_data_def ctl_data_def peer.extend_def)

lemma ctl_trunc [simp]:
  "peer.truncate (c\<lparr>ctl_state := s\<rparr>) = peer.truncate c" "peer.truncate (c\<lparr>ctl_result := r\<rparr>) = peer.truncate c"
  by (simp_all add: peer.truncate_def)

lemma ctl_data_fields [simp]:
  "ctl_data (c\<lparr>ctl_state := s\<rparr>) = ctl_data c" "ctl_data (c\<lparr>ctl_result := r\<rparr>) = ctl_data c"
  by (simp_all add: ctl_data_def)

lemma ctl_data_launch: "same_launch p q \<Longrightarrow> ctl_data q = ctl_data p"
  by (simp add: ctl_data_def same_launch_def)

lemma close_served:
  assumes "ctl_ok p"
  shows "served p (close_handle_request host os p msg h)"
  using assms served_quiet [of p] serving.error [OF assms, of p]
  by (cases "get_handle_from_id h") (simp_all add: close_handle_request_def ctl_ok_def Let_def)

lemma serve_served: "transport_ok p \<Longrightarrow> posix_ok os \<Longrightarrow> served p (rl_file_serve host os False p msg)"
  by (rule serving.serve) (simp_all add: close_served ctl_ok_def)

text \<open>A machine on which the file server works makes the controller a proper owner of its peer.\<close>

locale serving_host =
  fixes host :: host and os :: "'w posix"
  assumes host_ok: "host_ok host" and os_ok: "posix_ok os"
begin

lemma message_advances:
  assumes "transport_ok p" and "ctl_data p"
  shows "\<exists>rc p'. on_message_received host os False p m = Some (rc, p') \<and> advances p p' \<and> ctl_data p'"
proof -
  obtain rc p' where s: "rl_file_serve host os False p m = Some (rc, p')" "advances p p'" "same_launch p p'"
    using serve_served [OF assms(1) os_ok, of host m] by (auto simp: served_def)
  then have serve: "\<exists>rc p'. do { (_, q) \<leftarrow> rl_file_serve host os False p m; Some (0 :: int, q) } = Some (rc, p') \<and>
      advances p p' \<and> ctl_data p'"
    using ctl_data_launch [OF s(3)] assms(2) by simp
  have quiet: "advances p (p\<lparr>ctl_state := s\<rparr>)" "advances p (p\<lparr>ctl_result := r\<rparr>)" for s r
    using advances_refl [OF assms(1)] trunc_advances [of "p\<lparr>ctl_state := s\<rparr>" p] trunc_advances [of "p\<lparr>ctl_result := r\<rparr>" p]
    by simp_all
  show ?thesis
    using serve quiet assms(2)
    by (cases "body m") (simp_all add: on_message_received_def)
qed

lemma connected_advances:
  assumes "transport_ok p" and "ctl_data p"
  shows "\<exists>rc p'. ctl_on_connected host p = Some (rc, p') \<and> advances p p' \<and> ctl_data p'"
proof -
  have t: "arguments_text (arguments p) = Some (take 254 (spaced True (arguments p)))"
    using assms(2) by (intro arguments_text_eq) (simp add: ctl_data_def)
  let ?m = "RL_MSG_INIT (Launch_executable_request (executable p) (take 254 (spaced True (arguments p))))"
  have "arrays_ok (body ?m)" by (simp add: arrays_ok_def RL_MSG_INIT_def)
  then obtain p' where p': "peer_transmit_message host p ?m = Some (0, p')" "advances p p'"
    "peer.more p' = peer.more p"
    using transmit_advances [OF assms(1)] by blast
  have "ctl_data p'" using assms(2) owner_data_more [of p'] owner_data_more [of p] p'(3) by simp
  then show ?thesis
    using t p' trunc_advances [of "p'\<lparr>ctl_state := CONTROLLER_WAIT_EXECUTABLE_LAUNCHED\<rparr>" p' p]
    by (simp add: ctl_on_connected_def)
qed

lemma is_owner: "peer_owner host (controller_callbacks host os False) owner_data"
  using host_ok message_advances connected_advances
  by unfold_locales (simp_all add: controller_callbacks_def)

end

sublocale serving_host \<subseteq> owner: peer_owner host "controller_callbacks host os False" owner_data
  by (rule is_owner)

interpretation example_serving: serving_host example_host example_os
  by unfold_locales (rule example_host_ok example_os_ok)+

lemma controller_owner: "host_ok host \<Longrightarrow> posix_ok os \<Longrightarrow> peer_owner host (controller_callbacks host os False) owner_data"
  by (rule serving_host.is_owner) (rule serving_host.intro)

lemma pump_ok:
  assumes "\<And>host. host_ok host \<Longrightarrow> peer_owner host (cb host) U"
  shows "peer_ok p \<Longrightarrow> U (peer.more p) \<Longrightarrow> list_all (\<lambda>(host, _). host_ok host) es \<Longrightarrow>
     \<exists>r p'. pump_peer_state_machine cb p first status es = Some (r, p') \<and> peer_ok p' \<and> U (peer.more p') \<and>
       (r = Some 0 \<longrightarrow> peer_state p' = PEER_ERROR \<or> peer_state p' = PEER_DISCONNECTED) \<and>
       (r \<noteq> Some 0 \<longrightarrow> r = None \<or> r = Some (- 1) \<and> Select_error \<in> snd ` set es)"
proof (induction es arbitrary: p first status)
  case Nil
  then show ?case by simp
next
  case (Cons e es)
  obtain host sel where e: "e = (host, sel)" by (cases e)
  show ?case
  proof (cases sel)
    case Select_error
    then show ?thesis using e Cons.prems by simp
  next
    case (Selected r w)
    have own: "peer_owner host (cb host) U" using assms Cons.prems e by simp
    let ?w = "w \<and> (first \<or> PEER_STATUS_NEED_OUTPUT AND status \<noteq> 0)"
    obtain res p1 where p1: "peer_update host (cb host) p r ?w = Some (res, p1)" "peer_ok p1" "U (peer.more p1)"
      "res \<in> {0, PEER_STATUS_NEED_OUTPUT, PEER_STATUS_REMOVE_ME}"
      "res = PEER_STATUS_REMOVE_ME \<longleftrightarrow> peer_state p1 = PEER_ERROR \<or> peer_state p1 = PEER_DISCONNECTED"
      using peer_owner.peer_update_ok [OF own Cons.prems(1,2), of r ?w] by blast
    have bits: "(PEER_STATUS_REMOVE_ME AND res = 0) = (res \<noteq> PEER_STATUS_REMOVE_ME)"
      using p1(4) by (auto simp: PEER_STATUS_REMOVE_ME_def PEER_STATUS_NEED_OUTPUT_def)
    show ?thesis
    proof (cases "res = PEER_STATUS_REMOVE_ME")
      case True
      then show ?thesis using e Selected p1 bits by simp
    next
      case False
      obtain r' p' where "pump_peer_state_machine cb p1 False res es = Some (r', p')" "peer_ok p'" "U (peer.more p')"
        "r' = Some 0 \<longrightarrow> peer_state p' = PEER_ERROR \<or> peer_state p' = PEER_DISCONNECTED"
        "r' \<noteq> Some 0 \<longrightarrow> r' = None \<or> r' = Some (- 1) \<and> Select_error \<in> snd ` set es"
        using Cons.IH [OF p1(2,3), of False res] Cons.prems(3) unfolding list.pred_inject by blast
      then show ?thesis using e Selected p1(1) bits False by auto
    qed
  qed
qed

lemma destroy_frees:
  assumes "transport_ok p"
  shows "\<exists>p'. peer_destroy p = Some p' \<and> (\<forall>a. deref (heap p') a = None) \<and> \<not> valid (inbuf p')"
  using peer_owner.peer_destroy_ok [OF quiet_owner [OF example_host_ok] assms] .

section \<open>Properties of the controller\<close>

text \<open>
  Claim C12: a controller session with the debug channel off is safe. Whatever the target sends and whatever the socket,
  the allocator and the operating system do, the loop handles every event: no callback gets
  stuck and no freed buffer is touched. It returns 0 only with the peer in ERROR or
  DISCONNECTED, and -1 only after a failed \<^verbatim>\<open>select\<close>. The table of files and the arguments keep
  their form, and destroying the peer then frees every buffer. The debug bit of the log bits must be clear:
  with it, a write request with a bad handle makes the file server read through a null pointer.
\<close>
theorem controller_session_safe:
  assumes "posix_ok os" and "list_all (\<lambda>(host, _). host_ok host) es" and "peer_ok p" and "ctl_data p"
    and "RL_DEBUG AND bits = 0"
  shows "\<exists>r p' p''. pump_peer_state_machine (\<lambda>host. controller_callbacks host os (RL_DEBUG AND bits \<noteq> 0)) p True 0 es = Some (r, p') \<and>
           peer_ok p' \<and> ctl_data p' \<and>
           (r = Some 0 \<longrightarrow> peer_state p' = PEER_ERROR \<or> peer_state p' = PEER_DISCONNECTED) \<and>
           (r \<noteq> Some 0 \<longrightarrow> r = None \<or> r = Some (- 1) \<and> Select_error \<in> snd ` set es) \<and>
           peer_destroy p' = Some p'' \<and> (\<forall>a. deref (heap p'') a = None) \<and> \<not> valid (inbuf p'')"
proof -
  have "peer_owner host (controller_callbacks host os False) owner_data" if "host_ok host" for host
    using that assms(1) by (rule controller_owner)
  then obtain r p' where p': "pump_peer_state_machine (\<lambda>host. controller_callbacks host os False) p True 0 es = Some (r, p')"
    "peer_ok p'" "ctl_data p'" "r = Some 0 \<longrightarrow> peer_state p' = PEER_ERROR \<or> peer_state p' = PEER_DISCONNECTED"
    "r \<noteq> Some 0 \<longrightarrow> r = None \<or> r = Some (- 1) \<and> Select_error \<in> snd ` set es"
    using pump_ok [where cb = "\<lambda>host. controller_callbacks host os False" and U = owner_data and p = p and es = es
        and first = True and status = 0] assms(2-4) unfolding owner_data_more by blast
  then show ?thesis using destroy_frees [of p'] assms(5) by (auto simp: peer_ok_def)
qed

lemma example_controller_data: "ctl_data example_controller" "peer_ok example_controller"
  using example_controller_ok(2) example_peer_ok(3)
  by (auto simp: ctl_data_def RL_MAX_FILE_HANDLES_def c_argument_def peer_ok_def)
   (simp_all add: example_controller_def example_peer_def peer.defs controller.defs iinv_def c_argument_def)

theorem controller_session_safe_witness:
  "\<exists>r p'. pump_peer_state_machine (\<lambda>host. controller_callbacks host example_os (RL_DEBUG AND RL_CONSOLE \<noteq> 0)) example_controller True 0
            [(example_host, Selected True True), (example_host, Select_error)] = Some (r, p') \<and> ctl_data p'"
proof -
  have "RL_DEBUG AND RL_CONSOLE = 0" by (simp add: RL_DEBUG_def RL_CONSOLE_def)
  from controller_session_safe [OF example_os_ok _ example_controller_data(2,1) this,
      of "[(example_host, Selected True True), (example_host, Select_error)]"] example_host_ok
  show ?thesis by (simp del: pump_peer_state_machine.simps) blast
qed

lemma launch_size:
  assumes "valid_string exe" and "valid_string args"
  shows "valid_body (Launch_executable_request exe args)" "msg_size (RL_MSG_INIT (Launch_executable_request exe args)) \<le> 8192"
  using assms
  by (simp_all add: valid_body_def valid_string_def msg_size_def fixed_of_def var_of_def layouts_def msg_fields_def
      RL_MSG_INIT_def wire_string_def)

text \<open>
  Claim C22: a handshake of the right major version makes the controller launch the program.
  The peer becomes CONNECTED and exactly one message is queued, the request with the
  executable and the arguments joined by spaces and cut to 254 bytes; the controller then
  waits for the launch. Its file table and its result do not change.
\<close>
theorem handshake_launches:
  assumes "transport_ok p" and "peer_state p = PEER_WAIT_HANDSHAKE" and "init_mode p = PEER_INIT_CONTROLLER"
    and "mallocs (heap p) = []" and "ctl_data p" and "valid_string (executable p)"
  shows "\<exists>p'. invoke_action host (controller_callbacks host os debug) p PEER_ACTION_RECEIVE_HANDSHAKE
                (Some (RL_MSG_INIT (Handshake_request RLAUNCH_VER_MAJOR mnr node name ver pw))) = Some p' \<and>
           peer_state p' = PEER_CONNECTED \<and> ctl_state p' = CONTROLLER_WAIT_EXECUTABLE_LAUNCHED \<and>
           out_text p' = out_text p @ wire_msg (RL_MSG_INIT
             (Launch_executable_request (executable p) (take 254 (spaced True (arguments p))))) \<and>
           handles p' = handles p \<and> ctl_result p' = ctl_result p"
proof -
  let ?q = "p\<lparr>peer_state := PEER_CONNECTED\<rparr>" and ?t = "take 254 (spaced True (arguments p))"
  let ?m = "RL_MSG_INIT (Launch_executable_request (executable p) ?t)"
  have a: "list_all c_argument (arguments p)" using assms(5) by (simp add: ctl_data_def)
  have t: "arguments_text (arguments p) = Some ?t" using a by (rule arguments_text_eq)
  have "valid_string ?t" using spaced_nul_free [OF a, of True] by (simp add: valid_string_def nul_free_take)
  from launch_size [OF assms(6) this] have v: "valid_body (body ?m)" "msg_size ?m \<le> 8192" by (simp_all add: RL_MSG_INIT_def)
  have "\<exists>p'. peer_transmit_message host ?q ?m = Some (0, p') \<and> transport_ok p' \<and> queued ?q p' \<and>
      out_text p' = out_text ?q @ wire_msg ?m"
    using assms by (intro transmit_connected v) simp_all
  then obtain p' where p': "peer_transmit_message host ?q ?m = Some (0, p')" "queued ?q p'"
    "out_text p' = out_text ?q @ wire_msg ?m" by blast
  have o: "out_text ?q = out_text p" "out_text (p'\<lparr>ctl_state := CONTROLLER_WAIT_EXECUTABLE_LAUNCHED\<rparr>) = out_text p'"
    by (simp_all add: out_text_def queue_of_def pend_def)
  have f: "peer_state p' = PEER_CONNECTED" "handles p' = handles p" "ctl_result p' = ctl_result p"
    using p'(2) more_fields(1,9) [of p' ?q] more_ctl(1,5) [of p' ?q] by (simp_all add: queued_def)
  show ?thesis
    using p' o f t assms(2,3)
    by (simp add: invoke_action_def dispatch_def on_receive_handshake_def RL_MSG_INIT_def [of "Handshake_request _ _ _ _ _ _"]
        peer_set_state_def controller_callbacks_def ctl_on_connected_def)
qed

theorem handshake_launches_witness:
  "\<exists>p'. invoke_action example_host (controller_callbacks example_host example_os False)
          (example_controller\<lparr>peer_state := PEER_WAIT_HANDSHAKE, init_mode := PEER_INIT_CONTROLLER\<rparr>)
          PEER_ACTION_RECEIVE_HANDSHAKE
          (Some (RL_MSG_INIT (Handshake_request RLAUNCH_VER_MAJOR 0 [] [] [] []))) = Some p' \<and>
        out_text p' = out_text example_controller @
          wire_msg (RL_MSG_INIT (Launch_executable_request (lit ''demo'') (lit ''a b'')))"
proof -
  let ?p = "example_controller\<lparr>peer_state := PEER_WAIT_HANDSHAKE, init_mode := PEER_INIT_CONTROLLER\<rparr>"
  have e: "executable ?p = lit ''demo''" "arguments ?p = [lit ''a'', lit ''b'']"
    by (simp_all add: example_controller_def example_peer_def peer.defs controller.defs)
  have h: "transport_ok ?p" "ctl_data ?p" "mallocs (heap ?p) = []" "valid_string (executable ?p)"
    using example_controller_ok(2) example_controller_data(1) unfolding e(1)
    by (simp_all add: ctl_data_def valid_string_def transport_ok_def tinv_def) (simp add: example_peer_def)
  have o: "out_text ?p = out_text example_controller" by (simp add: out_text_def queue_of_def pend_def)
  show ?thesis
    using handshake_launches [OF h(1) _ _ h(3,2,4), of example_host example_os False 0 "[]" "[]" "[]" "[]"] e o
    by (auto simp: RL_MSG_INIT_def)
qed

text \<open>
  Claim C23: the end of the program ends the session with its return code. When the bytes of an
  EXECUTABLE_DONE request are delivered to a connected controller that has launched the
  program, the code is stored as the controller's result and the peer goes to ERROR, so the
  loop ends; nothing is sent. A LAUNCH_EXECUTABLE answer moves the controller to serving and
  keeps the connection. In any other controller state both only set the controller to ERROR.
\<close>
theorem executable_done_result:
  assumes "peer_state p = PEER_CONNECTED"
    and "mread (io_mem (inbuf p)) c (msg_size m) = wire_msg m"
    and "m = RL_MSG_INIT (Executable_done_request code) \<or> m = RL_MSG_INIT Launch_executable_answer"
  shows "peer_deliver_incoming host (controller_callbacks host os debug) p c (msg_size m) =
           (let q = p\<lparr>last_activity := host_now host\<rparr>
            in Some (0,
              if ctl_state p = CONTROLLER_FILE_SERVING \<or> ctl_state p = CONTROLLER_WAIT_EXECUTABLE_LAUNCHED
              then (if m = RL_MSG_INIT Launch_executable_answer then q\<lparr>ctl_state := CONTROLLER_FILE_SERVING\<rparr>
                    else q\<lparr>ctl_result := code, peer_state := PEER_ERROR\<rparr>)
              else q\<lparr>ctl_state := CONTROLLER_ERROR\<rparr>))"
proof -
  have v: "valid_body (body m)" "msg_size m < 100" "rl_msg_kind_of (as_sent m) \<noteq> 3" "body (as_sent m) = body m"
    using assms(3)
    by (auto simp: RL_MSG_INIT_def valid_body_def msg_size_def fixed_of_def var_of_def layouts_def msg_fields_def
        as_sent_def rl_msg_kind_of_def)
  have "rl_decode_msg (host_be host) (io_mem (inbuf p)) c (int (msg_size m)) = Some (as_sent m)"
    using v(1,2) assms(2) by (intro rl_decode_msg_wire) simp_all
  then show ?thesis
    using v(3,4) assms(1,3)
    by (auto simp: peer_deliver_incoming_def invoke_action_def dispatch_def on_receive_message_def Let_def
        controller_callbacks_def on_message_received_def RL_MSG_INIT_def set_state_quiet)
qed

theorem executable_done_result_witness:
  "\<exists>p'. peer_deliver_incoming example_host (controller_callbacks example_host example_os False)
          (example_controller\<lparr>inbuf := (inbuf example_controller)\<lparr>io_mem :=
             mwrite (\<lambda>_. 0) 0 (wire_msg (RL_MSG_INIT (Executable_done_request 20)))\<rparr>\<rparr>) 0
          (msg_size (RL_MSG_INIT (Executable_done_request 20))) = Some (0, p') \<and>
        ctl_result p' = 20 \<and> peer_state p' = PEER_ERROR"
proof -
  let ?m = "RL_MSG_INIT (Executable_done_request 20)"
  let ?p = "example_controller\<lparr>inbuf := (inbuf example_controller)\<lparr>io_mem := mwrite (\<lambda>_. 0) 0 (wire_msg ?m)\<rparr>\<rparr>"
  have c: "peer_state ?p = PEER_CONNECTED" "mread (io_mem (inbuf ?p)) 0 (msg_size ?m) = wire_msg ?m"
    by (simp_all add: mem_simps)
  show ?thesis
    using executable_done_result [OF c, of 20 example_host example_os False] by (simp add: RL_MSG_INIT_def)
qed

section \<open>Properties of the command line\<close>

text \<open>The options with a value, as they are written on the command line.\<close>

datatype option_word = Fsroot cstring | Port cstring | Log cstring

fun option_words :: "option_word \<Rightarrow> cstring list" where
  "option_words (Fsroot r) = [lit ''-fsroot'', r]"
| "option_words (Port p) = [lit ''-port'', p]"
| "option_words (Log l) = [lit ''-log'', l]"

fun set_option :: "options \<Rightarrow> option_word \<Rightarrow> options" where
  "set_option o1 (Fsroot r) = o1\<lparr>fsroot := r\<rparr>"
| "set_option o1 (Port p) = o1\<lparr>peer_port := p\<rparr>"
| "set_option o1 (Log l) =
     (case the (rl_toggle_log_bits Posix l (log_bits o1, opt_log o1)) of (bits, out) \<Rightarrow> o1\<lparr>log_bits := bits, opt_log := out\<rparr>)"

text \<open>The command line is always read: the complaint about a log letter can be printed.\<close>

lemma log_message_some: "format_text plat fmt args = Some out \<Longrightarrow> \<exists>st'. rl_log_message plat fmt args st = Some st'"
  using log_writer.format_message_text [of plat fmt args st] by (simp add: rl_log_message_def)

lemma format_c_some: "\<exists>out. format_text plat (lit ''Invalid log bit: %c'') [AInt w] = Some out"
proof -
  have "parse_spec (lit ''c'') = (False, 32, 0, [99])" by (simp add: parse_spec_def rl_isdigit_def)
  moreover have "\<exists>v. format_conv plat 99 False 0 32 [AInt w] collect_writer (lit ''Invalid log bit: '') = Some ([], lit ''Invalid log bit: '' @ v)"
    by (simp add: format_conv_def format_string_plain)
  ultimately show ?thesis
    using format_text_step [of "lit ''Invalid log bit: ''" "lit ''c''" False 32 0 99 "[]" plat "[AInt w]" "[]"]
      format_text_literal [of "[]" plat "[]"] by (auto simp: is_percent_def)
qed

lemma toggle_some: "\<exists>r. rl_toggle_log_bits plat argument bl = Some r"
proof (induction argument arbitrary: bl)
  case (Cons c argument)
  have "\<exists>r. toggle_log_ch plat c bl = Some r"
    using log_message_some format_c_some by (cases bl) (fastforce simp: toggle_log_ch_def Let_def)
  then show ?case using Cons.IH by auto
qed simp

lemma parse_options:
  assumes "\<not> options_done o1"
  shows "parse_args (concat (map option_words ws) @ as) o1 = parse_args as (foldl set_option o1 ws)"
  using assms
proof (induction ws arbitrary: o1)
  case Nil
  then show ?case by simp
next
  case (Cons w ws)
  show ?case
  proof (cases w)
    case (Log l)
    obtain bits out where "rl_toggle_log_bits Posix l (log_bits o1, opt_log o1) = Some (bits, out)" using toggle_some by fastforce
    then show ?thesis using Cons Log by simp
  qed (use Cons in simp_all)
qed

lemma foldl_set_option [simp]:
  "peer_hostname (foldl set_option o1 ws) = peer_hostname o1" "opt_executable (foldl set_option o1 ws) = opt_executable o1"
  "opt_arguments (foldl set_option o1 ws) = opt_arguments o1" "options_done (foldl set_option o1 ws) = options_done o1"
proof (induction ws arbitrary: o1)
  case (Cons w ws)
  { case 1 then show ?case using Cons by (cases w) (simp_all add: split_def) }
  { case 2 then show ?case using Cons by (cases w) (simp_all add: split_def) }
  { case 3 then show ?case using Cons by (cases w) (simp_all add: split_def) }
  { case 4 then show ?case using Cons by (cases w) (simp_all add: split_def) }
qed simp_all

lemma parse_arguments:
  assumes "options_done o1" and "peer_hostname o1 \<noteq> None" and "opt_executable o1 \<noteq> None"
  shows "parse_args as o1 =
           Some (if as = [] \<or> length (opt_arguments o1) + length as \<le> 16
                 then Inr (o1\<lparr>opt_arguments := opt_arguments o1 @ as\<rparr>) else Inl ())"
  using assms
proof (induction as arbitrary: o1)
  case Nil
  then show ?case by simp
next
  case (Cons a as)
  then show ?case by (cases as) auto
qed

text \<open>The options at the start of \<^verbatim>\<open>main\<close>: only the console channel is logged.\<close>

definition initial_options :: options where
  "initial_options =
     \<lparr>peer_hostname = None, peer_port = lit ''7001'', fsroot = [], opt_executable = None, opt_arguments = [],
      log_bits = 16, opt_log = \<lparr>log_buffer = (\<lambda>_. 0), log_cursor = 0, log_out = []\<rparr>, options_done = False\<rparr>"

text \<open>
  Claim C28: the command line is read as the usage text says. From options in any order, the
  host, the executable and the arguments of the program, the parser takes exactly these
  values, a later root or port winning over an earlier one and the log letters toggling the
  channels one after the other. After the host nothing is an option any
  more: an executable or an argument that looks like one is taken as it stands. With more
  than 16 arguments the usage text is printed.
\<close>
theorem command_line_roundtrip:
  assumes "\<not> options_done o1" and "peer_hostname o1 = None" and "opt_executable o1 = None" and "opt_arguments o1 = []"
    and "host \<notin> {lit ''-fsroot'', lit ''-port'', lit ''-log''}"
  shows "parse_args (concat (map option_words ws) @ host # exe # as) o1 =
           Some (if length as \<le> 16
                 then Inr ((foldl set_option o1 ws)
                        \<lparr>peer_hostname := Some host, opt_executable := Some exe, opt_arguments := as, options_done := True\<rparr>)
                 else Inl ())"
proof -
  let ?o = "foldl set_option o1 ws"
  let ?o1 = "?o\<lparr>peer_hostname := Some host, options_done := True\<rparr>"
  let ?o2 = "?o1\<lparr>opt_executable := Some exe, options_done := True\<rparr>"
  have "parse_args (host # exe # as) ?o = parse_args (exe # as) ?o1" using assms by simp
  also have "\<dots> = parse_args as ?o2" using assms(3) by (cases as) simp_all
  also have "\<dots> = Some (if as = [] \<or> length (opt_arguments ?o2) + length as \<le> 16
                        then Inr (?o2\<lparr>opt_arguments := opt_arguments ?o2 @ as\<rparr>) else Inl ())"
    by (rule parse_arguments) simp_all
  finally show ?thesis using parse_options [OF assms(1)] assms(4) by simp
qed

theorem command_line_roundtrip_witness:
  "parse_args [lit ''-port'', lit ''80'', lit ''-log'', lit ''dc'', lit ''amiga'', lit ''run'', lit ''-port''] initial_options =
     Some (Inr (initial_options\<lparr>peer_port := lit ''80'', log_bits := RL_DEBUG, peer_hostname := Some (lit ''amiga''),
       opt_executable := Some (lit ''run''), opt_arguments := [lit ''-port''], options_done := True\<rparr>))"
proof -
  have "rl_toggle_log_bits Posix (lit ''dc'') (16, l) = Some (RL_DEBUG, l)" for l
    by (simp add: toggle_log_ch_def log_bit_def RL_DEBUG_def RL_CONSOLE_def)
  then show ?thesis
    using command_line_roundtrip [of initial_options "lit ''amiga''" "[Port (lit ''80''), Log (lit ''dc'')]" "lit ''run''" "[lit ''-port'']"]
    by (simp add: initial_options_def)
qed

lemma root_path_eq:
  assumes "nul_free root" and "root = [] \<Longrightarrow> nul_free cwd"
  defines "path \<equiv> (if root = [] then cwd else take 259 root)"
  shows "root_path root cwd = Some (if path \<noteq> [] \<and> last path = of_char CHR ''/'' then butlast path else path)"
  using assms(1) copied_eq [of root 260] unfolding path_def
  by (auto simp: root_path_def last_conv_nth butlast_conv_take)

text \<open>
  What \<^verbatim>\<open>main\<close> sets up is fit for a session. With a host and an executable on the
  command line, the controller starts in INITIAL with sixteen free slots and result 0; the
  root path is the given one (cut to 259 bytes) or the working directory, less one slash at
  the end, and a requested file is looked up under it. Without a host or an executable there
  is no session.
\<close>
theorem setup_ready:
  assumes "nul_free (fsroot opts)" and "nul_free cwd" and "list_all c_argument (opt_arguments opts)"
  defines "path \<equiv> (if fsroot opts = [] then cwd else take 259 (fsroot opts))"
  shows "case setup_controller p opts cwd of
           None \<Rightarrow> peer_hostname opts = None \<or> opt_executable opts = None
         | Some c \<Rightarrow> peer_hostname opts \<noteq> None \<and> opt_executable opts = Some (executable c) \<and>
             ctl_data c \<and> arguments c = opt_arguments opts \<and> ctl_state c = CONTROLLER_INITIAL \<and> ctl_result c = 0 \<and>
             peer.truncate c = peer.truncate p \<and> find_slot (handles c) 0 = Some 0 \<and>
             (\<forall>h\<in>set (handles c). fh_handle h = 0) \<and>
             native_path (root_handle c) =
               (if path \<noteq> [] \<and> last path = of_char CHR ''/'' then butlast path else path)"
proof -
  have n: "nul_free (lit ''(virtual input)'')" "nul_free (lit ''(virtual output)'')" by simp_all
  have v: "copied 260 (lit ''(virtual input)'') = Some (lit ''(virtual input)'')"
    "copied 260 (lit ''(virtual output)'') = Some (lit ''(virtual output)'')"
    using copied_eq [OF n(1), of 260] copied_eq [OF n(2), of 260] by simp_all
  note r = root_path_eq [OF assms(1,2), folded path_def]
  show ?thesis
  proof (cases "peer_hostname opts = None \<or> opt_executable opts = None")
    case True
    then show ?thesis using r v by (auto simp: setup_controller_def split: bind_splits)
  next
    case False
    then obtain h exe where "peer_hostname opts = Some h" "opt_executable opts = Some exe" by auto
    then show ?thesis
      using r v assms(3)
      by (simp add: setup_controller_def ctl_data_def RL_MAX_FILE_HANDLES_def new_filehandle_def peer.truncate_def numeral_eq_Suc)
  qed
qed

theorem setup_ready_witness:
  "\<exists>c. setup_controller example_controller
          (initial_options\<lparr>peer_hostname := Some (lit ''amiga''), opt_executable := Some (lit ''run''), fsroot := lit ''/tmp/''\<rparr>) [] = Some c \<and>
       native_path (root_handle c) = lit ''/tmp'' \<and> ctl_data c"
  using setup_ready [of "initial_options\<lparr>peer_hostname := Some (lit ''amiga''), opt_executable := Some (lit ''run''), fsroot := lit ''/tmp/''\<rparr>"
      "[]" example_controller]
  by (auto simp: initial_options_def split: option.splits)

end
