(* ===== verification/Rl_Service.thy ===== *)
theory Rl_Service
  imports Rl_File_Server_Win Rl_Controller
begin

unbundle bit_operations_syntax

text \<open>
  The table of open files as the code uses it, on both systems, over any sequence of requests.
\<close>

section \<open>The type of a slot\<close>

text \<open>
  A slot in use is a directory, without a descriptor and without a size, or a file with a
  descriptor.
\<close>

definition typed_handle :: "rl_filehandle \<Rightarrow> bool" where
  "typed_handle h \<longleftrightarrow>
     fh_handle h = 0 \<or>
     fh_type h = RL_NODE_TYPE_DIRECTORY \<and> fh_handle h = - 1 \<and> fh_size h = 0 \<or>
     fh_type h = RL_NODE_TYPE_FILE \<and> fh_handle h \<noteq> - 1"

definition typed_table :: "'w controller \<Rightarrow> bool" where
  "typed_table p \<longleftrightarrow> length (handles p) = RL_MAX_FILE_HANDLES \<and> list_all typed_handle (handles p)"

lemma typed_handle_fields [simp]:
  "typed_handle (h\<lparr>fh_handle := 0\<rparr>)" "typed_handle (h\<lparr>dir_handle := d\<rparr>) = typed_handle h"
  "typed_handle (h\<lparr>native_path := s\<rparr>) = typed_handle h"
  by (simp_all add: typed_handle_def)

lemma typed_table_set:
  assumes "typed_table p" and "\<And>x. typed_handle x \<Longrightarrow> typed_handle (f x)"
  shows "typed_table (set_handle p h f)"
proof (cases h)
  case (Slot i)
  then show ?thesis
    using assms by (cases "i < length (handles p)") (auto simp: typed_table_def list_all_length nth_list_update list_update_beyond)
qed (use assms in \<open>simp_all add: typed_table_def\<close>)

lemma typed_table_world [simp]: "typed_table (p\<lparr>world := w\<rparr>) = typed_table p"
  by (simp add: typed_table_def)

section \<open>What the handlers keep\<close>

text \<open>
  The outcome of a handler: if it returns, the property holds. The locale is what a property of
  the table needs to be kept by the handlers that neither open nor close a file: it is about the
  controller's own data, but not about the world and the searches in directories.
\<close>

definition leaves_with :: "('w controller \<Rightarrow> bool) \<Rightarrow> (int \<times> 'w controller) option \<Rightarrow> bool" where
  "leaves_with P r \<longleftrightarrow> (\<forall>rc q. r = Some (rc, q) \<longrightarrow> P q)"

lemma leaves_map: "leaves_with P r \<Longrightarrow> leaves_with P (do { (a, q) \<leftarrow> r; Some (f a, q) })"
  by (auto simp: leaves_with_def bind_eq_Some_conv)

lemma answers_arrays [simp]:
  "arrays_ok (Error_answer c)" "arrays_ok (Open_handle_answer a b t)" "arrays_ok Write_file_answer" "arrays_ok (Find_next_file_answer e ty s z)"
  by (simp_all add: arrays_ok_def)

lemma read_arrays: "length bs \<le> 4096 \<Longrightarrow> arrays_ok (Read_file_answer bs)"
  by (simp add: arrays_ok_def valid_array_def)

locale handle_property =
  fixes P :: "'w controller \<Rightarrow> bool"
  assumes more: "peer.more q = peer.more p \<Longrightarrow> P q = P p"
    and world [simp]: "P (p\<lparr>world := w\<rparr>) = P p"
    and search: "P p \<Longrightarrow> P (set_handle p h (\<lambda>f. f\<lparr>dir_handle := d\<rparr>))"
begin

lemma kept_transmit:
  assumes "transport_ok p" and "same_peer p q" and "P q" and "arrays_ok b"
  shows "leaves_with P (peer_transmit_message host q ((RL_MSG_INIT b)\<lparr>hdr_seq := s\<rparr>))"
proof -
  have "transport_ok q" using assms(1,2) trunc_ok(1) [of q p] by (simp add: same_peer_def)
  from transmit_advances [OF this, of "(RL_MSG_INIT b)\<lparr>hdr_seq := s\<rparr>" host] assms(4)
  obtain q' where "peer_transmit_message host q ((RL_MSG_INIT b)\<lparr>hdr_seq := s\<rparr>) = Some (0, q')" "peer.more q' = peer.more q"
    by auto
  then show ?thesis using assms(3) more [of q' q] by (simp add: leaves_with_def)
qed

lemma kept_error: "transport_ok p \<Longrightarrow> same_peer p q \<Longrightarrow> P q \<Longrightarrow> leaves_with P (reply_with_error host q msg c)"
  unfolding reply_with_error_def by (intro leaves_map [where f = "\<lambda>_. 1"] kept_transmit) simp_all

lemma kept_read:
  assumes "transport_ok p" and "P p" and "posix_ok os"
  shows "leaves_with P (read_file_request host os p msg f hi lo n)"
proof -
  have "leaves_with P (do { (_, p) \<leftarrow> peer_transmit_message host (p\<lparr>world := w\<rparr>) ((RL_MSG_INIT (Read_file_answer bs))\<lparr>hdr_seq := hdr_seq msg\<rparr>); Some (0, p) })"
    if "os_pread os fd 4096 off w0 = (Some bs, w1)" for fd off w0 bs w1 w
  proof -
    have "length bs \<le> 4096" using assms(3) that unfolding posix_ok_def by (metis fst_conv option.simps(5))
    then show ?thesis using assms(1,2) by (intro leaves_map [where f = "\<lambda>_. 0"] kept_transmit [of p] read_arrays) simp_all
  qed
  then show ?thesis
    using kept_error [OF assms(1)] assms(2) by (auto simp: read_file_request_def split: option.split prod.split)
qed

lemma kept_write:
  assumes "transport_ok p" and "P p"
  shows "leaves_with P (write_file_request host os False p msg f d)"
  unfolding write_file_request_def Let_def
  using assms by (auto intro!: leaves_map [where f = "\<lambda>_. 0"] kept_transmit [of p])

lemma kept_find_next:
  assumes "transport_ok p" and "P p"
  shows "leaves_with P (find_next_file_request host os p msg f reset)"
proof -
  have "P (set_handle q h (\<lambda>f. f\<lparr>dir_handle := d\<rparr>))" if "P q" for q h d
    using that by (rule search)
  then show ?thesis
    using kept_error [OF assms(1)] kept_transmit [OF assms(1)] assms(2)
    by (auto simp: find_next_file_request_def Let_def simp del: set_handle.simps split: option.split prod.split dir_result.split)
qed

lemma win_kept_read:
  assumes "transport_ok p" and "P p" and "win_ok win"
  shows "leaves_with P (win_read_file_request host win p msg f hi lo n)"
proof -
  have "leaves_with P (do { (_, p) \<leftarrow> peer_transmit_message host (p\<lparr>world := w\<rparr>) ((RL_MSG_INIT (Read_file_answer bs))\<lparr>hdr_seq := hdr_seq msg\<rparr>); Some (0, p) })"
    if "ReadFile win fd (min 4096 (unat n)) w0 = (Some bs, w1)" for fd w0 bs w1 w
    using win_ok_read [OF assms(3) that] assms(1,2)
    by (intro leaves_map [where f = "\<lambda>_. 0"] kept_transmit [of p] read_arrays) simp_all
  then show ?thesis
    using kept_error [OF assms(1)] assms(2) by (auto simp: win_read_file_request_def Let_def split: option.split prod.split)
qed

lemma win_kept_write:
  assumes "transport_ok p" and "P p"
  shows "leaves_with P (win_write_file_request host win False p msg f d)"
  unfolding win_write_file_request_def Let_def
  using assms by (auto intro!: leaves_map [where f = "\<lambda>_. 0"] kept_transmit [of p])

text \<open>The loop over the entries changes the search of its handle only.\<close>

lemma kept_find_entry: "find_entry win p h reset = Some y \<Longrightarrow> P p \<longrightarrow> P (snd y)"
proof (induct rule: find_entry.raw_induct [where P = "\<lambda>win p h reset y. P p \<longrightarrow> P (snd y)", rotated, consumes 1, case_names step])
  case (step find_entry win p h reset y)
  have *: "P (set_handle q h (\<lambda>f. f\<lparr>dir_handle := d\<rparr>))" if "P q" for q h d
    using that by (rule search)
  define q where "q = (case dir_handle (the_handle p h) of
      Some d \<Rightarrow> set_handle (p\<lparr>world := FindClose win d (world p)\<rparr>) h (\<lambda>f. f\<lparr>dir_handle := None\<rparr>) | None \<Rightarrow> p)"
  have rec: "P (snd y)" if "find_entry win p' h False = Some y" "P p'" for p'
    using step(1) [OF that(1)] that(2) by blast
  show ?case
  proof
    assume t: "P p"
    have q: "P q" using t * by (auto simp: q_def simp del: set_handle.simps split: option.splits)
    have w: "P (q\<lparr>world := w\<rparr>)" "P (set_handle (q\<lparr>world := w\<rparr>) h (\<lambda>f. f\<lparr>dir_handle := d\<rparr>))" for w d
      using q * by (simp_all del: set_handle.simps)
    show "P (snd y)"
    proof (cases reset)
      case True
      obtain s where s: "formatted Posix MAX_PATH (lit ''%s'' @ 92 # lit ''*'') [AStr (native_path (the_handle q h))] = Some s"
        using search_path_some by blast
      obtain f w' where "FindFirstFile win s (world q) = (f, w')" by (cases "FindFirstFile win s (world q)")
      then show ?thesis
        using step(2) True s w rec
        by (cases f) (auto simp: q_def [symmetric] Let_def simp del: set_handle.simps split: if_splits)
    next
      case False
      then show ?thesis using step(2) t rec by (auto split: if_splits option.splits prod.splits)
    qed
  qed
qed

lemma win_kept_find_next:
  assumes "transport_ok p" and "P p" and "win_ok win"
  shows "leaves_with P (win_find_next_file_request host win p msg f reset)"
proof (cases "get_handle_from_id f")
  case None
  then show ?thesis using kept_error [OF assms(1)] assms(2) by (simp add: win_find_next_file_request_def)
next
  case (Some h)
  obtain r q where r: "find_entry win p h (reset \<noteq> 0) = Some (r, q)" "same_peer p q"
    using find_entry_ok [OF assms(3)] unfolding found_ok_def by blast
  then have "P q" using kept_find_entry [OF r(1)] assms(2) by simp
  then show ?thesis
    using Some r kept_error [OF assms(1)] kept_transmit [OF assms(1) r(2)] assms(2)
    by (auto simp: win_find_next_file_request_def split: sum.split option.split)
qed

end

interpretation typed: handle_property typed_table
proof
  fix p q :: "'a controller" and h d
  show "typed_table q = typed_table p" if "peer.more q = peer.more p" using more_ctl(1) [OF that] by (simp add: typed_table_def)
  show "typed_table (set_handle p h (\<lambda>f. f\<lparr>dir_handle := d\<rparr>))" if "typed_table p" using that by (rule typed_table_set) simp
qed simp

section \<open>The POSIX branches\<close>

lemma typed_close:
  assumes "transport_ok p" and "typed_table p"
  shows "leaves_with typed_table (close_handle_request host os p msg f)"
  using typed.kept_error [OF assms(1), of p] assms(2)
  by (auto simp: close_handle_request_def leaves_with_def Let_def simp del: set_handle.simps intro!: typed_table_set split: option.split)

lemma typed_open_node:
  assumes "typed_table p" and "fh_handle (handles p ! i) = 0" and "i < length (handles p)"
  shows "typed_table (snd (open_node os p i path mode))"
proof -
  obtain r q where o: "open_node os p i path mode = (r, q)" by (cases "open_node os p i path mode")
  have "typed_handle (handles q ! i)"
    using open_node_result [OF o assms(3,2)] by (auto simp: typed_handle_def split: sum.splits)
  moreover have "length (handles q) = length (handles p)" "\<forall>k. k \<noteq> i \<longrightarrow> handles q ! k = handles p ! k"
    using open_node_slot [of i p os path mode] o by (simp_all add: only_slot_def)
  ultimately show ?thesis using assms(1) o by (auto simp: typed_table_def list_all_length)
qed

lemma typed_open:
  assumes "transport_ok p" and "typed_table p"
  shows "leaves_with typed_table (open_handle_request host os p msg path mode)"
proof -
  obtain r q where m: "make_handle os p path mode = Some (r, q)" "same_peer p q"
    using make_handle_same [of os p path mode] by blast
  have "typed_table q"
  proof (cases "find_slot (handles p) 0")
    case None
    then show ?thesis using m(1) assms(2) by (auto simp: make_handle_def bind_eq_Some_conv)
  next
    case (Some i)
    obtain np where np: "fix_path 260 path (native_path (root_handle p)) = Some np" using fix_path_some [of 260 path] by auto
    obtain r' q' where o: "open_node os p i np mode = (r', q')" by (cases "open_node os p i np mode")
    then have "typed_table q'" using typed_open_node [OF assms(2), of i os np mode] find_slot_some [OF Some] by simp
    then show ?thesis
      using m(1) np o Some
      by (cases r') (auto simp: make_handle_def bind_eq_Some_conv simp del: set_handle.simps intro!: typed_table_set)
  qed
  then show ?thesis
    using m typed.kept_error [OF assms(1) m(2)] typed.kept_transmit [OF assms(1) m(2)] by (cases r) (simp_all add: open_handle_request_def)
qed

lemma typed_serve:
  assumes "transport_ok p" and "typed_table p" and "posix_ok os"
  shows "leaves_with typed_table (rl_file_serve host os False p msg)"
  unfolding rl_file_serve_def
  by (rule leaves_map [where f = "\<lambda>_. 0"])
    (use assms typed_open [OF assms(1,2)] typed.kept_read [OF assms] typed.kept_write [OF assms(1,2)] typed_close [OF assms(1,2)]
      typed.kept_find_next [OF assms(1,2)] typed.kept_transmit [OF assms(1)] in \<open>cases "body msg"; simp\<close>)

section \<open>The Windows branches\<close>

lemma win_typed_close:
  assumes "transport_ok p" and "typed_table p"
  shows "leaves_with typed_table (win_close_handle_request host win p msg f)"
  using typed.kept_error [OF assms(1), of p] assms(2)
  by (auto simp: win_close_handle_request_def leaves_with_def Let_def simp del: set_handle.simps intro!: typed_table_set split: option.split)

lemma win_typed_open_node:
  assumes "typed_table p"
  shows "typed_table (snd (win_open_node win p i path mode))"
proof -
  let ?E = "if mode AND RL_OPENFLAG_WRITE = 0
             then (case GetFileAttributes win path (world p) of (a, w) \<Rightarrow> (a, p\<lparr>world := w\<rparr>)) else (Some False, p)"
  have "typed_table (snd ?E)" using assms by (auto split: prod.splits)
  moreover obtain a q where E: "?E = (a, q)" by (rule prod.exhaust)
  ultimately have q: "typed_table q" by simp
  then have h: "length (handles q) = RL_MAX_FILE_HANDLES" "\<And>k. k < length (handles q) \<Longrightarrow> typed_handle (handles q ! k)"
    by (simp_all add: typed_table_def list_all_length)
  show ?thesis
    unfolding win_open_node_def E
    using h by (cases "i < length (handles q)")
      (auto simp: Let_def typed_table_def list_all_length nth_list_update list_update_beyond split: prod.splits option.splits bool.splits,
        auto simp: typed_handle_def)
qed

lemma win_typed_open:
  assumes "transport_ok p" and "typed_table p"
  shows "leaves_with typed_table (win_open_handle_request host beyond win p msg path mode)"
proof -
  obtain r q where m: "win_make_handle beyond win p path mode = Some (r, q)" "same_peer p q"
    using win_make_handle_same [of beyond win p path mode] by blast
  have "typed_table q"
  proof (cases "find_slot (handles p) 0")
    case None
    then show ?thesis using m(1) assms(2) by (auto simp: win_make_handle_def bind_eq_Some_conv)
  next
    case (Some i)
    obtain np where np: "win_fix_path beyond 260 path (native_path (root_handle p)) = Some np"
      using win_fix_path_some [of 260 beyond path] by auto
    obtain r' q' where o: "win_open_node win p i np mode = (r', q')" by (cases "win_open_node win p i np mode")
    then have "typed_table q'" using win_typed_open_node [OF assms(2), of win i np mode] by simp
    then show ?thesis
      using m(1) np o Some
      by (cases r') (auto simp: win_make_handle_def bind_eq_Some_conv simp del: set_handle.simps intro!: typed_table_set)
  qed
  then show ?thesis
    using m typed.kept_error [OF assms(1) m(2)] typed.kept_transmit [OF assms(1) m(2)] by (cases r) (simp_all add: win_open_handle_request_def)
qed

lemma win_typed_serve:
  assumes "transport_ok p" and "typed_table p" and "win_ok win"
  shows "leaves_with typed_table (win_file_serve host beyond win False p msg)"
  unfolding win_file_serve_def
  by (rule leaves_map [where f = "\<lambda>_. 0"])
    (use assms win_typed_open [OF assms(1,2)] typed.win_kept_read [OF assms] typed.win_kept_write [OF assms(1,2)]
      win_typed_close [OF assms(1,2)] typed.win_kept_find_next [OF assms] typed.kept_transmit [OF assms(1)] in \<open>cases "body msg"; simp\<close>)

section \<open>Any sequence of requests\<close>

text \<open>
  A file service: whatever the environment of the right kind, it answers every request and keeps
  the transport, the table and the launch.
\<close>

locale file_service =
  fixes env_ok :: "'e \<Rightarrow> bool"
    and serve :: "host \<Rightarrow> 'e \<Rightarrow> 'w controller \<Rightarrow> rl_msg \<Rightarrow> (int \<times> 'w controller) option"
  assumes keeps: "env_ok e \<Longrightarrow> transport_ok p \<Longrightarrow> typed_table p \<Longrightarrow>
      \<exists>rc q. serve host e p msg = Some (rc, q) \<and> advances p q \<and> typed_table q \<and> same_launch p q"

fun serve_all ::
  "(host \<Rightarrow> 'e \<Rightarrow> 'w controller \<Rightarrow> rl_msg \<Rightarrow> (int \<times> 'w controller) option) \<Rightarrow> host \<Rightarrow> 'e \<Rightarrow> rl_msg list \<Rightarrow> 'w controller \<Rightarrow> 'w controller option" where
  "serve_all serve host e [] p = Some p"
| "serve_all serve host e (m # ms) p = do { (_, p) \<leftarrow> serve host e p m; serve_all serve host e ms p }"

context file_service
begin

lemma keeps_all:
  "env_ok e \<Longrightarrow> transport_ok p \<Longrightarrow> typed_table p \<Longrightarrow>
     \<exists>q. serve_all serve host e ms p = Some q \<and> advances p q \<and> typed_table q \<and> same_launch p q"
proof (induction ms arbitrary: p)
  case Nil
  then show ?case by (simp add: advances_refl)
next
  case (Cons m ms)
  obtain rc q where q: "serve host e p m = Some (rc, q)" "advances p q" "typed_table q" "same_launch p q"
    using keeps [OF Cons.prems] by blast
  then obtain q' where "serve_all serve host e ms q = Some q'" "advances q q'" "typed_table q'" "same_launch q q'"
    using Cons.IH [OF Cons.prems(1), of q] by (auto simp: advances_def)
  then show ?case using q advances_trans [of p q q'] same_launch_trans [of p q q'] by auto
qed

end

interpretation posix_service: file_service posix_ok "\<lambda>host os. rl_file_serve host os False"
proof
  fix os :: "'a posix" and p :: "'a controller" and host msg
  assume a: "posix_ok os" "transport_ok p" "typed_table p"
  then show "\<exists>rc q. rl_file_serve host os False p msg = Some (rc, q) \<and> advances p q \<and> typed_table q \<and> same_launch p q"
    using serve_served [of p os host msg] typed_serve [of p os host msg] by (auto simp: served_def leaves_with_def)
qed

lemma win_serve_served:
  assumes "transport_ok p" and "win_ok win"
  shows "served p (win_file_serve host beyond win False p msg)"
proof -
  have c: "ctl_ok p" using assms(1) by (simp add: ctl_ok_def)
  have "served p (win_close_handle_request host win p msg f)" for f
    using c served_quiet [of p] serving.error [OF c, of p]
    by (cases "get_handle_from_id f") (simp_all add: win_close_handle_request_def ctl_ok_def Let_def)
  then show ?thesis by (intro serving.win_serve [OF c assms(2)]) simp_all
qed

interpretation windows_service: file_service "\<lambda>(beyond, win). win_ok win" "\<lambda>host (beyond, win). win_file_serve host beyond win False"
proof
  fix e :: "(nat \<Rightarrow> rl_uint8) \<times> 'a win32" and p :: "'a controller" and host msg
  assume a: "case e of (beyond, win) \<Rightarrow> win_ok win" "transport_ok p" "typed_table p"
  obtain beyond win where e: "e = (beyond, win)" by (cases e)
  then show "\<exists>rc q. (case e of (beyond, win) \<Rightarrow> win_file_serve host beyond win False) p msg = Some (rc, q) \<and>
      advances p q \<and> typed_table q \<and> same_launch p q"
    using a win_serve_served [of p win host beyond msg] win_typed_serve [of p win host beyond msg] by (auto simp: served_def leaves_with_def)
qed

text \<open>
  Claim C26: the table of open files keeps its type. Over any sequence of messages, on POSIX and on
  Windows, every slot that is in use is a directory without a descriptor and without a size, or
  a file with one, and the table keeps its 16 slots; every message is handled, and the launch and its result are
  untouched.
\<close>
theorem table_stays_typed:
  assumes "transport_ok p" and "typed_table p"
  shows "(posix_ok os \<longrightarrow> (\<exists>q. serve_all (\<lambda>host os. rl_file_serve host os False) host os ms p = Some q \<and> typed_table q \<and>
             transport_ok q \<and> same_launch p q)) \<and>
         (win_ok win \<longrightarrow> (\<exists>q. serve_all (\<lambda>host (beyond, win). win_file_serve host beyond win False) host (beyond, win) ms p = Some q \<and> typed_table q \<and>
             transport_ok q \<and> same_launch p q))"
  using posix_service.keeps_all [OF _ assms, of os host ms] windows_service.keeps_all [OF _ assms, of "(beyond, win)" host ms]
  by (auto simp: advances_def)

theorem table_stays_typed_witness:
  "\<exists>q. serve_all (\<lambda>host os. rl_file_serve host os False) example_host example_os
         [RL_MSG_INIT (Open_handle_request (lit ''x'') 1), RL_MSG_INIT (Close_handle_request 0)] example_controller = Some q \<and> typed_table q"
proof -
  have "typed_table example_controller"
    by (simp add: typed_table_def typed_handle_def example_handle_def RL_MAX_FILE_HANDLES_def list_all_length nth_Cons')
  from table_stays_typed [OF example_controller_ok(2) this] example_os_ok show ?thesis by blast
qed

end
