(* ===== verification/Rl_Target.thy ===== *)
theory Rl_Target
  imports Rl_Streams
begin

unbundle bit_operations_syntax

text \<open>
  The target: it accepts connections, keeps the list of its peers, serves their file systems
  and starts programs. It models \<^verbatim>\<open>target.c\<close>, for the Amiga and for the other platforms, where
  launching is faked.

  The peers are a linked list in memory: \<open>nodes\<close> maps the addresses that are allocated to the
  peer there, with its socket and the link to the next one; reading through a freed or null
  pointer, and a list that does not end, give \<open>None\<close>. The operating system is the argument of
  the operations: what \<^verbatim>\<open>accept\<close>, \<^verbatim>\<open>WaitSelect\<close>, the allocator and the calls of the Amiga return.
\<close>

section \<open>Launching\<close>

text \<open>\<open>TBL\<close> and the index of the peer.\<close>

definition device_name :: "rl_amigafs \<Rightarrow> cstring option" where
  "device_name peer = formatted Amiga 32 (lit ''TBL%d'') [AInt (word_of_int (peer_index peer))]"

text \<open>
  The memory of an order: \<open>order_mem\<close> are the addresses of the launch messages that \<open>async_spawn\<close> has
  allocated and neither freed nor handed over to a launcher. Freeing another address is \<open>None\<close>.
\<close>

definition RL_FREE_ORDER :: "rl_amigafs \<Rightarrow> addr \<Rightarrow> rl_amigafs option" where
  "RL_FREE_ORDER fs a = (if a \<in> set (order_mem fs) then Some (fs\<lparr>order_mem := remove1 a (order_mem fs)\<rparr>) else None)"

definition cleanup_spawn :: "host \<Rightarrow> rl_amigafs \<Rightarrow> addr \<Rightarrow> launch_msg \<Rightarrow> (int \<times> rl_amigafs) option" where
  "cleanup_spawn host fs a msg = do {
     fs \<leftarrow> (if root_lock msg \<noteq> 0 then rl_amigafs_free_lock host fs (root_lock msg) else Some fs);
     fs \<leftarrow> RL_FREE_ORDER fs a;
     Some (1, fs)
   }"

definition async_spawn :: "host \<Rightarrow> rl_amigafs \<Rightarrow> cstring \<Rightarrow> cstring \<Rightarrow> (int \<times> rl_amigafs) option" where
  "async_spawn host fs cmd args =
     (case alloc_zeroed fs of
        (a, fs) \<Rightarrow>
          if a = 0 then Some (1, fs)
          else do {
            let fs = fs\<lparr>order_mem := a # order_mem fs\<rparr>;
            device \<leftarrow> device_name fs;
            command \<leftarrow> (if of_char CHR '':'' \<notin> set cmd
                        then formatted Amiga 128 (lit ''%s:%s'') [AStr device, AStr cmd]
                        else copied 128 cmd);
            arguments \<leftarrow> copied 256 args;
            input \<leftarrow> formatted Amiga 64 (lit ''%s:%s'') [AStr device, AStr RLAUNCH_VIRTUAL_INPUT_FILE];
            output \<leftarrow> formatted Amiga 64 (lit ''%s:%s'') [AStr device, AStr RLAUNCH_VIRTUAL_OUTPUT_FILE];
            (case rl_amigafs_alloc_root_lock fs SHARED_LOCK of
               (lock, fs) \<Rightarrow>
                 let msg = \<lparr>lm_peer_index = peer_index fs, command_path = command, input_path = input, output_path = output,
                            lm_arguments = arguments, root_lock = lock, result_code = 0\<rparr>
                 in case spawns fs of
                      True # rest \<Rightarrow> Some (0, fs\<lparr>spawns := rest, launched := launched fs @ [msg], order_mem := remove1 a (order_mem fs)\<rparr>)
                    | [] \<Rightarrow> cleanup_spawn host fs a msg
                    | False # rest \<Rightarrow> cleanup_spawn host (fs\<lparr>spawns := rest\<rparr>) a msg)
          })"

text \<open>
  The launcher process, as the sequence of its calls. \<open>dos\<close> is whether the library opens,
  \<open>open\<close> the result of opening a file, \<open>system\<close> the return code of the program. When the library
  does not open the order is never taken from the port.
\<close>

datatype dos_call =
    Open_file cstring
  | System_command cstring addr addr addr
  | UnLock_lock addr
  | Close_file addr
  | Reply_order launch_msg

definition cmd_launcher ::
  "bool \<Rightarrow> (cstring \<Rightarrow> addr) \<Rightarrow> (cstring \<Rightarrow> LONG) \<Rightarrow> launch_msg \<Rightarrow> dos_call list option" where
  "cmd_launcher dos open_file system_command msg =
     (if \<not> dos then Some []
      else do {
        let ihandle = open_file (input_path msg);
        let ohandle = open_file (output_path msg);
        cmdline \<leftarrow> (if lm_arguments msg \<noteq> []
                    then formatted Amiga 512 (lit ''%s %s'') [AStr (command_path msg), AStr (lm_arguments msg)]
                    else formatted Amiga 512 (lit ''%s'') [AStr (command_path msg)]);
        let result = system_command cmdline;
        Some ([Open_file (input_path msg), Open_file (output_path msg),
               System_command cmdline (root_lock msg) ihandle ohandle] @
              (if result = - 1 then [UnLock_lock (root_lock msg)] else []) @
              (if ihandle \<noteq> 0 then [Close_file ihandle] else []) @
              (if ohandle \<noteq> 0 then [Close_file ohandle] else []) @
              [Reply_order (msg\<lparr>result_code := (if result = - 1 then 1 else result)\<rparr>)])
      })"

definition on_launch_executable_request ::
  "host \<Rightarrow> rl_amigafs \<Rightarrow> rl_msg \<Rightarrow> cstring \<Rightarrow> cstring \<Rightarrow> (int \<times> rl_amigafs) option" where
  "on_launch_executable_request host peer msg path args = do {
     (spawn_result, peer) \<leftarrow> (if host_platform host = Amiga then async_spawn host peer path args else Some (0, peer));
     let answer = (if spawn_result = 0
                   then (RL_MSG_INIT Launch_executable_answer)\<lparr>hdr_seq := hdr_seq msg\<rparr>
                   else RL_MSG_INIT (Error_answer (neterror_code RL_NETERR_SPAWN_FAILURE)));
     peer_transmit_message host peer answer
   }"

definition target_on_message_received :: "host \<Rightarrow> rl_amigafs \<Rightarrow> rl_msg \<Rightarrow> (int \<times> rl_amigafs) option" where
  "target_on_message_received host peer msg =
     (case body msg of
        Launch_executable_request path args \<Rightarrow> on_launch_executable_request host peer msg path args
      | _ \<Rightarrow>
          if host_platform host = Amiga then rl_amigafs_process_network_message host peer msg
          else Some (1, peer))"

definition target_on_connected :: "rl_amigafs \<Rightarrow> (int \<times> rl_amigafs) option" where
  "target_on_connected peer = Some (0, peer)"

definition server_callbacks :: "host \<Rightarrow> rl_amigafs peer_callbacks" where
  "server_callbacks host = \<lparr>on_message = target_on_message_received host, on_connected = target_on_connected\<rparr>"

section \<open>The list of peers\<close>

record peer_node =
  nd_peer :: rl_amigafs
  nd_fd :: int
  nd_next :: addr

text \<open>
  \<open>peers\<close> is the head of the list, 0 when it is empty; \<open>process_port\<close> are the orders that came
  back from launchers. \<open>sockets_closed\<close> is the sequence of the sockets closed and \<open>destroyed\<close> the
  peers as they were when they were freed.
\<close>

record target =
  nodes :: "addr \<rightharpoonup> peer_node"
  peers :: addr
  peer_count :: int
  process_port :: "launch_msg list"
  sockets_closed :: "int list"
  destroyed :: "rl_amigafs list"

text \<open>The walk along the links, which all loops over the list take.\<close>

partial_function (option) peer_chain :: "(addr \<rightharpoonup> peer_node) \<Rightarrow> addr \<Rightarrow> (addr \<times> peer_node) list option" where
  "peer_chain ns head =
     (if head = 0 then Some []
      else Option.bind (ns head) (\<lambda>nd. Option.bind (peer_chain ns (nd_next nd)) (\<lambda>rest. Some ((head, nd) # rest))))"

definition add_peers_to_fd_set :: "(addr \<rightharpoonup> peer_node) \<Rightarrow> addr \<Rightarrow> (int \<times> int list \<times> int list) option" where
  "add_peers_to_fd_set ns head = do {
     cs \<leftarrow> peer_chain ns head;
     let fds = map (nd_fd \<circ> snd) cs;
     Some (fold max fds 0, fds,
           map (nd_fd \<circ> snd) (filter (\<lambda>(a, nd). update_result (nd_peer nd) AND PEER_STATUS_NEED_OUTPUT \<noteq> 0) cs))
   }"

section \<open>Accepting\<close>

record accept_env =
  acc_fd :: "int option"
  acc_inet :: bool
  acc_address :: "rl_uint32 \<times> rl_uint16"
  acc_peer :: addr
  acc_fs :: addr
  acc_zeroed :: rl_amigafs
  acc_port :: addr
  acc_entry_exists :: bool
  acc_entry :: addr

definition close_socket :: "int \<Rightarrow> target \<Rightarrow> target" where
  "close_socket fd t = t\<lparr>sockets_closed := sockets_closed t @ [fd]\<rparr>"

text \<open>
  \<open>peer_destroy\<close> on the peer of the socket \<open>fd\<close>: the socket is closed if that has closed it.
\<close>

definition release_peer :: "int \<Rightarrow> rl_amigafs \<Rightarrow> target \<Rightarrow> target option" where
  "release_peer fd peer t = do {
     gone \<leftarrow> peer_destroy peer;
     let t = t\<lparr>destroyed := destroyed t @ [gone]\<rparr>;
     Some (if fd_open gone then t else close_socket fd t)
   }"

definition accept_peer :: "host \<Rightarrow> target \<Rightarrow> accept_env \<Rightarrow> (addr \<times> target) option" where
  "accept_peer host t env =
     (case acc_fd env of
        None \<Rightarrow> Some (0, t)
      | Some fd \<Rightarrow>
          if \<not> acc_inet env \<or> acc_peer env = 0 \<or> (host_platform host = Amiga \<and> acc_fs env = 0)
          then Some (0, close_socket fd t)
          else do {
            (rc, peer, n) \<leftarrow> peer_init host (server_callbacks host) (acc_zeroed env) (Some (acc_address env))
                               PEER_INIT_TARGET (peer_count t);
            let t = t\<lparr>peer_count := n\<rparr>;
            if rc \<noteq> 0 then Some (0, close_socket fd t)
            else if host_platform host = Amiga
            then do {
              name \<leftarrow> device_name peer;
              (rc, peer) \<leftarrow> rl_amigafs_init peer name (acc_port env) (acc_entry_exists env) (acc_entry env);
              if rc \<noteq> 0
              then do {
                t \<leftarrow> release_peer fd peer t;
                Some (0, close_socket fd t)
              }
              else Some (acc_peer env,
                         t\<lparr>nodes := (nodes t)(acc_peer env \<mapsto> \<lparr>nd_peer = peer, nd_fd = fd, nd_next = 0\<rparr>)\<rparr>)
            }
            else Some (acc_peer env,
                       t\<lparr>nodes := (nodes t)(acc_peer env \<mapsto> \<lparr>nd_peer = peer, nd_fd = fd, nd_next = 0\<rparr>)\<rparr>)
          })"

section \<open>The loop\<close>

definition destroy_peer :: "host \<Rightarrow> target \<Rightarrow> addr \<Rightarrow> target option" where
  "destroy_peer host t a = do {
     nd \<leftarrow> nodes t a;
     let peer = (if host_platform host = Amiga then rl_amigafs_destroy (nd_peer nd) else nd_peer nd);
     t \<leftarrow> release_peer (nd_fd nd) peer t;
     Some (t\<lparr>nodes := (nodes t)(a := None)\<rparr>)
   }"

text \<open>
  The loop over the peers. \<open>nxt\<close> is the variable \<^verbatim>\<open>next\<close> as the round before has left it, which
  becomes \<^verbatim>\<open>prev\<close>.
\<close>

partial_function (option) update_peers ::
  "host \<Rightarrow> (int \<Rightarrow> bool) \<Rightarrow> (int \<Rightarrow> bool) \<Rightarrow> target \<Rightarrow> addr \<Rightarrow> addr \<Rightarrow> target option" where
  "update_peers host can_read can_write t nxt ci =
     (if ci = 0 then Some t
      else
        Option.bind (nodes t ci) (\<lambda>nd.
        Option.bind (peer_update host (server_callbacks host) (nd_peer nd) (can_read (nd_fd nd)) (can_write (nd_fd nd))) (\<lambda>sp.
        Option.bind
          (let t = t\<lparr>nodes := (nodes t)(ci \<mapsto> nd\<lparr>nd_peer := snd sp\<rparr>)\<rparr>; prev = nxt
           in if PEER_STATUS_REMOVE_ME AND fst sp \<noteq> 0
              then
                Option.bind
                  (if prev \<noteq> 0
                   then map_option (\<lambda>pn. t\<lparr>nodes := (nodes t)(prev \<mapsto> pn\<lparr>nd_next := nd_next nd\<rparr>)\<rparr>) (nodes t prev)
                   else Some (t\<lparr>peers := nd_next nd\<rparr>))
                  (\<lambda>t. destroy_peer host t ci)
              else Some t) (\<lambda>t.
        update_peers host can_read can_write t (nd_next nd) (nd_next nd)))))"

fun destroy_peers :: "host \<Rightarrow> target \<Rightarrow> addr list \<Rightarrow> target option" where
  "destroy_peers host t [] = Some t"
| "destroy_peers host t (a # as) = do {
     t \<leftarrow> destroy_peer host t a;
     destroy_peers host t as
   }"

fun serve_devices :: "host \<Rightarrow> addr list \<Rightarrow> target \<Rightarrow> (addr \<times> peer_node) list \<Rightarrow> target option" where
  "serve_devices host signals t [] = Some t"
| "serve_devices host signals t ((a, nd) # cs) = do {
     peer \<leftarrow> (if device_port (nd_peer nd) \<in> set signals
              then rl_amigafs_process_device_message host (nd_peer nd) else Some (nd_peer nd));
     serve_devices host signals (t\<lparr>nodes := (nodes t)(a \<mapsto> nd\<lparr>nd_peer := peer\<rparr>)\<rparr>) cs
   }"

text \<open>One order is taken from the port; the result goes to the first peer with its index.\<close>

definition notify_done :: "host \<Rightarrow> target \<Rightarrow> target option" where
  "notify_done host t =
     (case process_port t of
        [] \<Rightarrow> None
      | msg # rest \<Rightarrow> do {
          cs \<leftarrow> peer_chain (nodes t) (peers t);
          let t = t\<lparr>process_port := rest\<rparr>;
          (case find (\<lambda>(a, nd). peer_index (nd_peer nd) = lm_peer_index msg) cs of
             None \<Rightarrow> Some t
           | Some (a, nd) \<Rightarrow> do {
               (_, peer) \<leftarrow> peer_transmit_message host (nd_peer nd) (RL_MSG_INIT (Executable_done_request (result_code msg)));
               Some (t\<lparr>nodes := (nodes t)(a \<mapsto> nd\<lparr>nd_peer := peer\<rparr>)\<rparr>)
             })
        })"

text \<open>
  What happens in one round while the target waits and what it finds afterwards: what the
  programs do to the file systems, the orders that come back, the ports that were signalled,
  the sockets that are ready, and the connection to accept, if there is one.
\<close>

record serve_event =
  ev_programs :: "addr \<Rightarrow> rl_amigafs \<Rightarrow> rl_amigafs"
  ev_orders :: "launch_msg list"
  ev_signals :: "addr list"
  ev_process_signal :: bool
  ev_break :: bool
  ev_select_failed :: bool
  ev_readable :: "int list"
  ev_writable :: "int list"
  ev_connect :: "accept_env option"

definition wait :: "serve_event \<Rightarrow> target \<Rightarrow> target" where
  "wait ev t = t\<lparr>nodes := (\<lambda>a. map_option (\<lambda>nd. nd\<lparr>nd_peer := ev_programs ev a (nd_peer nd)\<rparr>) (nodes t a)),
                 process_port := process_port t @ ev_orders ev\<rparr>"

definition serve_signals :: "host \<Rightarrow> serve_event \<Rightarrow> target \<Rightarrow> target option" where
  "serve_signals host ev t =
     (if host_platform host = Amiga
      then do {
        cs \<leftarrow> peer_chain (nodes t) (peers t);
        t \<leftarrow> serve_devices host (ev_signals ev) t cs;
        if ev_process_signal ev then notify_done host t else Some t
      }
      else Some t)"

text \<open>
  One round of the loop; the result says whether there is another one. On POSIX systems the
  signal mask is cleared, so that there a break only shows as a failed \<^verbatim>\<open>select\<close>.
\<close>

definition serve_round :: "host \<Rightarrow> serve_event \<Rightarrow> target \<Rightarrow> (bool \<times> target) option" where
  "serve_round host ev t = do {
     (_, read_fds, write_fds) \<leftarrow> add_peers_to_fd_set (nodes t) (peers t);
     let read_fds = filter (\<lambda>fd. fd \<in> set (ev_readable ev)) read_fds;
     let write_fds = filter (\<lambda>fd. fd \<in> set (ev_writable ev)) write_fds;
     t \<leftarrow> serve_signals host ev (wait ev t);
     if (host_platform host \<noteq> Posix \<and> ev_break ev) \<or> ev_select_failed ev then Some (False, t)
     else
       (case ev_connect ev of
          None \<Rightarrow> map_option (Pair True) (update_peers host (\<lambda>fd. fd \<in> set read_fds) (\<lambda>fd. fd \<in> set write_fds) t 0 (peers t))
        | Some env \<Rightarrow> do {
            (new_peer, t) \<leftarrow> accept_peer host t env;
            if new_peer = 0 then Some (True, t)
            else do {
              nd \<leftarrow> nodes t new_peer;
              let t = t\<lparr>nodes := (nodes t)(new_peer \<mapsto> nd\<lparr>nd_next := peers t\<rparr>), peers := new_peer\<rparr>;
              map_option (Pair True)
                (update_peers host (\<lambda>fd. fd = nd_fd nd \<or> fd \<in> set read_fds) (\<lambda>fd. fd = nd_fd nd \<or> fd \<in> set write_fds)
                   t 0 (peers t))
            }
          })
   }"

text \<open>After the loop every peer is destroyed. The flag: whether the loop has ended.\<close>

fun serve :: "(host \<times> serve_event) list \<Rightarrow> target \<Rightarrow> (bool \<times> target) option" where
  "serve [] t = Some (False, t)"
| "serve ((host, ev) # es) t = do {
     (go_on, t) \<leftarrow> serve_round host ev t;
     if go_on then serve es t
     else do {
       cs \<leftarrow> peer_chain (nodes t) (peers t);
       map_option (Pair True) (destroy_peers host t (map fst cs))
     }
   }"

section \<open>The list and its update\<close>

fun linked :: "(addr \<rightharpoonup> peer_node) \<Rightarrow> addr \<Rightarrow> addr list \<Rightarrow> bool" where
  "linked ns h [] \<longleftrightarrow> h = 0"
| "linked ns h (a # as) \<longleftrightarrow> h = a \<and> a \<noteq> 0 \<and> (\<exists>nd. ns a = Some nd \<and> linked ns (nd_next nd) as)"

lemma chain_linked: "linked ns h as \<Longrightarrow> peer_chain ns h = Some (map (\<lambda>a. (a, the (ns a))) as)"
  by (induction as arbitrary: h) (auto simp: peer_chain.simps [of ns])

lemma linked_keep:
  assumes "linked ns h as" and "\<And>a nd. a \<in> set as \<Longrightarrow> ns a = Some nd \<Longrightarrow> \<exists>nd'. ns' a = Some nd' \<and> nd_next nd' = nd_next nd"
  shows "linked ns' h as"
  using assms by (induction as arbitrary: h) fastforce+

lemma linked_other: "linked ns h as \<Longrightarrow> a \<notin> set as \<Longrightarrow> linked (ns(a := x)) h as"
  by (rule linked_keep) auto

text \<open>A list that reaches a freed peer cannot be walked.\<close>

lemma chain_broken:
  assumes "linked ns h as" and "\<And>a nd nd'. a \<in> set as \<Longrightarrow> ns a = Some nd \<Longrightarrow> ns' a = Some nd' \<Longrightarrow> nd_next nd' = nd_next nd"
    and "a \<in> set as" and "ns' a = None"
  shows "peer_chain ns' h = None"
  using assms
proof (induction as arbitrary: h)
  case (Cons b as)
  obtain nd where nd: "h = b" "b \<noteq> 0" "ns b = Some nd" "linked ns (nd_next nd) as" using Cons.prems(1) by auto
  show ?case
  proof (cases "ns' b")
    case (Some nd')
    then have "nd_next nd' = nd_next nd" using Cons.prems(2) nd(3) by auto
    moreover have "a \<in> set as" using Some Cons.prems(3,4) by auto
    then have "peer_chain ns' (nd_next nd) = None" using Cons.IH [OF nd(4)] Cons.prems(2,4) by auto
    ultimately show ?thesis using nd(1,2) Some by (simp add: peer_chain.simps [of ns' b])
  qed (use nd(1,2) in \<open>simp add: peer_chain.simps [of ns' b]\<close>)
qed simp

text \<open>What the pass does with one peer: its update, whether it leaves, and what is stored then.\<close>

definition node_update :: "host \<Rightarrow> (int \<Rightarrow> bool) \<Rightarrow> (int \<Rightarrow> bool) \<Rightarrow> peer_node \<Rightarrow> (int \<times> rl_amigafs) option" where
  "node_update host r w nd = peer_update host (server_callbacks host) (nd_peer nd) (r (nd_fd nd)) (w (nd_fd nd))"

definition leaves :: "host \<Rightarrow> (int \<Rightarrow> bool) \<Rightarrow> (int \<Rightarrow> bool) \<Rightarrow> peer_node \<Rightarrow> bool" where
  "leaves host r w nd \<longleftrightarrow> (case node_update host r w nd of None \<Rightarrow> False | Some (st, p) \<Rightarrow> PEER_STATUS_REMOVE_ME AND st \<noteq> 0)"

definition node_after :: "host \<Rightarrow> (int \<Rightarrow> bool) \<Rightarrow> (int \<Rightarrow> bool) \<Rightarrow> peer_node \<Rightarrow> peer_node option" where
  "node_after host r w nd =
     (if leaves host r w nd then None else map_option (\<lambda>(st, p). nd\<lparr>nd_peer := p\<rparr>) (node_update host r w nd))"

definition updatable :: "host \<Rightarrow> (int \<Rightarrow> bool) \<Rightarrow> (int \<Rightarrow> bool) \<Rightarrow> peer_node \<Rightarrow> bool" where
  "updatable host r w nd \<longleftrightarrow> (\<exists>st p. node_update host r w nd = Some (st, p) \<and> transport_ok p)"

definition no_buffers :: "rl_amigafs \<Rightarrow> bool" where
  "no_buffers p \<longleftrightarrow> (\<forall>a. deref (heap p) a = None) \<and> \<not> valid (inbuf p)"

lemma release_peer_ok:
  assumes "transport_ok p"
  shows "\<exists>q. no_buffers q \<and> release_peer fd p t = Some (close_socket fd (t\<lparr>destroyed := destroyed t @ [q]\<rparr>))"
proof -
  obtain q where "peer_destroy p = Some q" "no_buffers q"
    using peer_owner.peer_destroy_ok [OF quiet_owner [OF example_host_ok] assms] unfolding no_buffers_def by blast
  then show ?thesis using peer_destroy_closes [of p q] by (auto simp: release_peer_def Let_def)
qed

lemma destroy_peer_ok:
  assumes "nodes t a = Some nd" and "transport_ok (nd_peer nd)"
  shows "\<exists>p. no_buffers p \<and> destroy_peer host t a =
           Some (close_socket (nd_fd nd) (t\<lparr>nodes := (nodes t)(a := None), destroyed := destroyed t @ [p]\<rparr>))"
proof -
  let ?p = "if host_platform host = Amiga then rl_amigafs_destroy (nd_peer nd) else nd_peer nd"
  have "peer.truncate (rl_amigafs_destroy q) = peer.truncate q" for q
    by (simp add: rl_amigafs_destroy_def unmount_volume_def Let_def peer.defs)
  then have "transport_ok ?p" using trunc_ok(1) [of "rl_amigafs_destroy (nd_peer nd)" "nd_peer nd"] assms(2) by simp
  then obtain p where "no_buffers p" "release_peer (nd_fd nd) ?p t = Some (close_socket (nd_fd nd) (t\<lparr>destroyed := destroyed t @ [p]\<rparr>))"
    using release_peer_ok by blast
  then show ?thesis using assms(1) by (auto simp: destroy_peer_def close_socket_def Let_def)
qed

text \<open>
  One round of the pass. The variable that becomes \<^verbatim>\<open>prev\<close> is null in the first round and the
  peer itself in every other one.
\<close>

definition same_rest :: "target \<Rightarrow> target \<Rightarrow> bool" where
  "same_rest t t' \<longleftrightarrow> process_port t' = process_port t \<and> peer_count t' = peer_count t"

lemma update_round:
  assumes "nodes t a = Some nd" and "a \<noteq> 0" and "updatable host r w nd" and "v = 0 \<or> v = a"
  shows "\<exists>t1 ds. update_peers host r w t v a = update_peers host r w t1 (nd_next nd) (nd_next nd) \<and>
           nodes t1 = (nodes t)(a := node_after host r w nd) \<and>
           peers t1 = (if leaves host r w nd \<and> v = 0 then nd_next nd else peers t) \<and> same_rest t t1 \<and>
           sockets_closed t1 = sockets_closed t @ (if leaves host r w nd then [nd_fd nd] else []) \<and>
           destroyed t1 = destroyed t @ ds \<and> list_all no_buffers ds"
proof -
  obtain st p where u: "node_update host r w nd = Some (st, p)" "transport_ok p" using assms(3) by (auto simp: updatable_def)
  let ?nd = "nd\<lparr>nd_peer := p\<rparr>"
  let ?t = "t\<lparr>nodes := (nodes t)(a \<mapsto> ?nd)\<rparr>"
  show ?thesis
  proof (cases "PEER_STATUS_REMOVE_ME AND st = 0")
    case True
    then have "\<not> leaves host r w nd" "node_after host r w nd = Some ?nd" using u(1) by (simp_all add: leaves_def node_after_def)
    moreover have "update_peers host r w t v a = update_peers host r w ?t (nd_next nd) (nd_next nd)"
      using assms(1,2) u(1) True by (subst update_peers.simps) (simp add: node_update_def Let_def)
    ultimately show ?thesis by (intro exI [of _ ?t] exI [of _ "[]"]) (simp add: same_rest_def)
  next
    case False
    then have l: "leaves host r w nd" "node_after host r w nd = None" using u(1) by (simp_all add: leaves_def node_after_def)
    let ?s = "if v = 0 then ?t\<lparr>peers := nd_next nd\<rparr> else t\<lparr>nodes := (nodes t)(a \<mapsto> ?nd\<lparr>nd_next := nd_next nd\<rparr>)\<rparr>"
    have s: "nodes ?s a = Some ?nd" by simp
    obtain q where q: "no_buffers q" "destroy_peer host ?s a =
        Some (close_socket (nd_fd nd) (?s\<lparr>nodes := (nodes ?s)(a := None), destroyed := destroyed ?s @ [q]\<rparr>))" (is "_ = Some ?t1")
      using destroy_peer_ok [OF s, of host] u(2) by auto
    have "update_peers host r w t v a = update_peers host r w ?t1 (nd_next nd) (nd_next nd)"
      using assms(1,2,4) u(1) False q(2) by (subst update_peers.simps) (auto simp: node_update_def Let_def)
    moreover have "nodes ?t1 = (nodes t)(a := None)" "peers ?t1 = (if v = 0 then nd_next nd else peers t)"
      by (auto simp: close_socket_def)
    ultimately show ?thesis
      using l q(1) by (intro exI [of _ ?t1] exI [of _ "[q]"]) (simp add: same_rest_def close_socket_def)
  qed
qed

text \<open>The whole pass: every peer of the list is updated once.\<close>

definition passed :: "host \<Rightarrow> (int \<Rightarrow> bool) \<Rightarrow> (int \<Rightarrow> bool) \<Rightarrow> addr list \<Rightarrow> target \<Rightarrow> target \<Rightarrow> bool" where
  "passed host r w xs t t' \<longleftrightarrow>
     nodes t' = (\<lambda>a. if a \<in> set xs then node_after host r w (the (nodes t a)) else nodes t a) \<and> same_rest t t' \<and>
     sockets_closed t' = sockets_closed t @ map nd_fd (filter (leaves host r w) (map (\<lambda>a. the (nodes t a)) xs)) \<and>
     (\<exists>ds. destroyed t' = destroyed t @ ds \<and> list_all no_buffers ds)"

lemma passed_Cons:
  assumes "nodes t a = Some nd" and "a \<notin> set xs" and "nodes t1 = (nodes t)(a := node_after host r w nd)" and "same_rest t t1"
    and "sockets_closed t1 = sockets_closed t @ (if leaves host r w nd then [nd_fd nd] else [])"
    and "destroyed t1 = destroyed t @ ds" and "list_all no_buffers ds" and "passed host r w xs t1 t'"
  shows "passed host r w (a # xs) t t'"
proof -
  have m: "map (\<lambda>b. the (nodes t1 b)) xs = map (\<lambda>b. the (nodes t b)) xs" using assms(2,3) by simp
  have "nodes t' b = (if b \<in> set (a # xs) then node_after host r w (the (nodes t b)) else nodes t b)" for b
    using assms(1,2,3,8) by (auto simp: passed_def)
  moreover have "same_rest t t'" using assms(4,8) by (simp add: passed_def same_rest_def)
  moreover have "\<exists>es. destroyed t' = destroyed t @ es \<and> list_all no_buffers es"
    using assms(6,7,8) unfolding passed_def by (metis append.assoc list_all_append)
  moreover have "sockets_closed t' = sockets_closed t @ map nd_fd (filter (leaves host r w) (map (\<lambda>a. the (nodes t a)) (a # xs)))"
    using assms(1,5,8) m unfolding passed_def by simp
  ultimately show ?thesis unfolding passed_def by blast
qed

lemma update_rest:
  "linked (nodes t) h xs \<Longrightarrow> distinct xs \<Longrightarrow> (\<And>a. a \<in> set xs \<Longrightarrow> updatable host r w (the (nodes t a))) \<Longrightarrow>
     \<exists>t'. update_peers host r w t h h = Some t' \<and> passed host r w xs t t' \<and> peers t' = peers t"
proof (induction xs arbitrary: t h)
  case Nil
  then show ?case by (simp add: update_peers.simps [of host r w t] passed_def same_rest_def)
next
  case (Cons a xs)
  obtain nd where nd: "h = a" "a \<noteq> 0" "nodes t a = Some nd" "linked (nodes t) (nd_next nd) xs" using Cons.prems(1) by auto
  have "updatable host r w nd" using Cons.prems(3) [of a] nd(3) by simp
  then obtain t1 ds where t1: "update_peers host r w t a a = update_peers host r w t1 (nd_next nd) (nd_next nd)"
    "nodes t1 = (nodes t)(a := node_after host r w nd)" "peers t1 = peers t" "same_rest t t1"
    "sockets_closed t1 = sockets_closed t @ (if leaves host r w nd then [nd_fd nd] else [])"
    "destroyed t1 = destroyed t @ ds" "list_all no_buffers ds"
    using update_round [OF nd(3,2), of host r w a] nd(2) by auto
  have n: "a \<notin> set xs" "distinct xs" using Cons.prems(2) by auto
  have "linked (nodes t1) (nd_next nd) xs" using linked_other [OF nd(4) n(1)] t1(2) by simp
  moreover have "updatable host r w (the (nodes t1 b))" if "b \<in> set xs" for b using Cons.prems(3) that t1(2) n(1) by auto
  ultimately obtain t' where "update_peers host r w t1 (nd_next nd) (nd_next nd) = Some t'" "passed host r w xs t1 t'" "peers t' = peers t1"
    using Cons.IH [OF _ n(2)] by blast
  then show ?case using passed_Cons [OF nd(3) n(1) t1(2,4-7)] t1(1,3) nd(1) by auto
qed

lemma update_pass:
  assumes "linked (nodes t) (peers t) xs" and "distinct xs" and "\<And>a. a \<in> set xs \<Longrightarrow> updatable host r w (the (nodes t a))"
  shows "\<exists>t'. update_peers host r w t 0 (peers t) = Some t' \<and> passed host r w xs t t' \<and>
           peers t' = (case xs of [] \<Rightarrow> 0
                       | a # as \<Rightarrow> if leaves host r w (the (nodes t a)) then nd_next (the (nodes t a)) else a)"
proof (cases xs)
  case Nil
  then show ?thesis using assms(1) update_rest [of t 0 "[]" host r w] by auto
next
  case (Cons a as)
  obtain nd where nd: "peers t = a" "a \<noteq> 0" "nodes t a = Some nd" "linked (nodes t) (nd_next nd) as" using assms(1) Cons by auto
  have "updatable host r w nd" using assms(3) [of a] nd(3) Cons by simp
  then obtain t1 ds where t1: "update_peers host r w t 0 a = update_peers host r w t1 (nd_next nd) (nd_next nd)"
    "nodes t1 = (nodes t)(a := node_after host r w nd)" "peers t1 = (if leaves host r w nd then nd_next nd else a)" "same_rest t t1"
    "sockets_closed t1 = sockets_closed t @ (if leaves host r w nd then [nd_fd nd] else [])"
    "destroyed t1 = destroyed t @ ds" "list_all no_buffers ds"
    using update_round [OF nd(3,2), of host r w 0] nd(1) by auto
  have n: "a \<notin> set as" "distinct as" using assms(2) Cons by auto
  have "linked (nodes t1) (nd_next nd) as" using linked_other [OF nd(4) n(1)] t1(2) by simp
  moreover have "updatable host r w (the (nodes t1 b))" if "b \<in> set as" for b using assms(3) that t1(2) n(1) Cons by auto
  ultimately obtain t' where "update_peers host r w t1 (nd_next nd) (nd_next nd) = Some t'" "passed host r w as t1 t'" "peers t' = peers t1"
    using update_rest [OF _ n(2)] by blast
  then show ?thesis using passed_Cons [OF nd(3) n(1) t1(2,4-7)] t1(1,3) nd(1,3) Cons by auto
qed

section \<open>The target on a POSIX system\<close>

text \<open>There nothing is started, and the callbacks keep the contract of an owner.\<close>

locale posix_target =
  fixes host :: host
  assumes host: "host_ok host" and posix: "host_platform host = Posix"
begin

lemma message_advances:
  assumes "transport_ok p"
  shows "\<exists>rc p'. target_on_message_received host p m = Some (rc, p') \<and> advances p p'"
proof -
  let ?m = "(RL_MSG_INIT Launch_executable_answer)\<lparr>hdr_seq := hdr_seq m\<rparr>"
  have "arrays_ok (body ?m)" by (simp add: arrays_ok_def RL_MSG_INIT_def)
  then have "\<exists>p'. peer_transmit_message host p ?m = Some (0, p') \<and> advances p p'" using transmit_advances [OF assms] by blast
  then show ?thesis
    using posix advances_refl [OF assms]
    by (cases "body m") (auto simp: target_on_message_received_def on_launch_executable_request_def)
qed

lemma is_owner: "peer_owner host (server_callbacks host) (\<lambda>_. True)"
  using host message_advances advances_refl
  by unfold_locales (simp_all add: server_callbacks_def target_on_connected_def)

end

sublocale posix_target \<subseteq> owner: peer_owner host "server_callbacks host" "\<lambda>_. True"
  by (rule is_owner)

context posix_target
begin

lemma ok_updatable:
  assumes "peer_ok (nd_peer nd)"
  shows "updatable host r w nd" "node_after host r w nd = Some nd' \<Longrightarrow> peer_ok (nd_peer nd') \<and> nd_next nd' = nd_next nd"
    "2 < state_rank (peer_state (nd_peer nd)) \<Longrightarrow> leaves host r w nd"
proof -
  obtain st p where u: "node_update host r w nd = Some (st, p)" "peer_ok p" "follows (nd_peer nd) p"
    "st = PEER_STATUS_REMOVE_ME \<longleftrightarrow> peer_state p = PEER_ERROR \<or> peer_state p = PEER_DISCONNECTED"
    using owner.peer_update_ok [OF assms] unfolding node_update_def by blast
  show "updatable host r w nd" using u(1,2) by (auto simp: updatable_def peer_ok_def)
  show "node_after host r w nd = Some nd' \<Longrightarrow> peer_ok (nd_peer nd') \<and> nd_next nd' = nd_next nd"
    using u(1,2) by (auto simp: node_after_def split: if_splits)
  assume "2 < state_rank (peer_state (nd_peer nd))"
  then have "2 < state_rank (peer_state p)" using u(3) by (simp add: follows_def)
  then have "st = PEER_STATUS_REMOVE_ME" using u(4) by (cases "peer_state p") simp_all
  then show "leaves host r w nd" using u(1) by (simp add: leaves_def PEER_STATUS_REMOVE_ME_def)
qed

end

interpretation example_target: posix_target example_host
proof
  show "host_ok example_host" by (rule example_host_ok)
qed (simp add: example_host_def)

lemma after_next: "node_after host r w nd = Some nd' \<Longrightarrow> nd_next nd' = nd_next nd"
  by (auto simp: node_after_def split: if_splits)

lemma passed_links:
  assumes "linked (nodes t) h xs" and "passed host r w ys t t'" and "set xs \<subseteq> set ys"
    and "\<And>a. a \<in> set xs \<Longrightarrow> updatable host r w (the (nodes t a))"
  shows "list_ex (\<lambda>a. leaves host r w (the (nodes t a))) xs \<Longrightarrow> peer_chain (nodes t') h = None"
    "\<not> list_ex (\<lambda>a. leaves host r w (the (nodes t a))) xs \<Longrightarrow> linked (nodes t') h xs"
proof -
  have n: "nodes t' a = node_after host r w (the (nodes t a))" if "a \<in> set xs" for a
    using assms(2,3) that by (auto simp: passed_def)
  assume "list_ex (\<lambda>a. leaves host r w (the (nodes t a))) xs"
  then obtain a where a: "a \<in> set xs" "leaves host r w (the (nodes t a))" by (auto simp: list_ex_iff)
  have "nd_next nd' = nd_next nd" if "b \<in> set xs" "nodes t b = Some nd" "nodes t' b = Some nd'" for b nd nd'
    using n [OF that(1)] that(2,3) after_next [of host r w nd nd'] by simp
  moreover have "nodes t' a = None" using n [OF a(1)] a(2) by (simp add: node_after_def)
  ultimately show "peer_chain (nodes t') h = None" using chain_broken [OF assms(1)] a(1) by blast
next
  have n: "nodes t' a = node_after host r w (the (nodes t a))" if "a \<in> set xs" for a
    using assms(2,3) that by (auto simp: passed_def)
  assume "\<not> list_ex (\<lambda>a. leaves host r w (the (nodes t a))) xs"
  then show "linked (nodes t') h xs"
    using n assms(4) by (intro linked_keep [OF assms(1)]) (fastforce simp: list_ex_iff node_after_def updatable_def)
qed

text \<open>A target with two connections, of which the older one has failed, for the examples.\<close>

definition example_two :: target where
  "example_two =
     \<lparr>nodes = [4 \<mapsto> \<lparr>nd_peer = example_fs, nd_fd = 5, nd_next = 8\<rparr>,
               8 \<mapsto> \<lparr>nd_peer = example_fs\<lparr>peer_state := PEER_ERROR\<rparr>, nd_fd = 6, nd_next = 0\<rparr>],
      peers = 4, peer_count = 2, process_port = [], sockets_closed = [], destroyed = []\<rparr>"

lemma example_fs_peer_ok: "peer_ok example_fs" "peer_ok (example_fs\<lparr>peer_state := PEER_ERROR\<rparr>)"
proof -
  show o: "peer_ok example_fs"
    using example_fs_ok(1) by (simp add: peer_ok_def iinv_def) (simp add: example_fs_def example_peer_def peer.defs rl_amigafs.defs)
  then show "peer_ok (example_fs\<lparr>peer_state := PEER_ERROR\<rparr>)" by (simp add: peer_ok_def)
qed

section \<open>Properties of the target\<close>

text \<open>
  Claim C19: what one pass over the peers does. Every peer of the list is updated exactly once,
  in the order of the list; the sockets of those that ask to be removed are closed and their
  memory is given back, the others are kept. The list is right afterwards if no peer but the
  first one leaves. If another one leaves it stays linked although its memory is gone,
  because \<open>prev\<close> is set to the peer itself, and the next walk reads freed memory.
\<close>
theorem update_pass_list:
  assumes "linked (nodes t) (peers t) xs" and "distinct xs" and "list_all (\<lambda>a. updatable host r w (the (nodes t a))) xs"
  shows "\<exists>t'. update_peers host r w t 0 (peers t) = Some t' \<and>
           (\<forall>a. nodes t' a = (if a \<in> set xs then node_after host r w (the (nodes t a)) else nodes t a)) \<and>
           sockets_closed t' = sockets_closed t @ map nd_fd (filter (leaves host r w) (map (\<lambda>a. the (nodes t a)) xs)) \<and>
           (if list_ex (\<lambda>a. leaves host r w (the (nodes t a))) (tl xs) then add_peers_to_fd_set (nodes t') (peers t') = None
            else linked (nodes t') (peers t') (filter (\<lambda>a. \<not> leaves host r w (the (nodes t a))) xs))"
proof -
  have u: "updatable host r w (the (nodes t a))" if "a \<in> set xs" for a using assms(3) that by (simp add: list_all_iff)
  obtain t' where t': "update_peers host r w t 0 (peers t) = Some t'" "passed host r w xs t t'"
    "peers t' = (case xs of [] \<Rightarrow> 0 | a # as \<Rightarrow> if leaves host r w (the (nodes t a)) then nd_next (the (nodes t a)) else a)"
    using update_pass [OF assms(1,2) u] by blast
  have "if list_ex (\<lambda>a. leaves host r w (the (nodes t a))) (tl xs) then peer_chain (nodes t') (peers t') = None
        else linked (nodes t') (peers t') (filter (\<lambda>a. \<not> leaves host r w (the (nodes t a))) xs)"
  proof (cases xs)
    case Nil
    then show ?thesis using t'(3) by simp
  next
    case (Cons a as)
    have stay: "filter (\<lambda>a. \<not> leaves host r w (the (nodes t a))) as = as" if "\<not> list_ex (\<lambda>a. leaves host r w (the (nodes t a))) as"
      using that by (auto simp: list_ex_iff filter_id_conv)
    have l: "linked (nodes t) (nd_next (the (nodes t a))) as" "set as \<subseteq> set xs" using assms(1) Cons by auto
    show ?thesis
    proof (cases "leaves host r w (the (nodes t a))")
      case True
      then show ?thesis using passed_links [OF l(1) t'(2) l(2)] u stay t'(3) Cons by auto
    next
      case False
      then show ?thesis using passed_links [OF assms(1) t'(2)] u stay t'(3) Cons assms(1) by (auto simp del: linked.simps) auto
    qed
  qed
  then show ?thesis using t'(1,2) by (auto simp: passed_def add_peers_to_fd_set_def)
qed

theorem update_pass_list_witness:
  "\<exists>t'. update_peers example_host (\<lambda>_. False) (\<lambda>_. False) example_two 0 4 = Some t' \<and> nodes t' 8 = None \<and>
     6 \<in> set (sockets_closed t') \<and> add_peers_to_fd_set (nodes t') (peers t') = None"
proof -
  let ?nd = "\<lparr>nd_peer = example_fs\<lparr>peer_state := PEER_ERROR\<rparr>, nd_fd = 6, nd_next = 0\<rparr>" and ?f = "\<lambda>_ :: int. False"
  have l: "leaves example_host ?f ?f ?nd" using example_target.ok_updatable(3) [of ?nd] example_fs_peer_ok(2) by simp
  have "linked (nodes example_two) (peers example_two) [4, 8]" by (simp add: example_two_def)
  moreover have "list_all (\<lambda>a. updatable example_host ?f ?f (the (nodes example_two a))) [4, 8]"
    using example_target.ok_updatable(1) example_fs_peer_ok by (simp add: example_two_def)
  ultimately show ?thesis
    using update_pass_list [of example_two "[4, 8]" example_host ?f ?f] l by (auto simp: example_two_def node_after_def)
qed

text \<open>Accepting runs no callback, so it is the same for every owner.\<close>

lemma target_init:
  assumes "host_ok host" and "cell (heap p) = Map.empty"
  shows "\<exists>rc p' n. peer_init host cb p addr PEER_INIT_TARGET k = Some (rc, p', n) \<and>
           (rc = 0 \<longrightarrow> peer_ok p' \<and> peer_index p' = k mod 10 \<and> n = k + 1)"
  using peer_owner.peer_init_ok [OF quiet_owner [OF assms(1)], of p addr PEER_INIT_TARGET k] assms(2)
  unfolding init_no_callback [of host cb p addr PEER_INIT_TARGET k quiet_callbacks] by blast

lemma accept_posix:
  assumes "host_ok host" and "host_platform host = Posix" and "cell (heap (acc_zeroed env)) = Map.empty"
  shows "\<exists>a t'. accept_peer host t env = Some (a, t') \<and> peers t' = peers t \<and> process_port t' = process_port t \<and> destroyed t' = destroyed t \<and>
           (a = 0 \<and> nodes t' = nodes t \<or>
            a = acc_peer env \<and> a \<noteq> 0 \<and> (\<exists>nd. nodes t' = (nodes t)(a \<mapsto> nd) \<and> peer_ok (nd_peer nd) \<and> nd_next nd = 0))"
  using target_init [OF assms(1,3), of "server_callbacks host" "Some (acc_address env)" "peer_count t"] assms(2)
  by (cases "acc_fd env") (fastforce simp: accept_peer_def close_socket_def Let_def)+

section \<open>One connection at a time\<close>

definition single_ok :: "target \<Rightarrow> bool" where
  "single_ok t \<longleftrightarrow>
     list_all no_buffers (destroyed t) \<and>
     (peers t = 0 \<and> nodes t = Map.empty \<or>
      (\<exists>nd. peers t \<noteq> 0 \<and> nodes t = [peers t \<mapsto> nd] \<and> nd_next nd = 0 \<and> peer_ok (nd_peer nd)))"

text \<open>A new connection comes only when there is none, and the memory of its peer is fresh.\<close>

definition single_event :: "target \<Rightarrow> serve_event \<Rightarrow> bool" where
  "single_event t ev \<longleftrightarrow>
     (\<forall>a p. ev_programs ev a p = p) \<and>
     (\<forall>env. ev_connect ev = Some env \<longrightarrow> peers t = 0 \<and> cell (heap (acc_zeroed env)) = Map.empty)"

inductive target_step :: "target \<Rightarrow> target \<Rightarrow> bool" where
  "serve_round host ev t = Some (True, t') \<Longrightarrow> host_ok host \<Longrightarrow> host_platform host = Posix \<Longrightarrow> single_event t ev \<Longrightarrow>
     target_step t t'"

inductive_cases target_stepE: "target_step t t'"

lemma single_linked: "single_ok t \<Longrightarrow> linked (nodes t) (peers t) (if peers t = 0 then [] else [peers t])"
  by (auto simp: single_ok_def)

context posix_target
begin

lemma update_single:
  assumes "single_ok t"
  shows "\<exists>t'. update_peers host r w t 0 (peers t) = Some t' \<and> single_ok t'"
proof (cases "peers t = 0")
  case True
  then show ?thesis using assms by (auto simp: update_peers.simps [of host r w t])
next
  case False
  then obtain nd where nd: "nodes t = [peers t \<mapsto> nd]" "nd_next nd = 0" "peer_ok (nd_peer nd)" "list_all no_buffers (destroyed t)"
    using assms by (auto simp: single_ok_def)
  have "linked (nodes t) (peers t) [peers t]" using single_linked [OF assms] False by simp
  then obtain t' where t': "update_peers host r w t 0 (peers t) = Some t'" "passed host r w [peers t] t t'"
    "peers t' = (if leaves host r w nd then 0 else peers t)"
    using update_pass [of t "[peers t]" host r w] ok_updatable(1) [OF nd(3)] nd(1,2) by auto
  have d: "list_all no_buffers (destroyed t')" using t'(2) nd(4) by (auto simp: passed_def)
  have n: "nodes t' = Map.empty(peers t := node_after host r w nd)" using t'(2) nd(1) by (auto simp: passed_def)
  have "single_ok t'"
  proof (cases "leaves host r w nd")
    case True
    then show ?thesis using d n t'(3) by (simp add: single_ok_def node_after_def)
  next
    case stays: False
    then obtain nd' where "node_after host r w nd = Some nd'" using ok_updatable(1) [OF nd(3), of r w] by (auto simp: node_after_def updatable_def)
    then show ?thesis using d n t'(3) ok_updatable(2) [OF nd(3), of r w nd'] nd(2) stays False by (auto simp: single_ok_def)
  qed
  then show ?thesis using t'(1) by blast
qed

lemma round_single:
  assumes "single_ok t" and "single_event t ev"
  shows "\<exists>go t'. serve_round host ev t = Some (go, t') \<and> single_ok t'"
proof -
  obtain x where x: "add_peers_to_fd_set (nodes t) (peers t) = Some x"
    using chain_linked [OF single_linked [OF assms(1)]] by (simp add: add_peers_to_fd_set_def Let_def)
  obtain m rfds wfds where x': "x = (m, rfds, wfds)" by (cases x)
  have "wait ev t = t\<lparr>process_port := process_port t @ ev_orders ev\<rparr>"
    using assms(2) by (simp add: wait_def single_event_def option.map_ident)
  then have s: "serve_signals host ev (wait ev t) = Some (t\<lparr>process_port := process_port t @ ev_orders ev\<rparr>)" (is "_ = Some ?t")
    using posix by (simp add: serve_signals_def)
  have ok: "single_ok ?t" using assms(1) by (simp add: single_ok_def)
  show ?thesis
  proof (cases "ev_select_failed ev")
    case True
    then show ?thesis using x x' s ok by (auto simp: serve_round_def Let_def)
  next
    case False
    let ?r = "\<lambda>fd. fd \<in> set rfds \<and> fd \<in> set (ev_readable ev)" and ?w = "\<lambda>fd. fd \<in> set wfds \<and> fd \<in> set (ev_writable ev)"
    show ?thesis
    proof (cases "ev_connect ev")
      case None
      obtain t2 where "update_peers host ?r ?w ?t 0 (peers ?t) = Some t2" "single_ok t2" using update_single [OF ok] by blast
      then show ?thesis using x x' s False posix None by (auto simp: serve_round_def Let_def)
    next
      case (Some env)
      then have e: "peers ?t = 0" "cell (heap (acc_zeroed env)) = Map.empty" using assms(2) by (auto simp: single_event_def)
      obtain a t1 where t1: "accept_peer host ?t env = Some (a, t1)" "peers t1 = 0" "destroyed t1 = destroyed t"
        "a = 0 \<and> nodes t1 = nodes ?t \<or> a \<noteq> 0 \<and> (\<exists>nd. nodes t1 = (nodes ?t)(a \<mapsto> nd) \<and> peer_ok (nd_peer nd) \<and> nd_next nd = 0)"
        using accept_posix [OF host posix e(2), of ?t] e(1) by auto
      from t1(4) show ?thesis
      proof
        assume "a = 0 \<and> nodes t1 = nodes ?t"
        then show ?thesis using x x' s False posix Some t1(1-3) ok e(1) by (auto simp: serve_round_def Let_def single_ok_def)
      next
        assume "a \<noteq> 0 \<and> (\<exists>nd. nodes t1 = (nodes ?t)(a \<mapsto> nd) \<and> peer_ok (nd_peer nd) \<and> nd_next nd = 0)"
        then obtain nd where nd: "a \<noteq> 0" "nodes t1 = [a \<mapsto> nd]" "peer_ok (nd_peer nd)" "nd_next nd = 0"
          using ok e(1) by (auto simp: single_ok_def)
        let ?t1 = "t1\<lparr>nodes := (nodes t1)(a \<mapsto> nd\<lparr>nd_next := peers t1\<rparr>), peers := a\<rparr>"
        have "single_ok ?t1" using nd ok t1(2,3) by (auto simp: single_ok_def)
        then obtain t2 where "update_peers host (\<lambda>fd. fd = nd_fd nd \<or> ?r fd) (\<lambda>fd. fd = nd_fd nd \<or> ?w fd) ?t1 0 (peers ?t1) = Some t2"
          "single_ok t2" using update_single [of ?t1] by blast
        then show ?thesis using x x' s False posix Some t1(1) nd(1,2) by (auto simp: serve_round_def Let_def)
      qed
    qed
  qed
qed

lemma serve_single:
  assumes "single_ok t" and "single_event t ev"
  shows "\<exists>r t'. serve [(host, ev)] t = Some (r, t') \<and> list_all no_buffers (destroyed t') \<and> (r \<longrightarrow> nodes t' = Map.empty)"
proof -
  obtain go t1 where t1: "serve_round host ev t = Some (go, t1)" "single_ok t1" using round_single [OF assms] by blast
  have c: "peer_chain (nodes t1) (peers t1) = Some (map (\<lambda>a. (a, the (nodes t1 a))) (if peers t1 = 0 then [] else [peers t1]))"
    using chain_linked [OF single_linked [OF t1(2)]] .
  have "\<exists>t'. destroy_peers host t1 (if peers t1 = 0 then [] else [peers t1]) = Some t' \<and> nodes t' = Map.empty \<and>
      list_all no_buffers (destroyed t')"
  proof (cases "peers t1 = 0")
    case False
    then obtain nd where nd: "nodes t1 (peers t1) = Some nd" "peer_ok (nd_peer nd)" "nodes t1 = [peers t1 \<mapsto> nd]"
      using t1(2) by (auto simp: single_ok_def)
    then show ?thesis
      using destroy_peer_ok [OF nd(1), of host] t1(2) False by (auto simp: single_ok_def peer_ok_def close_socket_def)
  qed (use t1(2) in \<open>simp add: single_ok_def\<close>)
  then show ?thesis using t1 c by (cases go) (auto simp: single_ok_def comp_def)
qed

end

lemma reachable_single: "target_step\<^sup>*\<^sup>* t0 t \<Longrightarrow> single_ok t0 \<Longrightarrow> single_ok t"
proof (induction rule: rtranclp_induct)
  case (step t t')
  from step.hyps(2) obtain host ev where h: "serve_round host ev t = Some (True, t')" "host_ok host" "host_platform host = Posix"
    "single_event t ev" by (auto elim: target_stepE)
  then show ?case using posix_target.round_single [of host t ev] step by (auto simp: posix_target_def)
qed

text \<open>A target without peers and a last round, for the example.\<close>

definition empty_target :: target where
  "empty_target = \<lparr>nodes = Map.empty, peers = 0, peer_count = 0, process_port = [], sockets_closed = [], destroyed = []\<rparr>"

definition quiet_event :: serve_event where
  "quiet_event =
     \<lparr>ev_programs = (\<lambda>_ p. p), ev_orders = [], ev_signals = [], ev_process_signal = False, ev_break = False,
      ev_select_failed = True, ev_readable = [], ev_writable = [], ev_connect = None\<rparr>"

text \<open>
  Claim C20: a target with one connection at a time is safe. On a POSIX system, from a target
  without peers and after any sequence of rounds in which a connection is accepted only when
  there is none, another round returns, whatever the controller sends and whatever the
  sockets and the allocator do: no freed peer and no freed buffer is touched. When it is the
  last round no peer is left, and every peer that was destroyed has given back its buffers.
\<close>
theorem single_session_safe:
  assumes "target_step\<^sup>*\<^sup>* t0 t" and "peers t0 = 0" and "nodes t0 = Map.empty" and "destroyed t0 = []"
    and "host_ok host" and "host_platform host = Posix" and "single_event t ev"
  shows "\<exists>r t'. serve [(host, ev)] t = Some (r, t') \<and> (r \<longrightarrow> nodes t' = Map.empty) \<and>
           (\<forall>p\<in>set (destroyed t'). (\<forall>a. deref (heap p) a = None) \<and> \<not> valid (inbuf p))"
proof -
  have "single_ok t0" using assms(2-4) by (simp add: single_ok_def)
  then have "single_ok t" using reachable_single [OF assms(1)] by blast
  then show ?thesis
    using posix_target.serve_single [of host t ev] assms(5-7) by (auto simp: posix_target_def no_buffers_def list_all_iff)
qed

theorem single_session_safe_witness:
  "\<exists>t t'. target_step\<^sup>*\<^sup>* empty_target t \<and> serve [(example_host, quiet_event)] t = Some (True, t') \<and> nodes t' = Map.empty"
proof -
  have "single_event empty_target quiet_event" by (simp add: single_event_def quiet_event_def)
  then obtain r t' where s: "serve [(example_host, quiet_event)] empty_target = Some (r, t')" "r \<longrightarrow> nodes t' = Map.empty"
    using single_session_safe [of empty_target empty_target example_host quiet_event] example_target.host example_target.posix
    by (auto simp: empty_target_def)
  moreover have "serve [(example_host, quiet_event)] empty_target = Some (True, empty_target)"
    by (simp add: serve_round_def add_peers_to_fd_set_def peer_chain.simps empty_target_def quiet_event_def serve_signals_def
        wait_def example_target.posix Let_def)
  ultimately show ?thesis by auto
qed

section \<open>Starting a program\<close>

lemma format_pair:
  assumes "length a < 2 ^ 31" and "length b < 2 ^ 31" and "0 < n"
  shows "formatted plat n (lit ''%s:%s'') [AStr a, AStr b] = Some (take (n - 1) (a @ lit '':'' @ b))"
    "formatted plat n (lit ''%s %s'') [AStr a, AStr b] = Some (take (n - 1) (a @ lit '' '' @ b))"
    "formatted plat n (lit ''%s'') [AStr a] = Some (take (n - 1) a)"
proof -
  have e: "format_text plat ([] :: cstring) [] = Some []" using format_text_literal [of "[]" plat "[]"] by simp
  have "format_text plat (lit '':%s'') [AStr b] = Some (lit '':'' @ b)" "format_text plat (lit '' %s'') [AStr b] = Some (lit '' '' @ b)"
    using format_text_s [of "lit '':''" b plat "[]" "[]"] format_text_s [of "lit '' ''" b plat "[]" "[]"] assms(2) e
    by (simp_all add: is_percent_def)
  then have "format_text plat (lit ''%s:%s'') [AStr a, AStr b] = Some (a @ lit '':'' @ b)"
    "format_text plat (lit ''%s %s'') [AStr a, AStr b] = Some (a @ lit '' '' @ b)"
    "format_text plat (lit ''%s'') [AStr a] = Some a"
    using format_text_s [of "[]" a plat "lit '':%s''" "[AStr b]"] format_text_s [of "[]" a plat "lit '' %s''" "[AStr b]"]
      format_text_s [of "[]" a plat "[]" "[]"] assms(1) e
    by simp_all
  then show "formatted plat n (lit ''%s:%s'') [AStr a, AStr b] = Some (take (n - 1) (a @ lit '':'' @ b))"
    "formatted plat n (lit ''%s %s'') [AStr a, AStr b] = Some (take (n - 1) (a @ lit '' '' @ b))"
    "formatted plat n (lit ''%s'') [AStr a] = Some (take (n - 1) a)"
    using formatted_eq [OF assms(3)] by blast+
qed

text \<open>The name of the device: \<open>TBL\<close> and a digit.\<close>

definition device_text :: "int \<Rightarrow> cstring" where
  "device_text i = lit ''TBL'' @ signed_text i"

lemma device_name_eq:
  assumes "0 \<le> peer_index p" and "peer_index p < 10"
  shows "device_name p = Some (device_text (peer_index p))" "length (device_text (peer_index p)) = 4"
proof -
  let ?w = "word_of_int (peer_index p) :: rl_uint32"
  have s: "sint ?w = peer_index p" using assms by (simp add: signed_of_int signed_take_bit_int_eq_self)
  have "signed_text (peer_index p) = [format_base_digits ! nat (peer_index p)]"
    using assms fmt_digits_small [of "nat (peer_index p)" 10 "[]"] by (simp add: signed_text_def nat_less_iff)
  then show l: "length (device_text (peer_index p)) = 4" by (simp add: device_text_def)
  have "format_text Amiga (lit ''TBL'' @ lit ''%d'' @ []) [AInt ?w] = Some (device_text (peer_index p))"
    using format_text_d [of "lit ''TBL''" Amiga ?w "[]" "[]"] format_text_literal [of "[]" Amiga "[]"] s assms(1)
    by (simp add: is_percent_def device_text_def)
  then show "device_name p = Some (device_text (peer_index p))"
    using formatted_eq [of 32 Amiga "lit ''TBL%d''" "[AInt ?w]"] l by (simp add: device_name_def)
qed

text \<open>The command: on the device of the peer unless it names a device itself.\<close>

definition command_text :: "int \<Rightarrow> cstring \<Rightarrow> cstring" where
  "command_text i cmd = take 127 (if of_char CHR '':'' \<in> set cmd then cmd else device_text i @ lit '':'' @ cmd)"

definition order :: "rl_amigafs \<Rightarrow> addr \<Rightarrow> cstring \<Rightarrow> cstring \<Rightarrow> launch_msg" where
  "order fs l cmd args =
     \<lparr>lm_peer_index = peer_index fs, command_path = command_text (peer_index fs) cmd,
      input_path = device_text (peer_index fs) @ lit '':'' @ RLAUNCH_VIRTUAL_INPUT_FILE,
      output_path = device_text (peer_index fs) @ lit '':'' @ RLAUNCH_VIRTUAL_OUTPUT_FILE,
      lm_arguments = take 255 args, root_lock = l, result_code = 0\<rparr>"

definition with_root_lock :: "rl_amigafs \<Rightarrow> addr \<Rightarrow> addr \<Rightarrow> addr list \<Rightarrow> rl_amigafs" where
  "with_root_lock fs a l as =
     fs\<lparr>allocs := as, order_mem := a # order_mem fs, locks := (if l = 0 then locks fs else (locks fs)(l \<mapsto>
        \<lparr>fl_Key = handle_ptr.Root_handle, fl_Access = SHARED_LOCK, fl_Task = device_port fs, fl_Volume = MKBADDR (device_list fs)\<rparr>))\<rparr>"

lemma async_spawn_eq:
  assumes "0 \<le> peer_index fs" and "peer_index fs < 10" and "nul_free cmd" and "nul_free args" and "length cmd < 2 ^ 31"
    and "allocs fs = a # l # as" and "a \<noteq> 0"
  shows "async_spawn host fs cmd args =
           (case spawns fs of
              True # rest \<Rightarrow> Some (0, (with_root_lock fs a l as)\<lparr>spawns := rest, launched := launched fs @ [order fs l cmd args], order_mem := order_mem fs\<rparr>)
            | [] \<Rightarrow> cleanup_spawn host (with_root_lock fs a l as) a (order fs l cmd args)
            | False # rest \<Rightarrow> cleanup_spawn host ((with_root_lock fs a l as)\<lparr>spawns := rest\<rparr>) a (order fs l cmd args))"
proof -
  let ?q = "fs\<lparr>allocs := l # as\<rparr>" and ?fs = "fs\<lparr>allocs := l # as, order_mem := a # order_mem fs\<rparr>" and ?d = "device_text (peer_index fs)"
  have d: "device_name ?fs = Some ?d" "length ?d = 4" using device_name_eq [of ?fs] assms(1,2) by simp_all
  have d31: "length ?d < 2 ^ 31" using d(2) by simp
  have v: "length RLAUNCH_VIRTUAL_INPUT_FILE = 15" "length RLAUNCH_VIRTUAL_OUTPUT_FILE = 16"
    by (simp_all add: RLAUNCH_VIRTUAL_INPUT_FILE_def RLAUNCH_VIRTUAL_OUTPUT_FILE_def)
  have io: "formatted Amiga 64 (lit ''%s:%s'') [AStr ?d, AStr RLAUNCH_VIRTUAL_INPUT_FILE] = Some (?d @ lit '':'' @ RLAUNCH_VIRTUAL_INPUT_FILE)"
    "formatted Amiga 64 (lit ''%s:%s'') [AStr ?d, AStr RLAUNCH_VIRTUAL_OUTPUT_FILE] = Some (?d @ lit '':'' @ RLAUNCH_VIRTUAL_OUTPUT_FILE)"
    using format_pair(1) [OF d31, of RLAUNCH_VIRTUAL_INPUT_FILE 64 Amiga] format_pair(1) [OF d31, of RLAUNCH_VIRTUAL_OUTPUT_FILE 64 Amiga] v d(2)
    by simp_all
  have c: "(if of_char CHR '':'' \<notin> set cmd then formatted Amiga 128 (lit ''%s:%s'') [AStr ?d, AStr cmd] else copied 128 cmd) =
      Some (command_text (peer_index fs) cmd)"
    using format_pair(1) [OF d31 assms(5), of 128 Amiga] copied_eq [OF assms(3), of 128] by (simp add: command_text_def)
  have g: "copied 256 args = Some (take 255 args)" using copied_eq [OF assms(4), of 256] by simp
  have al: "alloc_zeroed fs = (a, ?q)" "?q\<lparr>order_mem := a # order_mem ?q\<rparr> = ?fs" using assms(6) by (simp_all add: alloc_zeroed_def)
  have rl: "rl_amigafs_alloc_root_lock ?fs SHARED_LOCK = (l, with_root_lock fs a l as)"
    by (simp add: rl_amigafs_alloc_root_lock_def alloc_zeroed_def with_root_lock_def)
  have w: "peer_index (with_root_lock fs a l as) = peer_index fs" "spawns (with_root_lock fs a l as) = spawns fs"
    "launched (with_root_lock fs a l as) = launched fs" "order_mem (with_root_lock fs a l as) = a # order_mem fs" by (simp_all add: with_root_lock_def)
  show ?thesis
    unfolding async_spawn_def al(1) prod.case Let_def al(2) using assms(7) d c g io rl w by (simp add: order_def Let_def split: list.split bool.split)
qed

lemma cleanup_spawn_eq:
  assumes "ch_type (fs_root_handle fs) = RL_HANDLE_DEVICE" and "locks fs l = None"
  shows "cleanup_spawn host ((with_root_lock fs a l as)\<lparr>spawns := rest\<rparr>) a (order fs l cmd args) = Some (1, fs\<lparr>allocs := as, spawns := rest\<rparr>)"
proof (cases "l = 0")
  case False
  have "(locks fs)(l := None) = locks fs" using assms(2) by auto
  then show ?thesis
    using False assms(1)
    by (simp add: cleanup_spawn_def RL_FREE_ORDER_def order_def with_root_lock_def rl_amigafs_free_lock_def HANDLE_FROM_LOCK_def handle_at_def)
qed (simp add: cleanup_spawn_def RL_FREE_ORDER_def order_def with_root_lock_def)

lemma spawn_outcome:
  assumes "0 \<le> peer_index fs" and "peer_index fs < 10" and "nul_free cmd" and "nul_free args" and "length cmd < 2 ^ 31"
    and "allocs fs = a # l # as" and "a \<noteq> 0" and "ch_type (fs_root_handle fs) = RL_HANDLE_DEVICE" and "locks fs l = None"
  shows "\<exists>fs'. async_spawn host fs cmd args = Some (if spawns fs \<noteq> [] \<and> hd (spawns fs) then 0 else 1, fs') \<and>
           peer.truncate fs' = peer.truncate fs \<and> order_mem fs' = order_mem fs \<and>
           (if spawns fs \<noteq> [] \<and> hd (spawns fs) then launched fs' = launched fs @ [order fs l cmd args]
            else launched fs' = launched fs \<and> locks fs' = locks fs)"
proof (cases "spawns fs")
  case Nil
  then have "with_root_lock fs a l as = (with_root_lock fs a l as)\<lparr>spawns := []\<rparr>" by (simp add: with_root_lock_def)
  then show ?thesis
    using Nil async_spawn_eq [OF assms(1-7)] cleanup_spawn_eq [OF assms(8,9), where host = host and a = a and as = as and rest = "[]"]
    by (simp add: peer.defs)
next
  case (Cons b rest)
  then show ?thesis
    using async_spawn_eq [OF assms(1-7)] cleanup_spawn_eq [OF assms(8,9), where host = host and a = a and as = as and rest = rest]
    by (cases b) (simp_all add: peer.defs with_root_lock_def)
qed

lemma answer_sizes:
  "valid_body Launch_executable_answer" "msg_size ((RL_MSG_INIT Launch_executable_answer)\<lparr>hdr_seq := s\<rparr>) \<le> 8192"
  "valid_body (Error_answer c)" "msg_size (RL_MSG_INIT (Error_answer c)) \<le> 8192"
  by (simp_all add: valid_body_def msg_size_def fixed_of_def var_of_def layouts_def msg_fields_def RL_MSG_INIT_def)

text \<open>The file system of a peer with memory and one process to create, for the examples.\<close>

definition example_amiga :: host where
  "example_amiga = example_host\<lparr>host_platform := Amiga\<rparr>"

definition example_idle :: "bool \<Rightarrow> rl_amigafs" where
  "example_idle ok = example_fs\<lparr>allocs := [24, 28], spawns := [ok]\<rparr>"

lemma example_idle_fields [simp]:
  "can_send (example_idle ok)" "peer_index (example_idle ok) = 0" "allocs (example_idle ok) = [24, 28]" "spawns (example_idle ok) = [ok]"
  "fs_root_handle (example_idle ok) = new_handle RL_HANDLE_DEVICE (- 1) 0 (lit ''TBL0'')" "locks (example_idle ok) 28 = None"
  "launched (example_idle ok) = []"
proof -
  have t: "peer.truncate (example_idle ok) = peer.truncate (example_open pk)" for pk
    by (simp add: example_idle_def example_open_def peer.defs)
  show "can_send (example_idle ok)" using can_send_trunc [OF t] example_open_ok(1) by blast
qed (simp_all add: example_idle_def, simp_all add: example_fs_def example_peer_def peer.defs rl_amigafs.defs)

lemma launch_answered:
  assumes "host_platform host = Amiga" and "can_send fs" and "0 \<le> peer_index fs" and "peer_index fs < 10"
    and "nul_free cmd" and "nul_free args" and "length cmd < 2 ^ 31"
    and "allocs fs = a # l # as" and "a \<noteq> 0" and "ch_type (fs_root_handle fs) = RL_HANDLE_DEVICE" and "locks fs l = None"
    and "body m = Launch_executable_request cmd args"
  shows "\<exists>fs'. target_on_message_received host fs m = Some (0, fs') \<and> can_send fs' \<and> peer_index fs' = peer_index fs \<and> order_mem fs' = order_mem fs \<and>
           (if spawns fs \<noteq> [] \<and> hd (spawns fs)
            then launched fs' = launched fs @ [order fs l cmd args] \<and>
                 out_text fs' = out_text fs @ wire_msg ((RL_MSG_INIT Launch_executable_answer)\<lparr>hdr_seq := hdr_seq m\<rparr>)
            else launched fs' = launched fs \<and> locks fs' = locks fs \<and>
                 out_text fs' = out_text fs @ wire_msg (RL_MSG_INIT (Error_answer (neterror_code RL_NETERR_SPAWN_FAILURE))))"
proof -
  let ?ok = "spawns fs \<noteq> [] \<and> hd (spawns fs)"
  let ?m = "if ?ok then (RL_MSG_INIT Launch_executable_answer)\<lparr>hdr_seq := hdr_seq m\<rparr>
            else RL_MSG_INIT (Error_answer (neterror_code RL_NETERR_SPAWN_FAILURE))"
  obtain fs1 where fs1: "async_spawn host fs cmd args = Some (if ?ok then 0 else 1, fs1)" "peer.truncate fs1 = peer.truncate fs" "order_mem fs1 = order_mem fs"
    "if ?ok then launched fs1 = launched fs @ [order fs l cmd args] else launched fs1 = launched fs \<and> locks fs1 = locks fs"
    using spawn_outcome [OF assms(3-11)] by blast
  have "can_send fs1" "out_text fs1 = out_text fs" using can_send_trunc [OF fs1(2)] trunc_ok(2) [OF fs1(2)] assms(2) by simp_all
  moreover have "valid_body (body ?m)" "msg_size ?m \<le> 8192" using answer_sizes by (simp_all add: RL_MSG_INIT_def)
  ultimately obtain fs' where fs': "peer_transmit_message host fs1 ?m = Some (0, fs')" "peer.more fs' = peer.more fs1"
    "out_text fs' = out_text fs @ wire_msg ?m" "can_send fs'" "peer_index fs' = peer_index fs1"
    using transmit_sends [of fs1 ?m host] by auto
  have "target_on_message_received host fs m = Some (0, fs')"
    using assms(1,12) fs1(1) fs'(1) by (auto simp: target_on_message_received_def on_launch_executable_request_def Let_def)
  moreover have "peer_index fs1 = peer_index fs" using trunc_fields [OF fs1(2)] by simp
  ultimately show ?thesis using fs'(3-5) fs1(3,4) more_fs [OF fs'(2)] by auto
qed

text \<open>
  Claim C21: a launch request starts the program and is answered. On the Amiga, when there is
  memory, one order goes to a new launcher process if that can be created: the command is the
  path on the device of the peer, or the path itself when it names a device, cut to 127
  bytes, the arguments are cut to 255 bytes, and the request is answered under its sequence
  number. If the process cannot be created nothing is left behind, and the answer is a spawn
  failure, which carries the sequence number 0 and not the one of the request. In both cases the memory of
  the order is accounted for: handed over to the launcher or freed.
\<close>
theorem launch_request_outcome:
  assumes "host_platform host = Amiga" and "can_send fs" and "0 \<le> peer_index fs" and "peer_index fs < 10"
    and "nul_free cmd" and "nul_free args" and "length cmd < 2 ^ 31"
    and "allocs fs = a # l # as" and "a \<noteq> 0" and "ch_type (fs_root_handle fs) = RL_HANDLE_DEVICE" and "locks fs l = None"
    and "body m = Launch_executable_request cmd args"
  shows "\<exists>fs'. target_on_message_received host fs m = Some (0, fs') \<and> order_mem fs' = order_mem fs \<and>
           (if spawns fs \<noteq> [] \<and> hd (spawns fs)
            then (\<exists>lm. launched fs' = launched fs @ [lm] \<and> lm_peer_index lm = peer_index fs \<and> root_lock lm = l \<and>
                    command_path lm = take 127 (if of_char CHR '':'' \<in> set cmd then cmd else device_text (peer_index fs) @ lit '':'' @ cmd) \<and>
                    lm_arguments lm = take 255 args) \<and>
                 out_text fs' = out_text fs @ wire_msg ((RL_MSG_INIT Launch_executable_answer)\<lparr>hdr_seq := hdr_seq m\<rparr>)
            else launched fs' = launched fs \<and> locks fs' = locks fs \<and>
                 out_text fs' = out_text fs @ wire_msg (RL_MSG_INIT (Error_answer (neterror_code RL_NETERR_SPAWN_FAILURE))))"
  using launch_answered [OF assms] by (auto simp: order_def command_text_def)

theorem launch_request_outcome_witness:
  "\<exists>fs' lm. target_on_message_received example_amiga (example_idle True)
       (RL_MSG_INIT (Launch_executable_request (lit ''demo'') (lit ''a b''))) = Some (0, fs') \<and>
     launched fs' = [lm] \<and> lm_peer_index lm = 0 \<and> lm_arguments lm = lit ''a b'' \<and> length (command_path lm) = 9"
proof -
  have "length (device_text 0) = 4" using device_name_eq(2) [of "example_idle True"] by simp
  then show ?thesis
    using launch_request_outcome [of example_amiga "example_idle True" "lit ''demo''" "lit ''a b''" 24 28 "[]"
        "RL_MSG_INIT (Launch_executable_request (lit ''demo'') (lit ''a b''))"]
    by (auto simp: example_amiga_def new_handle_def RL_MSG_INIT_def nul_free_def)
qed

text \<open>
  Claim C29: what the launcher does with an order. If \<^verbatim>\<open>dos.library\<close> does not open it calls nothing at all:
  the order is never taken from its port and never replied to, so the controller does not hear of it. If
  the library opens, the command line is the command and its arguments, never cut; the files are
  opened before and those that were opened are closed after it, the lock is given back here
  only when the program could not be started, and the last call replies the order with the
  return code, 1 instead of -1.
\<close>
theorem launcher_runs_command:
  assumes "length (command_path lm) \<le> 127" and "length (lm_arguments lm) \<le> 255"
  defines "cmdline \<equiv> command_path lm @ (if lm_arguments lm = [] then [] else lit '' '' @ lm_arguments lm)"
  shows "if \<not> dos then cmd_launcher dos opens system lm = Some []
         else \<exists>calls. cmd_launcher dos opens system lm =
                Some ([Open_file (input_path lm), Open_file (output_path lm),
                       System_command cmdline (root_lock lm) (opens (input_path lm)) (opens (output_path lm))] @ calls) \<and>
              last calls = Reply_order (lm\<lparr>result_code := (if system cmdline = - 1 then 1 else system cmdline)\<rparr>) \<and>
              (UnLock_lock (root_lock lm) \<in> set calls \<longleftrightarrow> system cmdline = - 1) \<and>
              (\<forall>h. h \<noteq> 0 \<and> h \<in> {opens (input_path lm), opens (output_path lm)} \<longleftrightarrow> Close_file h \<in> set calls)"
proof -
  have l: "length (command_path lm) < 2 ^ 31" "length (lm_arguments lm) < 2 ^ 31" using assms(1,2) by simp_all
  have "(if lm_arguments lm \<noteq> [] then formatted Amiga 512 (lit ''%s %s'') [AStr (command_path lm), AStr (lm_arguments lm)]
         else formatted Amiga 512 (lit ''%s'') [AStr (command_path lm)]) = Some cmdline"
    using format_pair(2,3) [OF l, of 512 Amiga] assms(1,2) by (simp add: cmdline_def)
  then show ?thesis by (auto simp: cmd_launcher_def Let_def)
qed

theorem launcher_runs_command_witness:
  "(\<exists>calls. cmd_launcher True (\<lambda>_. 0) (\<lambda>_. - 1) (order (example_idle True) 28 (lit ''c:list'') (lit ''x'')) = Some calls \<and>
      System_command (lit ''c:list x'') 28 0 0 \<in> set calls \<and> UnLock_lock 28 \<in> set calls) \<and>
   cmd_launcher False (\<lambda>_. 0) (\<lambda>_. - 1) (order (example_idle True) 28 (lit ''c:list'') (lit ''x'')) = Some []"
  using launcher_runs_command [of "order (example_idle True) 28 (lit ''c:list'') (lit ''x'')" True "\<lambda>_. 0" "\<lambda>_. - 1"]
    launcher_runs_command [of "order (example_idle True) 28 (lit ''c:list'') (lit ''x'')" False "\<lambda>_. 0" "\<lambda>_. - 1"]
  by (auto simp: order_def command_text_def)

section \<open>Failures on the way to a session\<close>

text \<open>
  When the volume of a new peer cannot be mounted, its socket is closed twice: by
  \<open>peer_destroy\<close> and again at the end of \<open>accept_peer\<close>.
\<close>

lemma accept_closes_twice:
  assumes "host_ok host" and "host_platform host = Amiga" and "cell (heap (acc_zeroed env)) = Map.empty"
    and "acc_fd env = Some fd" and "acc_inet env" and "acc_peer env \<noteq> 0" and "acc_fs env \<noteq> 0" and "acc_port env = 0"
    and "peer_init host (server_callbacks host) (acc_zeroed env) (Some (acc_address env)) PEER_INIT_TARGET (peer_count t) = Some (0, p, n)"
  shows "\<exists>t'. accept_peer host t env = Some (0, t') \<and> sockets_closed t' = sockets_closed t @ [fd, fd] \<and> nodes t' = nodes t"
proof -
  have p: "peer_ok p" "peer_index p = peer_count t mod 10"
    using target_init [OF assms(1,3), of "server_callbacks host" "Some (acc_address env)" "peer_count t"] assms(9) by auto
  have "device_name p = Some (device_text (peer_index p))" using device_name_eq(1) [of p] p(2) by simp
  moreover obtain q where q: "rl_amigafs_init p (device_text (peer_index p)) 0 (acc_entry_exists env) (acc_entry env) = Some (1, q)"
    "peer.truncate q = peer.truncate p"
    using copied_some [of RL_FSCLIENT_MAX_PATH "device_text (peer_index p)"]
    by (auto simp: rl_amigafs_init_def rl_amigafs_destroy_def RL_FSCLIENT_MAX_PATH_def Let_def peer.defs)
  moreover obtain q' where "release_peer fd q (t\<lparr>peer_count := n\<rparr>) =
      Some (close_socket fd (t\<lparr>peer_count := n, destroyed := destroyed t @ [q']\<rparr>))"
    using release_peer_ok [of q fd "t\<lparr>peer_count := n\<rparr>"] trunc_ok(1) [OF q(2)] p(1) by (auto simp: peer_ok_def)
  ultimately show ?thesis
    using assms(2,4-9) by (simp add: accept_peer_def close_socket_def Let_def)
qed

text \<open>
  The result of a program goes to the first peer with the index that was noted, and the
  indices repeat after ten connections: it may be another controller.
\<close>

lemma result_to_first_index:
  assumes "peer_chain (nodes t) (peers t) = Some ((a, nd) # cs)" and "process_port t = msg # rest"
    and "peer_index (nd_peer nd) = lm_peer_index msg" and "transport_ok (nd_peer nd)"
  shows "\<exists>t' p. notify_done host t = Some t' \<and> nodes t' = (nodes t)(a \<mapsto> nd\<lparr>nd_peer := p\<rparr>) \<and> process_port t' = rest \<and>
           peer_transmit_message host (nd_peer nd) (RL_MSG_INIT (Executable_done_request (result_code msg))) = Some (0, p)"
proof -
  let ?m = "RL_MSG_INIT (Executable_done_request (result_code msg))"
  have "arrays_ok (body ?m)" by (simp add: arrays_ok_def RL_MSG_INIT_def)
  then obtain p where "peer_transmit_message host (nd_peer nd) ?m = Some (0, p)" using transmit_advances [OF assms(4)] by blast
  then show ?thesis using assms(1-3) by (simp add: notify_done_def Let_def)
qed

end
