(* ===== verification/Rl_Session.thy ===== *)
theory Rl_Session
  imports Rl_Target Rl_Controller
begin

unbundle bit_operations_syntax

text \<open>
  Both ends of a connection together: the requests that the file system of the target sends
  are decoded and served by the controller, and its answers are decoded and completed by the
  file system; and a launch, from the handshake of the controller to the result of the program.
\<close>

section \<open>Messages on the way\<close>

text \<open>A message is read from the bytes that carried it.\<close>

definition received :: "host \<Rightarrow> rl_uint8 list \<Rightarrow> rl_msg option" where
  "received host bs = rl_decode_msg (host_be host) (mwrite (\<lambda>_. 0) 0 bs) 0 (int (length bs))"

lemma received_wire:
  assumes "valid_body (body m)" and "msg_size m \<le> 8192"
  shows "received host (wire_msg m) = Some (as_sent m)"
proof -
  have "mread (mwrite (\<lambda>_. 0) 0 (wire_msg m)) 0 (msg_size m) = wire_msg m"
    using mread_mwrite_same [of "\<lambda>_. 0" 0 "wire_msg m"] by simp
  then show ?thesis
    using rl_decode_msg_wire [OF assms(1), of _ 0 "int (msg_size m)" "host_be host"] assms(2) by (simp add: received_def)
qed

lemma as_sent_body [simp]: "body (as_sent m) = body m" "hdr_seq (as_sent m) = hdr_seq m"
  by (simp_all add: as_sent_def)

text \<open>The file system looks at the body and the sequence number of an answer only.\<close>

lemma network_as_sent: "rl_amigafs_process_network_message host fs (as_sent m) = rl_amigafs_process_network_message host fs m"
proof -
  have "run_completion c host fs aop (as_sent m) = run_completion c host fs aop m" for c aop
    by (cases c) (simp_all add: complete_findinput_def complete_examine_next_def complete_locate_object_def
        complete_read_def complete_write_def)
  then show ?thesis
    by (auto simp: rl_amigafs_process_network_message_def find_pending_op_def rl_msg_kind_of_def split: option.split)
qed

section \<open>A read over the connection\<close>

text \<open>
  As long as an operation is pending, what the file system has sent since the first \<open>n0\<close> bytes
  is decoded and served by the controller, and what it sends is decoded and completed.
\<close>

fun exchange ::
  "nat \<Rightarrow> host \<Rightarrow> host \<Rightarrow> 'w posix \<Rightarrow> nat \<Rightarrow> rl_amigafs \<Rightarrow> 'w controller \<Rightarrow> (rl_amigafs \<times> 'w controller) option" where
  "exchange 0 thost chost os n0 fs ctl = Some (fs, ctl)"
| "exchange (Suc n) thost chost os n0 fs ctl =
     (if pending fs = [] then Some (fs, ctl)
      else do {
        request \<leftarrow> received chost (drop n0 (out_text fs));
        (_, ctl') \<leftarrow> rl_file_serve chost os False ctl request;
        answer \<leftarrow> received thost (drop (length (out_text ctl)) (out_text ctl'));
        (_, fs') \<leftarrow> rl_amigafs_process_network_message thost fs answer;
        exchange n thost chost os (length (out_text fs)) fs' ctl'
      })"

text \<open>The request of the pending read is what was sent last.\<close>

definition asked :: "nat \<Rightarrow> rl_uint32 \<Rightarrow> rl_amigafs \<Rightarrow> bool" where
  "asked n0 hid fs \<longleftrightarrow>
     can_send fs \<and>
     (\<exists>a op pk key h n. pending fs = [(a, op)] \<and> packets fs (input_packet op) = Some pk \<and>
        HANDLE_FROM_LOCK fs (dp_Arg1 pk) = Some key \<and> handle_at fs key = Some h \<and> handle_id h = hid \<and>
        drop n0 (out_text fs) = wire_msg ((RL_MSG_INIT (Read_file_request hid (offset_hi h) (offset_lo h) n))\<lparr>hdr_seq := request_seqno op\<rparr>))"

lemma read_request_size:
  "valid_body (Read_file_request a b c d)" "msg_size ((RL_MSG_INIT (Read_file_request a b c d))\<lparr>hdr_seq := s\<rparr>) \<le> 8192"
  by (simp_all add: valid_body_def msg_size_def fixed_of_def var_of_def layouts_def msg_fields_def RL_MSG_INIT_def)

lemma read_answer_size:
  assumes "length d \<le> 4096"
  shows "valid_body (Read_file_answer d)" "msg_size ((RL_MSG_INIT (Read_file_answer d))\<lparr>hdr_seq := s\<rparr>) \<le> 8192"
  using assms
  by (simp_all add: valid_body_def valid_array_def msg_size_def fixed_of_def var_of_def layouts_def msg_fields_def
      RL_MSG_INIT_def wire_array_def)

lemma transmit_read_asks:
  assumes "can_send q" and "pending q = [(a, op)]" and "packets q (input_packet op) = Some pk"
    and "HANDLE_FROM_LOCK q (dp_Arg1 pk) = Some key" and "handle_at q key = Some h"
    and "transmit_read_request host q h (request_seqno op) n = Some (rc, fs')"
  shows "rc = 0 \<and> asked (length (out_text q)) (handle_id h) fs'"
proof -
  let ?m = "(RL_MSG_INIT (Read_file_request (handle_id h) (offset_hi h) (offset_lo h) (max n 4096)))\<lparr>hdr_seq := request_seqno op\<rparr>"
  have "rc = 0" "can_send fs'" "peer.more fs' = peer.more q" "out_text fs' = out_text q @ wire_msg ?m"
    using transmit_sends [OF assms(1), of ?m host] read_request_size assms(6) by (auto simp: transmit_read_request_def)
  then show ?thesis using assms(2-5) more_fs [of fs' q] more_handles [of fs' q] by (auto simp: asked_def)
qed

lemma rest_fits: "length d \<le> 4096 \<Longrightarrow> (of_nat (length d) :: rl_uint32) - min x (of_nat (length d)) \<le> 4096"
proof -
  assume "length d \<le> 4096"
  then have "unat (of_nat (length d) :: rl_uint32) \<le> 4096" by (simp add: unat_of_nat take_bit_nat_eq_self)
  moreover have "unat (y - min x y) = unat y - unat (min x y)" for y :: rl_uint32 by (rule unat_sub) simp
  ultimately show ?thesis by (simp add: word_le_nat_alt)
qed

lemma complete_asks:
  assumes "can_send fs" and "pending fs = [(a, op)]" and "packets fs (input_packet op) = Some pk"
    and "HANDLE_FROM_LOCK fs (dp_Arg1 pk) = Some key" and "handle_at fs key = Some h"
    and "body msg = Read_file_answer d" and "length d \<le> 4096"
    and "complete_read host fs (a, op) msg = Some fs'" and "pending fs' \<noteq> []"
  shows "asked (length (out_text fs)) (handle_id h) fs'"
proof -
  define s where "s = min (dp_Arg3 pk - readop_bytes_read op pk) (of_nat (length d))"
  define q where "q = taken fs a op key d s"
  let ?op = "op\<lparr>destination := destination op + s\<rparr>"
  let ?q = "update_op (q\<lparr>seqno := seqno q + 1\<rparr>) a (\<lambda>op. op\<lparr>request_seqno := seqno q\<rparr>)"
  have pq: "pending q = [(a, ?op)]" "packets q = packets fs" using assms(2) by (simp_all add: q_def taken_def)
  have t: "peer.truncate ?q = peer.truncate fs" by (simp add: q_def taken_def update_op_def update_handle_def peer.defs split: handle_ptr.splits)
  have h: "handle_at ?q key = Some (h\<lparr>offset_lo := offset_lo h + s\<rparr>)" "HANDLE_FROM_LOCK ?q (dp_Arg1 pk) = Some key"
    using assms(4,5) by (simp_all add: q_def taken_def)
  have fits: "of_nat (length d) - s \<le> 4096" unfolding s_def by (rule rest_fits [OF assms(7)])
  note run = complete_read_eq [OF assms(3-6) s_def fits refl q_def, of host]
  let ?fin = "dp_Arg3 pk = readop_bytes_read ?op pk \<or> of_nat (length d) = (0 :: rl_uint32)"
  have nfin: "\<not> ?fin"
  proof
    assume ?fin
    moreover have "packets (update_handle q key f) (input_packet op) = Some pk" "pending (update_handle q key f) = [(a, ?op)]" for f
      using pq assms(3) by simp_all
    ultimately have "pending fs' = []" using run assms(8) reply_eq [of "update_handle q key _" "input_packet op" pk] by auto
    then show False using assms(9) by simp
  qed
  obtain rc fs1 where tr: "transmit_read_request host ?q (h\<lparr>offset_lo := offset_lo h + s\<rparr>) (seqno q)
      (dp_Arg3 pk - readop_bytes_read ?op pk) = Some (rc, fs1)" "rc = 0 \<longrightarrow> fs' = fs1"
    using assms(8) nfin h(1) unfolding run by (auto simp: Let_def Option.bind_eq_Some_conv split: if_splits)
  have c: "can_send ?q" "out_text ?q = out_text fs" using can_send_trunc [OF t] trunc_ok(2) [OF t] assms(1) by simp_all
  have "pending ?q = [(a, ?op\<lparr>request_seqno := seqno q\<rparr>)]" "packets ?q (input_packet (?op\<lparr>request_seqno := seqno q\<rparr>)) = Some pk"
    using pq assms(3) by simp_all
  from transmit_read_asks [OF c(1) this h(2,1), of host] tr c(2) show ?thesis by simp
qed

lemma start_asks:
  assumes "can_send fs" and "packets fs p = Some pk" and "pending fs = []"
    and "HANDLE_FROM_LOCK fs (dp_Arg1 pk) = Some key" and "handle_at fs key = Some h"
    and "action_read host fs p = Some fs'" and "pending fs' \<noteq> []"
  shows "asked (length (out_text fs)) (handle_id h) fs'"
proof -
  obtain m q where q: "read_from_buffer fs key h pk = (m, q)" by (cases "read_from_buffer fs key h pk")
  have tq: "peer.truncate q = peer.truncate fs" "pending q = []" "packets q = packets fs" "HANDLE_FROM_LOCK q = HANDLE_FROM_LOCK fs"
    using q assms(3) by (auto simp: read_from_buffer_def update_handle_def peer.defs HANDLE_FROM_LOCK_def fun_eq_iff split: option.splits handle_ptr.splits)
  obtain h1 where h1: "handle_at q key = Some h1" "handle_id h1 = handle_id h"
    using q assms(5) by (auto simp: read_from_buffer_def split: option.splits)
  have nrep: "pending r = []" if "reply q' p x y = Some r" "pending q' = []" for q' x y r
    using that by (auto simp: reply_def reply_to_packet_def Option.bind_eq_Some_conv)
  have nb: "\<not> (buffer_overlap h (dp_Arg3 pk) \<noteq> None \<and> m = 0)"
    using assms(2,4-7) q nrep [OF _ tq(2)] by (auto simp: action_read_def)
  obtain a op q1 where al: "alloc_pending q p RL_MSG_READ_FILE_ANSWER complete_read_fn = (Some (a, op), q1)"
    using assms(2,4-7) q nb nrep tq(2)
    by (cases "alloc_pending q p RL_MSG_READ_FILE_ANSWER complete_read_fn")
      (auto simp: action_read_def alloc_pending_def alloc_zeroed_def Let_def split: list.splits if_splits)
  let ?op = "op\<lparr>destination := dp_Arg2 pk + (dp_Arg3 pk - m)\<rparr>"
  let ?q = "update_op q1 a (\<lambda>op. op\<lparr>destination := dp_Arg2 pk + (dp_Arg3 pk - m)\<rparr>)"
  have al': "pending q1 = [(a, op)]" "input_packet op = p" "packets q1 = packets q" "locks q1 = locks q"
    "client_handles q1 = client_handles q" "fs_root_handle q1 = fs_root_handle q" "peer.truncate q1 = peer.truncate q"
    using al tq(2) by (auto simp: alloc_pending_def alloc_zeroed_def Let_def peer.defs split: list.splits if_splits)
  have t: "peer.truncate ?q = peer.truncate fs" using al'(7) tq(1) by (simp add: update_op_def peer.defs)
  have h2: "handle_at ?q key = Some h1" "HANDLE_FROM_LOCK ?q (dp_Arg1 pk) = Some key"
    using h1(1) assms(4) tq(4) al'(4-6) by (simp_all add: handle_at_def HANDLE_FROM_LOCK_def fun_eq_iff update_op_def split: handle_ptr.splits)
  have c: "can_send ?q" "out_text ?q = out_text fs" using can_send_trunc [OF t] trunc_ok(2) [OF t] assms(1) by simp_all
  have pk: "pending ?q = [(a, ?op)]" "packets ?q (input_packet ?op) = Some pk" using al'(1-3) tq(3) assms(2) by simp_all
  obtain rc fs1 where tr: "transmit_read_request host ?q h1 (request_seqno op) m = Some (rc, fs1)" "rc = 0 \<longrightarrow> fs' = fs1"
    using assms(2,4-6) q nb al h2(1) by (auto simp: action_read_def Let_def Option.bind_eq_Some_conv split: if_splits)
  from transmit_read_asks [OF c(1) pk h2(2,1), of host m rc fs1] tr c(2) h1(2) show ?thesis by simp
qed

text \<open>The controller has the file open under the handle of the target, and reading does not change it.\<close>

definition offers :: "'w posix \<Rightarrow> rl_uint32 \<Rightarrow> int \<Rightarrow> rl_uint8 list \<Rightarrow> 'w controller \<Rightarrow> bool" where
  "offers os hid fd F ctl \<longleftrightarrow>
     can_send ctl \<and> fd \<noteq> 0 \<and> (\<exists>r. get_handle_from_id hid = Some r \<and> fh_handle (the_handle ctl r) = fd) \<and>
     posix_file os fd (world ctl) F \<and> (\<forall>off. snd (os_pread os fd 4096 off (world ctl)) = world ctl)"

lemma the_handle_more: "peer.more q = peer.more (p :: 'w controller) \<Longrightarrow> the_handle q = the_handle p"
proof -
  assume m: "peer.more q = peer.more p"
  have "the_handle q r = the_handle p r" for r using m by (cases r; cases p; cases q) simp_all
  then show ?thesis by blast
qed

lemma serve_offered:
  assumes "offers os hid fd F ctl" and "body m = Read_file_request hid hi lo n"
  shows "\<exists>ctl'. rl_file_serve host os False ctl m = Some (0, ctl') \<and> offers os hid fd F ctl' \<and> peer.more ctl' = peer.more ctl \<and>
           out_text ctl' = out_text ctl @ wire_msg ((RL_MSG_INIT (Read_file_answer (pread_data os fd (world ctl) (unat lo))))\<lparr>hdr_seq := hdr_seq m\<rparr>)"
proof -
  let ?d = "pread_data os fd (world ctl) (unat lo)"
  let ?m = "(RL_MSG_INIT (Read_file_answer ?d))\<lparr>hdr_seq := hdr_seq m\<rparr>"
  obtain r where r: "can_send ctl" "fd \<noteq> 0" "get_handle_from_id hid = Some r" "fh_handle (the_handle ctl r) = fd"
    "posix_file os fd (world ctl) F" "\<And>off. snd (os_pread os fd 4096 off (world ctl)) = world ctl"
    using assms(1) by (auto simp: offers_def)
  have "length ?d \<le> 4096" using file_source.short [OF posix_file_source [OF r(5)]] .
  then obtain ctl' where c: "peer_transmit_message host ctl ?m = Some (0, ctl')" "can_send ctl'" "peer.more ctl' = peer.more ctl"
    "out_text ctl' = out_text ctl @ wire_msg ?m"
    using transmit_sends [OF r(1), of ?m host] read_answer_size by auto
  obtain k where "fst (os_pread os fd 4096 (unat lo) (world ctl)) = Some (take k (drop (unat lo) F))"
    using r(5) by (auto simp: posix_file_def)
  then have "os_pread os fd 4096 (unat lo) (world ctl) = (Some ?d, world ctl)"
    using r(6) [of "unat lo"] by (cases "os_pread os fd 4096 (unat lo) (world ctl)") (simp add: pread_data_def)
  then have "rl_file_serve host os False ctl m = Some (0, ctl')"
    using assms(2) r(2-4) c(1) by (simp add: rl_file_serve_def read_file_request_def)
  moreover have "offers os hid fd F ctl'"
    using r c(2) more_ctl(3) [OF c(3)] the_handle_more [OF c(3)] by (auto simp: offers_def)
  ultimately show ?thesis using c(3,4) by blast
qed

text \<open>One request and its answer.\<close>

lemma remote_round:
  assumes "offers os hid fd F ctl" and "reading F M off p pk k fs" and "asked n0 hid fs"
    and "length F < 2 ^ 31" and "off < 2 ^ 31" and "unat (dp_Arg2 pk) + unat (dp_Arg3 pk) < 2 ^ 32"
  shows "\<exists>fs' ctl'. exchange (Suc n) thost chost os n0 fs ctl =
             exchange n thost chost os (length (out_text fs)) fs' ctl' \<and> offers os hid fd F ctl' \<and> peer.more ctl' = peer.more ctl \<and>
           (read_over F M off p pk fs fs' \<or>
            (\<exists>k' > k. reading F M off p pk k' fs' \<and> replies fs' = replies fs \<and> asked (length (out_text fs)) hid fs'))"
proof -
  obtain a op key h cnt where s: "can_send fs" "pending fs = [(a, op)]" "packets fs (input_packet op) = Some pk"
    "HANDLE_FROM_LOCK fs (dp_Arg1 pk) = Some key" "handle_at fs key = Some h" "handle_id h = hid" "offset_lo h = of_nat (off + k)"
    "op_callback op = complete_read_fn" "expected_answer_type op = RL_MSG_READ_FILE_ANSWER" "k \<le> length F - off"
    "drop n0 (out_text fs) = wire_msg ((RL_MSG_INIT (Read_file_request hid (offset_hi h) (offset_lo h) cnt))\<lparr>hdr_seq := request_seqno op\<rparr>)"
    using assms(2,3) unfolding reading_def asked_def by auto
  let ?req = "(RL_MSG_INIT (Read_file_request hid (offset_hi h) (offset_lo h) cnt))\<lparr>hdr_seq := request_seqno op\<rparr>"
  let ?d = "pread_data os fd (world ctl) (off + k)"
  let ?ans = "(RL_MSG_INIT (Read_file_answer ?d))\<lparr>hdr_seq := request_seqno op\<rparr>"
  have src: "file_source (pread_data os fd (world ctl)) F" using assms(1) by (auto simp: offers_def intro: posix_file_source)
  have "off + x < 2 ^ 32" if "x \<le> length F - off" for x using that assms(4,5) by simp
  then have o: "unat (offset_lo h) = off + k" using s(7,10) unat_of_nat32 by metis
  have req: "received chost (drop n0 (out_text fs)) = Some (as_sent ?req)"
    unfolding s(11) using received_wire [of ?req chost] read_request_size by simp
  obtain ctl' where ctl': "rl_file_serve chost os False ctl (as_sent ?req) = Some (0, ctl')" "offers os hid fd F ctl'"
    "peer.more ctl' = peer.more ctl" "out_text ctl' = out_text ctl @ wire_msg ?ans"
    using serve_offered [OF assms(1), of "as_sent ?req" "offset_hi h" "offset_lo h" cnt chost] o by auto
  have len: "length ?d \<le> 4096" using file_source.short [OF src] .
  have ans: "received thost (drop (length (out_text ctl)) (out_text ctl')) = Some (as_sent ?ans)"
    unfolding ctl'(4) using received_wire [of ?ans thost] read_answer_size [OF len] by simp
  obtain fs' where fs': "rl_amigafs_process_network_message thost fs ?ans = Some (0, fs')"
    "read_over F M off p pk fs fs' \<or> (\<exists>k' > k. reading F M off p pk k' fs' \<and> replies fs' = replies fs)"
    using file_source.read_step [OF src assms(2,4-6), of a op "[]" thost] s(2) by blast
  have "complete_read thost fs (a, op) ?ans = Some fs'"
    using fs'(1) network_read [OF s(2,8,9), of ?ans ?d thost] by auto
  then have "asked (length (out_text fs)) hid fs'" if "pending fs' \<noteq> []"
    using complete_asks [OF s(1-5), of ?ans ?d thost fs'] len s(6) that by simp
  moreover have "pending fs' \<noteq> []" if "reading F M off p pk k' fs'" for k' using that by (auto simp: reading_def)
  moreover have "exchange (Suc n) thost chost os n0 fs ctl = exchange n thost chost os (length (out_text fs)) fs' ctl'"
    using s(2) req ctl'(1) ans fs'(1) network_as_sent by simp
  ultimately show ?thesis using ctl'(2,3) fs'(2) by blast
qed

lemma remote_rounds:
  assumes "length F < 2 ^ 31" and "off < 2 ^ 31" and "unat (dp_Arg2 pk) + unat (dp_Arg3 pk) < 2 ^ 32"
  shows "offers os hid fd F ctl \<Longrightarrow> reading F M off p pk k fs \<Longrightarrow> asked n0 hid fs \<Longrightarrow> unat (dp_Arg3 pk) - k < n \<Longrightarrow>
    \<exists>fs' ctl'. exchange n thost chost os n0 fs ctl = Some (fs', ctl') \<and> read_over F M off p pk fs fs' \<and> peer.more ctl' = peer.more ctl"
proof (induction n arbitrary: k fs n0 ctl)
  case (Suc n)
  obtain fs1 ctl1 where r: "exchange (Suc n) thost chost os n0 fs ctl = exchange n thost chost os (length (out_text fs)) fs1 ctl1"
    "offers os hid fd F ctl1" "peer.more ctl1 = peer.more ctl"
    "read_over F M off p pk fs fs1 \<or>
     (\<exists>k' > k. reading F M off p pk k' fs1 \<and> replies fs1 = replies fs \<and> asked (length (out_text fs)) hid fs1)"
    using remote_round [OF Suc.prems(1-3) assms] by blast
  from r(4) show ?case
  proof (elim disjE exE conjE)
    assume over: "read_over F M off p pk fs fs1"
    then have "exchange n thost chost os (length (out_text fs)) fs1 ctl1 = Some (fs1, ctl1)"
      by (cases n) (simp_all add: read_over_def Let_def)
    then show ?thesis using r(1,3) over by auto
  next
    fix k' assume k': "k < k'" "reading F M off p pk k' fs1" "replies fs1 = replies fs" "asked (length (out_text fs)) hid fs1"
    have "k' \<le> unat (dp_Arg3 pk)" using k'(2) by (simp add: reading_def)
    then have "unat (dp_Arg3 pk) - k' < n" using k'(1) Suc.prems(4) by linarith
    then obtain fs' ctl' where "exchange n thost chost os (length (out_text fs)) fs1 ctl1 = Some (fs', ctl')"
      "read_over F M off p pk fs1 fs'" "peer.more ctl' = peer.more ctl1"
      using Suc.IH [OF r(2) k'(2,4)] by blast
    then show ?thesis using r(1,3) k'(3) by (auto simp: read_over_def Let_def)
  qed
qed simp

lemma remote_read_delivers:
  assumes "offers os (handle_id h) fd F ctl" and "can_send fs" and "packets fs p = Some pk" and "pending fs = []"
    and "HANDLE_FROM_LOCK fs (dp_Arg1 pk) = Some key" and "handle_at fs key = Some h" and "buffered F h"
    and "allocs fs = a # as" and "a \<noteq> 0"
    and "length F < 2 ^ 31" and "unat (offset_lo h) < 2 ^ 31" and "unat (dp_Arg2 pk) + unat (dp_Arg3 pk) < 2 ^ 32"
  defines "D \<equiv> take (unat (dp_Arg3 pk)) (drop (unat (offset_lo h)) F)"
  shows "\<exists>fs1 fs2 ctl2. action_read thost fs p = Some fs1 \<and>
           exchange (unat (dp_Arg3 pk) + 1) thost chost os (length (out_text fs)) fs1 ctl = Some (fs2, ctl2) \<and>
           pending fs2 = [] \<and> client_mem fs2 = mwrite (client_mem fs) (unat (dp_Arg2 pk)) D \<and>
           (\<exists>port pk'. replies fs2 = replies fs @ [(port, p, pk')] \<and> dp_Res1 pk' = of_nat (length D) \<and> dp_Res2 pk' = 0) \<and>
           peer.more ctl2 = peer.more ctl"
proof -
  let ?M = "client_mem fs" and ?off = "unat (offset_lo h)" and ?n = "unat (dp_Arg3 pk) + 1"
  have t: "transport_ok fs" using assms(2) by (simp add: can_send_def)
  obtain fs1 where fs1: "action_read thost fs p = Some fs1"
    "read_over F ?M ?off p pk fs fs1 \<or> (\<exists>k. reading F ?M ?off p pk k fs1 \<and> replies fs1 = replies fs)"
    using read_start [OF t assms(3-9)] by blast
  from fs1(2) obtain fs2 ctl2 where "exchange ?n thost chost os (length (out_text fs)) fs1 ctl = Some (fs2, ctl2)"
    "read_over F ?M ?off p pk fs fs2" "peer.more ctl2 = peer.more ctl"
  proof (elim disjE exE conjE)
    assume over: "read_over F ?M ?off p pk fs fs1"
    then have "exchange ?n thost chost os (length (out_text fs)) fs1 ctl = Some (fs1, ctl)" by (simp add: read_over_def Let_def)
    then show thesis using over by (rule that) simp
  next
    fix k assume k: "reading F ?M ?off p pk k fs1" "replies fs1 = replies fs"
    have "pending fs1 \<noteq> []" using k(1) by (auto simp: reading_def)
    then have "asked (length (out_text fs)) (handle_id h) fs1" using start_asks [OF assms(2-6) fs1(1)] by blast
    moreover have "unat (dp_Arg3 pk) - k < ?n" by simp
    ultimately obtain fs2 ctl2 where f: "exchange ?n thost chost os (length (out_text fs)) fs1 ctl = Some (fs2, ctl2)"
      "read_over F ?M ?off p pk fs1 fs2" "peer.more ctl2 = peer.more ctl"
      using remote_rounds [OF assms(10-12,1) k(1)] by blast
    have "read_over F ?M ?off p pk fs fs2" using f(2) k(2) by (simp add: read_over_def Let_def)
    from that [OF f(1) this f(3)] show thesis .
  qed
  then show ?thesis using fs1(1) unfolding read_over_def D_def Let_def by blast
qed

text \<open>
  Claim C3: a read on the Amiga delivers the file of the controller. The read starts at the file
  system of the target; its requests travel as bytes, are decoded and served by the file
  server, whatever the byte orders of the two machines, and the answers travel back. When the
  controller has a file open under the handle and both ends have memory, the read ends after
  at most as many exchanges as bytes are wanted, and one more; the program's buffer then holds the bytes of
  the file from the position of the handle on, nothing else of its memory has changed, the
  packet is replied to once with their number, and the controller's data are as before.
\<close>
theorem remote_read_file:
  assumes "offers os (handle_id h) fd F ctl" and "can_send fs" and "packets fs p = Some pk" and "pending fs = []"
    and "HANDLE_FROM_LOCK fs (dp_Arg1 pk) = Some key" and "handle_at fs key = Some h" and "buffered F h"
    and "allocs fs = a # as" and "a \<noteq> 0"
    and "length F < 2 ^ 31" and "unat (offset_lo h) < 2 ^ 31" and "unat (dp_Arg2 pk) + unat (dp_Arg3 pk) < 2 ^ 32"
  defines "D \<equiv> take (unat (dp_Arg3 pk)) (drop (unat (offset_lo h)) F)"
  shows "\<exists>fs1 fs2 ctl2. action_read thost fs p = Some fs1 \<and>
           exchange (unat (dp_Arg3 pk) + 1) thost chost os (length (out_text fs)) fs1 ctl = Some (fs2, ctl2) \<and>
           pending fs2 = [] \<and> client_mem fs2 = mwrite (client_mem fs) (unat (dp_Arg2 pk)) D \<and>
           (\<exists>port pk'. replies fs2 = replies fs @ [(port, p, pk')] \<and> dp_Res1 pk' = of_nat (length D) \<and> dp_Res2 pk' = 0) \<and>
           peer.more ctl2 = peer.more ctl"
  using remote_read_delivers [OF assms(1-12)] unfolding D_def .

theorem remote_read_file_witness:
  "\<exists>fs1 fs2 ctl2. action_read example_amiga (example_open ((example_packet ACTION_READ 20)\<lparr>dp_Arg3 := 4\<rparr>)) 8 = Some fs1 \<and>
     exchange 5 example_amiga example_host example_os (length (out_text (example_open ((example_packet ACTION_READ 20)\<lparr>dp_Arg3 := 4\<rparr>))))
       fs1 example_controller = Some (fs2, ctl2) \<and> mread (client_mem fs2) 1000 4 = lit ''hell''"
proof -
  let ?pk = "(example_packet ACTION_READ 20)\<lparr>dp_Arg3 := 4\<rparr>" and ?h = "new_handle RL_HANDLE_FILE 0 5 (lit ''f'')"
  have a: "dp_Arg1 ?pk = 20" "dp_Arg2 ?pk = 1000" "dp_Arg3 ?pk = 4" by (simp_all add: example_packet_def)
  have h: "offset_lo ?h = 0" "buffered (lit ''hello'') ?h" "handle_id ?h = 0" by (simp_all add: buffered_def new_handle_def)
  have "get_handle_from_id 0 = Some (Slot 0)" by (simp add: get_handle_from_id_def RL_MAX_FILE_HANDLES_def
        RL_FILEHANDLE_VIRTUAL_INPUT_def RL_FILEHANDLE_VIRTUAL_OUTPUT_def)
  moreover have "snd (os_pread example_os 7 4096 off w) = w" for off w by (simp add: example_os_def)
  moreover have "can_send example_controller" using example_controller_ok(1) by (simp add: can_answer_def can_send_def)
  ultimately have "offers example_os 0 7 (lit ''hello'') example_controller"
    using example_file by (auto simp: offers_def example_handle_def)
  then have "offers example_os (handle_id ?h) 7 (lit ''hello'') example_controller" unfolding h(3) .
  from remote_read_file [OF this example_open_ok(1) [of ?pk], of 8 ?pk "Client_handle 24" 28 "[]" example_amiga example_host] a h
  obtain fs1 fs2 ctl2 where f: "action_read example_amiga (example_open ?pk) 8 = Some fs1"
    "exchange 5 example_amiga example_host example_os (length (out_text (example_open ?pk))) fs1 example_controller = Some (fs2, ctl2)"
    "client_mem fs2 = mwrite (client_mem (example_open ?pk)) 1000 (take 4 (lit ''hello''))"
    by auto
  moreover have "mread (client_mem fs2) 1000 4 = lit ''hell''" unfolding f(3) by (simp add: mread_def mwrite_def lit_def)
  ultimately show ?thesis by blast
qed

section \<open>A session\<close>

lemma launch_request_size:
  assumes "valid_string e" and "valid_string a"
  shows "valid_body (Launch_executable_request e a)" "msg_size (RL_MSG_INIT (Launch_executable_request e a)) \<le> 8192"
  using assms
  by (simp_all add: valid_body_def msg_size_def fixed_of_def var_of_def layouts_def msg_fields_def RL_MSG_INIT_def
      wire_string_def valid_string_def)

lemma done_size: "valid_body (Executable_done_request rc)" "msg_size (RL_MSG_INIT (Executable_done_request rc)) \<le> 8192"
  by (simp_all add: valid_body_def msg_size_def fixed_of_def var_of_def layouts_def msg_fields_def RL_MSG_INIT_def)

lemma connected_sends:
  assumes "can_send ctl" and "ctl_data ctl" and "valid_string (executable ctl)"
  defines "args \<equiv> take 254 (spaced True (arguments ctl))"
  shows "\<exists>ctl1. ctl_on_connected host ctl = Some (0, ctl1) \<and> can_send ctl1 \<and> ctl_state ctl1 = CONTROLLER_WAIT_EXECUTABLE_LAUNCHED \<and>
           out_text ctl1 = out_text ctl @ wire_msg (RL_MSG_INIT (Launch_executable_request (executable ctl) args)) \<and> valid_string args"
proof -
  have l: "list_all c_argument (arguments ctl)" using assms(2) by (simp add: ctl_data_def)
  have v: "valid_string args" using spaced_nul_free [OF l] by (simp add: args_def valid_string_def nul_free_take)
  let ?m = "RL_MSG_INIT (Launch_executable_request (executable ctl) args)"
  obtain p where p: "peer_transmit_message host ctl ?m = Some (0, p)" "can_send p" "out_text p = out_text ctl @ wire_msg ?m"
    using transmit_sends [OF assms(1), of ?m host] launch_request_size [OF assms(3) v] by (auto simp: RL_MSG_INIT_def)
  let ?p = "p\<lparr>ctl_state := CONTROLLER_WAIT_EXECUTABLE_LAUNCHED\<rparr>"
  have t: "peer.truncate ?p = peer.truncate p" by simp
  have "ctl_on_connected host ctl = Some (0, ?p)"
    using arguments_text_eq [OF l] p(1) by (simp add: ctl_on_connected_def args_def)
  then show ?thesis using p(2,3) v can_send_trunc [OF t] trunc_ok(2) [OF t] by auto
qed

text \<open>The order that comes back is reported to its peer, and the controller takes over the result.\<close>

lemma result_reported:
  assumes "nodes t x = Some nd" and "peers t = x" and "x \<noteq> 0" and "nd_next nd = 0" and "can_send fs" and "nd_peer nd = fs"
    and "process_port t = lm # orders" and "lm_peer_index lm = peer_index fs" and "ctl_state ctl = CONTROLLER_FILE_SERVING"
  shows "\<exists>t' nd' m. notify_done thost t = Some t' \<and> nodes t' x = Some nd' \<and>
           received chost (drop (length (out_text fs)) (out_text (nd_peer nd'))) = Some m \<and>
           on_message_received chost os debug ctl m = Some (1, ctl\<lparr>ctl_result := result_code lm\<rparr>)"
proof -
  let ?m = "RL_MSG_INIT (Executable_done_request (result_code lm))"
  have "linked (nodes t) (peers t) [x]" using assms(1-4) by simp
  then have "peer_chain (nodes t) (peers t) = Some [(x, nd)]" using chain_linked assms(1) by fastforce
  moreover have "transport_ok fs" using assms(5) by (simp add: can_send_def)
  ultimately obtain t' p where t': "notify_done thost t = Some t'" "nodes t' x = Some (nd\<lparr>nd_peer := p\<rparr>)"
    "peer_transmit_message thost fs ?m = Some (0, p)"
    using result_to_first_index [of t x nd "[]" lm orders thost] assms(6-8) by auto
  have "out_text p = out_text fs @ wire_msg ?m"
    using transmit_sends [OF assms(5), of ?m thost] done_size t'(3) by (auto simp: RL_MSG_INIT_def)
  then have "received chost (drop (length (out_text fs)) (out_text p)) = Some (as_sent ?m)"
    using received_wire [of ?m chost] done_size [of "result_code lm"] by (simp add: RL_MSG_INIT_def)
  moreover have "on_message_received chost os debug ctl (as_sent ?m) = Some (1, ctl\<lparr>ctl_result := result_code lm\<rparr>)"
    using assms(9) by (simp add: on_message_received_def) (simp add: RL_MSG_INIT_def)
  ultimately show ?thesis using t'(1,2) by auto
qed

text \<open>
  Claim C7: a session launches the program and brings back its result. When the controller is
  connected it sends one request; on the Amiga, with memory and a process to create, the
  target sends a launcher the order to run the executable of the controller, on the device
  of this connection unless it names another one, with the controller's arguments; its
  answer makes the controller serve files. When the order comes back with a return code, the
  target reports it, and on that message the controller has it as its result and ends.
  Every message is decoded from the bytes that were sent, for either byte order.
\<close>
theorem launch_session:
  assumes "can_send ctl" and "ctl_data ctl" and "valid_string (executable ctl)"
    and "host_platform thost = Amiga" and "can_send fs" and "0 \<le> peer_index fs" and "peer_index fs < 10"
    and "allocs fs = a # l # as" and "a \<noteq> 0" and "ch_type (fs_root_handle fs) = RL_HANDLE_DEVICE" and "locks fs l = None"
    and "spawns fs = True # rest"
  shows "\<exists>ctl1 m1 fs1 lm m2 ctl2.
           ctl_on_connected chost ctl = Some (0, ctl1) \<and>
           received thost (drop (length (out_text ctl)) (out_text ctl1)) = Some m1 \<and>
           target_on_message_received thost fs m1 = Some (0, fs1) \<and> launched fs1 = launched fs @ [lm] \<and>
           command_path lm = command_text (peer_index fs) (executable ctl) \<and>
           lm_arguments lm = take 254 (spaced True (arguments ctl)) \<and>
           received chost (drop (length (out_text fs)) (out_text fs1)) = Some m2 \<and>
           on_message_received chost os debug ctl1 m2 = Some (0, ctl2) \<and> ctl_state ctl2 = CONTROLLER_FILE_SERVING \<and>
           (\<forall>t x nd rc orders. nodes t x = Some nd \<and> peers t = x \<and> x \<noteq> 0 \<and> nd_next nd = 0 \<and> nd_peer nd = fs1 \<and>
                process_port t = lm\<lparr>result_code := rc\<rparr> # orders \<longrightarrow>
              (\<exists>t' nd' m3. notify_done thost t = Some t' \<and> nodes t' x = Some nd' \<and>
                 received chost (drop (length (out_text fs1)) (out_text (nd_peer nd'))) = Some m3 \<and>
                 on_message_received chost os debug ctl2 m3 = Some (1, ctl2\<lparr>ctl_result := rc\<rparr>)))"
proof -
  let ?args = "take 254 (spaced True (arguments ctl))"
  let ?m1 = "RL_MSG_INIT (Launch_executable_request (executable ctl) ?args)"
  obtain ctl1 where c1: "ctl_on_connected chost ctl = Some (0, ctl1)" "ctl_state ctl1 = CONTROLLER_WAIT_EXECUTABLE_LAUNCHED"
    "out_text ctl1 = out_text ctl @ wire_msg ?m1" "valid_string ?args"
    using connected_sends [OF assms(1-3)] by blast
  have m1: "received thost (drop (length (out_text ctl)) (out_text ctl1)) = Some (as_sent ?m1)"
    unfolding c1(3) using received_wire [of ?m1 thost] launch_request_size [OF assms(3) c1(4)] by (simp add: RL_MSG_INIT_def)
  have "nul_free (executable ctl)" "nul_free ?args" "length (executable ctl) < 2 ^ 31" using assms(3) c1(4) by (auto simp: valid_string_def)
  moreover have "body (as_sent ?m1) = Launch_executable_request (executable ctl) ?args" "hdr_seq (as_sent ?m1) = 0"
    by (simp_all add: RL_MSG_INIT_def)
  ultimately obtain fs1 where f1: "target_on_message_received thost fs (as_sent ?m1) = Some (0, fs1)" "can_send fs1"
    "peer_index fs1 = peer_index fs" "launched fs1 = launched fs @ [order fs l (executable ctl) ?args]"
    "out_text fs1 = out_text fs @ wire_msg ((RL_MSG_INIT Launch_executable_answer)\<lparr>hdr_seq := 0\<rparr>)"
    using launch_answered [OF assms(4-7) _ _ _ assms(8-11), of "executable ctl" ?args "as_sent ?m1"] assms(12) by auto
  let ?lm = "order fs l (executable ctl) ?args" and ?m2 = "(RL_MSG_INIT Launch_executable_answer)\<lparr>hdr_seq := 0\<rparr>"
  let ?ctl2 = "ctl1\<lparr>ctl_state := CONTROLLER_FILE_SERVING\<rparr>"
  have m2: "received chost (drop (length (out_text fs)) (out_text fs1)) = Some (as_sent ?m2)"
    unfolding f1(5) using received_wire [of ?m2 chost] answer_sizes by simp
  have c2: "on_message_received chost os debug ctl1 (as_sent ?m2) = Some (0, ?ctl2)"
    using c1(2) by (simp add: on_message_received_def)
  have res: "\<exists>t' nd' m3. notify_done thost t = Some t' \<and> nodes t' x = Some nd' \<and>
      received chost (drop (length (out_text fs1)) (out_text (nd_peer nd'))) = Some m3 \<and>
      on_message_received chost os debug ?ctl2 m3 = Some (1, ?ctl2\<lparr>ctl_result := rc\<rparr>)"
    if "nodes t x = Some nd" "peers t = x" "x \<noteq> 0" "nd_next nd = 0" "nd_peer nd = fs1"
      "process_port t = ?lm\<lparr>result_code := rc\<rparr> # orders" for t x nd rc orders
    using result_reported [OF that(1-4) f1(2) that(5,6), where ctl = ?ctl2] f1(3) by (simp add: order_def)
  have lm: "command_path ?lm = command_text (peer_index fs) (executable ctl)" "lm_arguments ?lm = ?args"
    by (simp_all add: order_def)
  show ?thesis
    by (intro exI [of _ ctl1] exI [of _ "as_sent ?m1"] exI [of _ fs1] exI [of _ ?lm] exI [of _ "as_sent ?m2"] exI [of _ ?ctl2] conjI)
      (use c1(1) m1 f1(1,4) lm m2 c2 res in auto)
qed

theorem launch_session_witness:
  "\<exists>ctl1 m1 fs1 lm. ctl_on_connected example_host example_controller = Some (0, ctl1) \<and>
     received example_amiga (drop (length (out_text example_controller)) (out_text ctl1)) = Some m1 \<and>
     target_on_message_received example_amiga (example_idle True) m1 = Some (0, fs1) \<and> launched fs1 = [lm] \<and>
     lm_arguments lm = lit ''a b''"
proof -
  have e: "executable example_controller = lit ''demo''" "arguments example_controller = [lit ''a'', lit ''b'']"
    by (simp_all add: example_controller_def example_peer_def peer.defs controller.defs)
  have c: "can_send example_controller" using example_controller_ok(1) by (simp add: can_answer_def can_send_def)
  have "valid_string (executable example_controller)" by (simp add: e valid_string_def)
  then show ?thesis
    using launch_session [OF c example_controller_data(1), of example_amiga "example_idle True" 24 28 "[]" "[]" example_host example_os False] e(2)
    by (auto simp: example_amiga_def new_handle_def)
qed

end
