(* ===== verification/Rl_Open.thy ===== *)
theory Rl_Open
  imports Rl_Session
begin

unbundle bit_operations_syntax

text \<open>
  Opening a file over the connection: the packet on the Amiga (\<^verbatim>\<open>src/src/amigafs.c\<close>), the request, the
  file server of the controller (\<^verbatim>\<open>src/src/file_server.c\<close>), the answer and its completion.
\<close>

section \<open>The request\<close>

text \<open>The file system once the request is on its way; \<open>a\<close> is the address of the pending operation.\<close>

definition open_sent :: "rl_amigafs \<Rightarrow> addr \<Rightarrow> addr \<Rightarrow> addr list \<Rightarrow> rl_amigafs" where
  "open_sent fs p a as =
     fs\<lparr>allocs := as, seqno := seqno fs + 1,
        pending := [(a, \<lparr>request_seqno = seqno fs, input_packet = p, expected_answer_type = RL_MSG_OPEN_HANDLE_ANSWER,
                         op_callback = complete_findinput_fn, destination = 0, w_source = 0, w_length = 0\<rparr>)]\<rparr>"

definition open_request :: "cstring \<Rightarrow> rl_uint32 \<Rightarrow> rl_msg" where
  "open_request name s = (RL_MSG_INIT (Open_handle_request (drop_device name) RL_OPENFLAG_READ))\<lparr>hdr_seq := s\<rparr>"

lemma open_sizes:
  "valid_string path \<Longrightarrow> valid_body (Open_handle_request path md)"
  "valid_string path \<Longrightarrow> msg_size ((RL_MSG_INIT (Open_handle_request path md))\<lparr>hdr_seq := s\<rparr>) \<le> 8192"
  "valid_body (Open_handle_answer i z ty)" "msg_size ((RL_MSG_INIT (Open_handle_answer i z ty))\<lparr>hdr_seq := s\<rparr>) \<le> 8192"
  "valid_body (Error_answer c)" "msg_size ((RL_MSG_INIT (Error_answer c))\<lparr>hdr_seq := s\<rparr>) \<le> 8192"
  "valid_body (Close_handle_request i)" "msg_size ((RL_MSG_INIT (Close_handle_request i))\<lparr>hdr_seq := s\<rparr>) \<le> 8192"
  by (simp_all add: valid_body_def valid_string_def msg_size_def fixed_of_def var_of_def layouts_def msg_fields_def RL_MSG_INIT_def
      wire_string_def)

lemma cstr_eq:
  assumes "str_at m (unat a) name"
  shows "cstr m a = Some name"
proof -
  have "mread m (unat a) (length name) = take (length name) (mread m (unat a) (length name + 1))" by (simp add: take_mread)
  also have "\<dots> = name" using assms by (simp add: str_at_def)
  finally show ?thesis using rl_strlen_correct [OF assms] by (simp add: cstr_def)
qed

lemma findinput_asks:
  assumes "can_send fs" and "packets fs p = Some pk" and "pending fs = []" and "allocs fs = a # as" and "a \<noteq> 0"
    and "str_at (client_mem fs) (unat (BSTR_PTR (BCPL_CAST (dp_Arg3 pk)))) name"
    and "valid_string (drop_device name)" and "drop_device name \<noteq> RLAUNCH_VIRTUAL_INPUT_FILE"
    and "HANDLE_FROM_LOCK fs (BCPL_CAST (dp_Arg2 pk)) \<noteq> None"
  shows "\<exists>fs1. action_findinput host fs p = Some fs1 \<and> can_send fs1 \<and> peer.more fs1 = peer.more (open_sent fs p a as) \<and>
           out_text fs1 = out_text fs @ wire_msg (open_request name (seqno fs))"
proof -
  let ?q = "open_sent fs p a as" and ?m = "open_request name (seqno fs)"
  have t: "peer.truncate ?q = peer.truncate fs" by (simp add: open_sent_def)
  have "valid_body (body ?m)" "msg_size ?m \<le> 8192" using open_sizes(1,2) [OF assms(7)] by (simp_all add: open_request_def)
  then obtain fs1 where fs1: "peer_transmit_message host ?q ?m = Some (0, fs1)" "can_send fs1" "peer.more fs1 = peer.more ?q"
    "out_text fs1 = out_text ?q @ wire_msg ?m"
    using transmit_sends [of ?q ?m host] can_send_trunc [OF t] assms(1) by blast
  have "alloc_pending fs p RL_MSG_OPEN_HANDLE_ANSWER complete_findinput_fn =
      (Some (a, snd (hd (pending ?q))), ?q)"
    using assms(3-5) by (simp add: alloc_pending_def alloc_zeroed_def open_sent_def Let_def)
  then have "action_findinput host fs p = Some fs1"
    using assms(2,8,9) cstr_eq [OF assms(6)] fs1(1) by (auto simp: action_findinput_def open_request_def open_sent_def)
  then show ?thesis using fs1 trunc_ok(2) [OF t] by simp
qed

section \<open>The answer\<close>

definition open_answer :: "(rl_proto_neterror + handle_ref) \<Rightarrow> 'w controller \<Rightarrow> rl_uint32 \<Rightarrow> rl_msg" where
  "open_answer r q s =
     (RL_MSG_INIT (case r of
        Inl e \<Rightarrow> Error_answer (neterror_code e)
      | Inr h \<Rightarrow> Open_handle_answer (get_filehandle_index h) (fh_size (the_handle q h)) (fh_type (the_handle q h))))\<lparr>hdr_seq := s\<rparr>"

lemma open_answer_size: "valid_body (body (open_answer r q s))" "msg_size (open_answer r q s) \<le> 8192"
  using open_sizes by (cases r; simp add: open_answer_def)+

lemma open_answered:
  assumes "can_send ctl" and "body m = Open_handle_request path md"
  shows "\<exists>r q ctl1. make_handle os ctl path md = Some (r, q) \<and> rl_file_serve host os False ctl m = Some (0, ctl1) \<and>
           can_send ctl1 \<and> peer.more ctl1 = peer.more q \<and> out_text ctl1 = out_text ctl @ wire_msg (open_answer r q (hdr_seq m))"
proof -
  obtain r q where m: "make_handle os ctl path md = Some (r, q)" "same_peer ctl q" using make_handle_same [of os ctl path md] by blast
  have t: "peer.truncate q = peer.truncate ctl" using m(2) by (simp add: same_peer_def)
  obtain ctl1 where c: "peer_transmit_message host q (open_answer r q (hdr_seq m)) = Some (0, ctl1)" "can_send ctl1"
    "peer.more ctl1 = peer.more q" "out_text ctl1 = out_text q @ wire_msg (open_answer r q (hdr_seq m))"
    using transmit_sends [of q "open_answer r q (hdr_seq m)" host] open_answer_size can_send_trunc [OF t] assms(1) by blast
  have "rl_file_serve host os False ctl m = Some (0, ctl1)"
    using assms(2) m(1) c(1)
    by (cases r) (simp_all add: rl_file_serve_def open_handle_request_def reply_with_error_def open_answer_def)
  then show ?thesis using m(1) c(2-4) trunc_ok(2) [OF t] by auto
qed

section \<open>The completion\<close>

text \<open>
  What the open leaves behind: an error is handed on; a directory is refused and closed again; a
  file gets a lock and a handle, and the program's file handle refers to the lock.
\<close>

definition replied :: "rl_amigafs \<Rightarrow> addr \<Rightarrow> LONG \<Rightarrow> LONG \<Rightarrow> rl_amigafs \<Rightarrow> bool" where
  "replied fs p res1 res2 fs' \<longleftrightarrow>
     pending fs' = [] \<and> packets fs' p = None \<and>
     (\<exists>port pk. replies fs' = replies fs @ [(port, p, pk)] \<and> dp_Res1 pk = res1 \<and> dp_Res2 pk = res2)"

lemma complete_error:
  assumes "can_send fs1" and "peer.more fs1 = peer.more (open_sent fs p a as)" and "packets fs p = Some pk"
  shows "\<exists>fs2. rl_amigafs_process_network_message host fs1 ((RL_MSG_INIT (Error_answer c))\<lparr>hdr_seq := seqno fs\<rparr>) = Some (0, fs2) \<and>
           can_send fs2 \<and> replied fs p DOSFALSE (translate_error_code c) fs2 \<and> locks fs2 = locks fs \<and>
           client_handles fs2 = client_handles fs \<and> out_text fs2 = out_text fs1"
proof -
  note f = more_fs [OF assms(2)]
  have k: "rl_msg_kind_of ((RL_MSG_INIT (Error_answer c))\<lparr>hdr_seq := seqno fs\<rparr>) \<noteq> RL_MSG_OPEN_HANDLE_ANSWER"
    by (simp add: rl_msg_kind_of_def RL_MSG_INIT_def RL_MSG_OPEN_HANDLE_ANSWER_def)
  have pk: "packets fs1 p = Some pk" using f assms(3) by (simp add: open_sent_def)
  let ?r = "fs1\<lparr>packets := (packets fs1)(p := None),
      replies := replies fs1 @ [(dp_Port pk, p, pk\<lparr>dp_Res1 := DOSFALSE, dp_Res2 := translate_error_code c, dp_Port := device_port fs1\<rparr>)]\<rparr>"
  have "rl_amigafs_process_network_message host fs1 ((RL_MSG_INIT (Error_answer c))\<lparr>hdr_seq := seqno fs\<rparr>) = Some (0, unlink_pending ?r a)"
    using k reply_eq [OF pk] f by (simp add: rl_amigafs_process_network_message_def find_pending_op_def open_sent_def)
  moreover have t: "peer.truncate (unlink_pending ?r a) = peer.truncate fs1" by (simp add: unlink_pending_def)
  ultimately show ?thesis
    using f can_send_trunc [OF t] trunc_ok(2) [OF t] assms(1) by (simp add: replied_def unlink_pending_def open_sent_def)
qed

lemma complete_file:
  assumes "can_send fs1" and "peer.more fs1 = peer.more (open_sent fs p a (l # hp # as))" and "packets fs p = Some pk"
    and "str_at (client_mem fs) (unat (BSTR_PTR (BCPL_CAST (dp_Arg3 pk)))) name" and "l \<noteq> 0" and "hp \<noteq> 0"
  shows "\<exists>fs2. rl_amigafs_process_network_message host fs1
             ((RL_MSG_INIT (Open_handle_answer i z RL_NODE_TYPE_FILE))\<lparr>hdr_seq := seqno fs\<rparr>) = Some (0, fs2) \<and>
           can_send fs2 \<and> replied fs p DOSTRUE 0 fs2 \<and> HANDLE_FROM_LOCK fs2 l = Some (Client_handle hp) \<and>
           handle_at fs2 (Client_handle hp) = Some (new_handle RL_HANDLE_FILE i z (take 107 name)) \<and>
           map_option fh_Arg1 (file_handles fs2 (BCPL_CAST (dp_Arg1 pk))) = Some l \<and>
           client_mem fs2 = client_mem fs \<and> allocs fs2 = as"
proof -
  note f = more_fs [OF assms(2)]
  let ?m = "(RL_MSG_INIT (Open_handle_answer i z RL_NODE_TYPE_FILE))\<lparr>hdr_seq := seqno fs\<rparr>"
  have k: "rl_msg_kind_of ?m = RL_MSG_OPEN_HANDLE_ANSWER"
    by (simp add: rl_msg_kind_of_def RL_MSG_INIT_def RL_MSG_OPEN_HANDLE_ANSWER_def)
  have c: "copied RL_FSCLIENT_MAX_PATH name = Some (take 107 name)"
    using copied_eq [of name RL_FSCLIENT_MAX_PATH] assms(4) by (simp add: RL_FSCLIENT_MAX_PATH_def str_at_def)
  define x where "x = fs1\<lparr>allocs := as, client_handles := (client_handles fs1)(hp \<mapsto> new_handle RL_HANDLE_FILE i z (take 107 name)),
           locks := (locks fs1)(l \<mapsto> \<lparr>fl_Key = Client_handle hp, fl_Access = SHARED_LOCK, fl_Task = device_port fs1,
                                      fl_Volume = MKBADDR (device_list fs1)\<rparr>)\<rparr>"
  define q where "q = fill_file_handle x (BCPL_CAST (dp_Arg1 pk)) l"
  have al: "allocate_lock fs1 RL_HANDLE_FILE i SHARED_LOCK name z = Some (l, x)"
    using f(10) assms(5,6) c by (simp add: allocate_lock_def alloc_zeroed_def open_sent_def x_def)
  have qf: "packets q p = Some pk" "pending q = pending fs1" "replies q = replies fs" "client_mem q = client_mem fs" "allocs q = as"
    "peer.truncate q = peer.truncate fs1"
    using f assms(3) by (simp_all add: q_def x_def fill_file_handle_def open_sent_def)
  let ?r = "q\<lparr>packets := (packets q)(p := None),
      replies := replies q @ [(dp_Port pk, p, pk\<lparr>dp_Res1 := DOSTRUE, dp_Res2 := 0, dp_Port := device_port q\<rparr>)]\<rparr>"
  have "cstr (client_mem fs1) (BSTR_PTR (BCPL_CAST (dp_Arg3 pk))) = Some name" using cstr_eq [OF assms(4)] f(8) by (simp add: open_sent_def)
  then have "rl_amigafs_process_network_message host fs1 ?m = Some (0, unlink_pending ?r a)"
    using k f(2,3) al reply_eq [OF qf(1)] assms(3,5)
    by (simp add: rl_amigafs_process_network_message_def find_pending_op_def open_sent_def complete_findinput_def
        q_def [symmetric] DOSTRUE_def DOSFALSE_def)
  moreover have t: "peer.truncate (unlink_pending ?r a) = peer.truncate fs1" using qf(6) by (simp add: unlink_pending_def)
  moreover have "map_option fh_Arg1 (file_handles q (BCPL_CAST (dp_Arg1 pk))) = Some l" "HANDLE_FROM_LOCK q l = Some (Client_handle hp)"
    "handle_at q (Client_handle hp) = Some (new_handle RL_HANDLE_FILE i z (take 107 name))"
    by (simp_all add: q_def x_def fill_file_handle_def HANDLE_FROM_LOCK_def handle_at_def)
  ultimately show ?thesis
    using qf f(2) can_send_trunc [OF t] assms(1)
    by (simp add: replied_def unlink_pending_def open_sent_def HANDLE_FROM_LOCK_def handle_at_def)
qed

lemma complete_directory:
  assumes "can_send fs1" and "peer.more fs1 = peer.more (open_sent fs p a as)" and "packets fs p = Some pk"
    and "str_at (client_mem fs) (unat (BSTR_PTR (BCPL_CAST (dp_Arg3 pk)))) name" and "ty \<noteq> RL_NODE_TYPE_FILE"
  shows "\<exists>fs2. rl_amigafs_process_network_message host fs1
             ((RL_MSG_INIT (Open_handle_answer i z ty))\<lparr>hdr_seq := seqno fs\<rparr>) = Some (0, fs2) \<and>
           can_send fs2 \<and> replied fs p DOSFALSE ERROR_OBJECT_WRONG_TYPE fs2 \<and> locks fs2 = locks fs \<and> client_handles fs2 = client_handles fs \<and>
           out_text fs2 = out_text fs1 @ wire_msg ((RL_MSG_INIT (Close_handle_request i))\<lparr>hdr_seq := seqno fs + 1\<rparr>)"
proof -
  note f = more_fs [OF assms(2)]
  let ?m = "(RL_MSG_INIT (Open_handle_answer i z ty))\<lparr>hdr_seq := seqno fs\<rparr>"
  let ?c = "(RL_MSG_INIT (Close_handle_request i))\<lparr>hdr_seq := seqno fs1\<rparr>"
  have k: "rl_msg_kind_of ?m = RL_MSG_OPEN_HANDLE_ANSWER"
    by (simp add: rl_msg_kind_of_def RL_MSG_INIT_def RL_MSG_OPEN_HANDLE_ANSWER_def)
  let ?q = "fs1\<lparr>seqno := seqno fs1 + 1\<rparr>"
  have t: "peer.truncate ?q = peer.truncate fs1" by simp
  obtain q where q: "peer_transmit_message host ?q ?c = Some (0, q)" "can_send q" "peer.more q = peer.more ?q"
    "out_text q = out_text ?q @ wire_msg ?c"
    using transmit_sends [of ?q ?c host] open_sizes(7,8) can_send_trunc [OF t] assms(1) by auto
  note g = more_fs [OF q(3)]
  have pk: "packets q p = Some pk" using f g assms(3) by (simp add: open_sent_def)
  let ?r = "q\<lparr>packets := (packets q)(p := None),
      replies := replies q @ [(dp_Port pk, p, pk\<lparr>dp_Res1 := DOSFALSE, dp_Res2 := ERROR_OBJECT_WRONG_TYPE, dp_Port := device_port q\<rparr>)]\<rparr>"
  have "cstr (client_mem fs1) (BSTR_PTR (BCPL_CAST (dp_Arg3 pk))) = Some name" using cstr_eq [OF assms(4)] f(8) by (simp add: open_sent_def)
  then have "rl_amigafs_process_network_message host fs1 ?m = Some (0, unlink_pending ?r a)"
    using k f q(1) reply_eq [OF pk] assms(3,5)
    by (simp add: rl_amigafs_process_network_message_def find_pending_op_def open_sent_def complete_findinput_def)
  moreover have u: "peer.truncate (unlink_pending ?r a) = peer.truncate q" by (simp add: unlink_pending_def)
  ultimately show ?thesis
    using f g q(2,4) can_send_trunc [OF u] trunc_ok(2) [OF u] trunc_ok(2) [OF t] by (simp add: replied_def unlink_pending_def open_sent_def)
qed

section \<open>Opening a file\<close>

text \<open>
  What becomes of the packet \<open>p\<close>, when the controller's attempt to open the file gave \<open>r\<close> and left it
  in the state \<open>q\<close>; \<open>fs1\<close> is the file system when it had sent the request.
\<close>

definition open_outcome ::
  "host \<Rightarrow> rl_amigafs \<Rightarrow> addr \<Rightarrow> DosPacket \<Rightarrow> addr \<Rightarrow> addr \<Rightarrow> cstring \<Rightarrow> (rl_proto_neterror + handle_ref) \<Rightarrow> 'w controller \<Rightarrow>
     rl_amigafs \<Rightarrow> rl_amigafs \<Rightarrow> bool" where
  "open_outcome chost fs p pk l hp name r q fs1 fs2 =
     (case r of
        Inl e \<Rightarrow> replied fs p DOSFALSE (translate_error_code (neterror_code e)) fs2 \<and> locks fs2 = locks fs
      | Inr h \<Rightarrow>
          if fh_type (the_handle q h) = RL_NODE_TYPE_FILE
          then replied fs p DOSTRUE 0 fs2 \<and> client_mem fs2 = client_mem fs \<and>
               map_option fh_Arg1 (file_handles fs2 (BCPL_CAST (dp_Arg1 pk))) = Some l \<and>
               HANDLE_FROM_LOCK fs2 l = Some (Client_handle hp) \<and>
               handle_at fs2 (Client_handle hp) =
                 Some (new_handle RL_HANDLE_FILE (get_filehandle_index h) (fh_size (the_handle q h)) (take 107 name))
          else replied fs p DOSFALSE ERROR_OBJECT_WRONG_TYPE fs2 \<and> locks fs2 = locks fs \<and>
               received chost (drop (length (out_text fs1)) (out_text fs2)) =
                 Some (as_sent ((RL_MSG_INIT (Close_handle_request (get_filehandle_index h)))\<lparr>hdr_seq := seqno fs + 1\<rparr>)))"

lemma open_exchange:
  assumes "can_send fs" and "packets fs p = Some pk" and "pending fs = []"
    and "allocs fs = a # l # hp # as" and "a \<noteq> 0" and "l \<noteq> 0" and "hp \<noteq> 0"
    and "str_at (client_mem fs) (unat (BSTR_PTR (BCPL_CAST (dp_Arg3 pk)))) name"
    and "valid_string (drop_device name)" and "drop_device name \<noteq> RLAUNCH_VIRTUAL_INPUT_FILE" and "can_send ctl"
    and "HANDLE_FROM_LOCK fs (BCPL_CAST (dp_Arg2 pk)) \<noteq> None"
  shows "\<exists>fs1 r q fs2 ctl1.
           action_findinput thost fs p = Some fs1 \<and> make_handle os ctl (drop_device name) RL_OPENFLAG_READ = Some (r, q) \<and>
           exchange 1 thost chost os (length (out_text fs)) fs1 ctl = Some (fs2, ctl1) \<and> peer.more ctl1 = peer.more q \<and>
           can_send fs2 \<and> can_send ctl1 \<and> open_outcome chost fs p pk l hp name r q fs1 fs2 \<and>
           (\<forall>h. r = Inr h \<and> fh_type (the_handle q h) = RL_NODE_TYPE_FILE \<longrightarrow> allocs fs2 = as)"
proof -
  let ?req = "open_request name (seqno fs)"
  obtain fs1 where f1: "action_findinput thost fs p = Some fs1" "can_send fs1" "peer.more fs1 = peer.more (open_sent fs p a (l # hp # as))"
    "out_text fs1 = out_text fs @ wire_msg ?req"
    using findinput_asks [OF assms(1-5,8-10,12)] by blast
  have "valid_body (body ?req)" "msg_size ?req \<le> 8192" using open_sizes(1,2) [OF assms(9)] by (simp_all add: open_request_def)
  then have req: "received chost (drop (length (out_text fs)) (out_text fs1)) = Some (as_sent ?req)"
    unfolding f1(4) using received_wire [of ?req chost] by simp
  have "body (as_sent ?req) = Open_handle_request (drop_device name) RL_OPENFLAG_READ" "hdr_seq (as_sent ?req) = seqno fs"
    by (simp_all add: open_request_def)
  then obtain r q ctl1 where c: "make_handle os ctl (drop_device name) RL_OPENFLAG_READ = Some (r, q)"
    "rl_file_serve chost os False ctl (as_sent ?req) = Some (0, ctl1)" "can_send ctl1" "peer.more ctl1 = peer.more q"
    "out_text ctl1 = out_text ctl @ wire_msg (open_answer r q (seqno fs))"
    using open_answered [OF assms(11), of "as_sent ?req" "drop_device name" RL_OPENFLAG_READ os chost] by metis
  have ans: "received thost (drop (length (out_text ctl)) (out_text ctl1)) = Some (as_sent (open_answer r q (seqno fs)))"
    unfolding c(5) using received_wire [of "open_answer r q (seqno fs)" thost] open_answer_size [of r q "seqno fs"] by simp
  have "\<exists>fs2. rl_amigafs_process_network_message thost fs1 (open_answer r q (seqno fs)) = Some (0, fs2) \<and> can_send fs2 \<and>
      open_outcome chost fs p pk l hp name r q fs1 fs2 \<and> (\<forall>h. r = Inr h \<and> fh_type (the_handle q h) = RL_NODE_TYPE_FILE \<longrightarrow> allocs fs2 = as)"
  proof (cases r)
    case (Inl e)
    then show ?thesis
      using complete_error [OF f1(2,3) assms(2), of thost "neterror_code e"] by (auto simp: open_answer_def open_outcome_def)
  next
    case (Inr h)
    let ?cl = "(RL_MSG_INIT (Close_handle_request (get_filehandle_index h)))\<lparr>hdr_seq := seqno fs + 1\<rparr>"
    have "received chost (wire_msg ?cl) = Some (as_sent ?cl)" using received_wire [of ?cl chost] open_sizes(7,8) by simp
    then show ?thesis
      using Inr complete_file [OF f1(2,3) assms(2,8,6,7), of thost "get_filehandle_index h" "fh_size (the_handle q h)"]
        complete_directory [OF f1(2,3) assms(2,8), of "fh_type (the_handle q h)" thost "get_filehandle_index h" "fh_size (the_handle q h)"]
      by (cases "fh_type (the_handle q h) = RL_NODE_TYPE_FILE") (auto simp: open_answer_def open_outcome_def)
  qed
  then obtain fs2 where fs2: "rl_amigafs_process_network_message thost fs1 (as_sent (open_answer r q (seqno fs))) = Some (0, fs2)"
    "can_send fs2" "open_outcome chost fs p pk l hp name r q fs1 fs2"
    "\<forall>h. r = Inr h \<and> fh_type (the_handle q h) = RL_NODE_TYPE_FILE \<longrightarrow> allocs fs2 = as"
    using network_as_sent [of thost fs1 "open_answer r q (seqno fs)"] by auto
  have "exchange 1 thost chost os (length (out_text fs)) fs1 ctl = Some (fs2, ctl1)"
    using more_fs(2) [OF f1(3)] req c(2) ans fs2(1) by (simp add: open_sent_def)
  then show ?thesis using f1(1) c(1,3,4) fs2(2-4) by blast
qed

text \<open>
  Claim C6: what an open on the Amiga does, whatever directory its lock stands for. The comment above
  \<^verbatim>\<open>action_findinput\<close> says that the name in \<^verbatim>\<open>dp_Arg3\<close> is relative to the lock in \<^verbatim>\<open>dp_Arg2\<close>; the code ignores
  the lock's directory \<open>dir\<close>, and a packet without a lock is not served at all: the lock is read through
  before it is tested. With a lock the packet becomes one request
  with the name behind the device; the controller opens that name under its own root and answers; both
  messages are decoded from the bytes that were sent, for either byte order. If the controller
  fails, the packet is replied to with the error it reported, and no lock is made; if it has opened a directory,
  with \<^verbatim>\<open>ERROR_OBJECT_WRONG_TYPE\<close>, and a request to close it is sent; if it has opened a file,
  the packet succeeds, and the program's file handle leads to a handle at position 0 with the
  slot of the controller and the size of the file.
\<close>
theorem remote_open_file:
  assumes "can_send fs" and "packets fs p = Some pk" and "pending fs = []"
    and "allocs fs = a # l # hp # as" and "a \<noteq> 0" and "l \<noteq> 0" and "hp \<noteq> 0"
    and "str_at (client_mem fs) (unat (BSTR_PTR (BCPL_CAST (dp_Arg3 pk)))) name"
    and "valid_string (drop_device name)" and "drop_device name \<noteq> RLAUNCH_VIRTUAL_INPUT_FILE" and "can_send ctl"
  shows "case HANDLE_FROM_LOCK fs (BCPL_CAST (dp_Arg2 pk)) of
           None \<Rightarrow> action_findinput thost fs p = None
         | Some dir \<Rightarrow>
             (\<exists>fs1 r q fs2 ctl1.
                action_findinput thost fs p = Some fs1 \<and> make_handle os ctl (drop_device name) RL_OPENFLAG_READ = Some (r, q) \<and>
                exchange 1 thost chost os (length (out_text fs)) fs1 ctl = Some (fs2, ctl1) \<and> peer.more ctl1 = peer.more q \<and>
                can_send fs2 \<and> can_send ctl1 \<and> open_outcome chost fs p pk l hp name r q fs1 fs2)"
proof (cases "HANDLE_FROM_LOCK fs (BCPL_CAST (dp_Arg2 pk))")
  case None
  then show ?thesis using assms(2) by (simp add: action_findinput_def)
next
  case (Some dir)
  then show ?thesis using open_exchange [OF assms, of thost os chost] by auto
qed

text \<open>A file system with the name of a file in its memory and a packet to open it.\<close>

definition example_findinput :: rl_amigafs where
  "example_findinput =
     example_fs\<lparr>packets := [8 \<mapsto> (example_packet ACTION_FINDINPUT 10)\<lparr>dp_Arg2 := 4, dp_Arg3 := 250\<rparr>], allocs := [24, 28, 32, 36],
                client_mem := mwrite (\<lambda>_. 0) 1000 (3 # lit ''T:f'')\<rparr>"

lemma example_findinput_ok:
  "can_send example_findinput" "packets example_findinput 8 = Some ((example_packet ACTION_FINDINPUT 10)\<lparr>dp_Arg2 := 4, dp_Arg3 := 250\<rparr>)"
  "pending example_findinput = []" "allocs example_findinput = [24, 28, 32, 36]"
  "str_at (client_mem example_findinput) (unat (BSTR_PTR (BCPL_CAST 250))) (lit ''T:f'')" "drop_device (lit ''T:f'') = lit ''f''"
  "HANDLE_FROM_LOCK example_findinput (BCPL_CAST 4) = Some handle_ptr.Root_handle"
proof -
  have "peer.truncate example_findinput = peer.truncate (example_open pk)" for pk
    by (simp add: example_findinput_def example_open_def peer.defs)
  then show "can_send example_findinput" using can_send_trunc example_open_ok(1) by blast
  show "str_at (client_mem example_findinput) (unat (BSTR_PTR (BCPL_CAST 250))) (lit ''T:f'')"
    by (simp add: example_findinput_def BSTR_PTR_def BCPL_CAST_def str_at_def mwrite_def mread_Suc)
qed (simp_all add: example_findinput_def drop_device_def HANDLE_FROM_LOCK_def BCPL_CAST_def)

theorem remote_open_file_witness:
  "\<exists>fs1 fs2 ctl1. action_findinput example_amiga example_findinput 8 = Some fs1 \<and>
     exchange 1 example_amiga example_host example_os (length (out_text example_findinput)) fs1 example_controller = Some (fs2, ctl1) \<and>
     can_send fs2 \<and> can_send ctl1"
proof -
  have "can_send example_controller" using example_controller_ok(1) by (simp add: can_answer_def can_send_def)
  then show ?thesis
    using remote_open_file [OF example_findinput_ok(1-4), of "lit ''T:f''" example_controller example_amiga example_os example_host]
      example_findinput_ok(5-7)
    by (auto simp: RLAUNCH_VIRTUAL_INPUT_FILE_def valid_string_def)
qed

section \<open>Opening and reading\<close>

text \<open>
  In the world \<open>w\<close> of the controller the path names a regular file with the bytes \<open>F\<close>: the calls that open it
  succeed, and reading from the descriptor delivers the file and changes nothing.
\<close>

definition names_file :: "'w posix \<Rightarrow> cstring \<Rightarrow> 'w \<Rightarrow> rl_uint8 list \<Rightarrow> bool" where
  "names_file os path w F \<longleftrightarrow>
     (\<exists>st w1 fd w2 w3. os_stat os path w = (Some (False, st), w1) \<and> os_open os path (O_RDONLY, False) w1 = (fd, w2) \<and>
        fd \<noteq> 0 \<and> fd \<noteq> - 1 \<and> os_fstat os fd w2 = (Some (False, int (length F)), w3) \<and>
        posix_file os fd w3 F \<and> (\<forall>off. snd (os_pread os fd 4096 off w3) = w3))"

lemma make_handle_file:
  assumes "names_file os (take 259 (native_path (root_handle p) @ lit ''/'' @ path)) (world p) F"
    and "valid_string (native_path (root_handle p))" and "valid_string path" and "find_slot (handles p) 0 = Some i"
  shows "\<exists>q fd. make_handle os p path RL_OPENFLAG_READ = Some (Inr (Slot i), q) \<and> fd \<noteq> 0 \<and> fh_handle (the_handle q (Slot i)) = fd \<and>
           fh_type (the_handle q (Slot i)) = RL_NODE_TYPE_FILE \<and> fh_size (the_handle q (Slot i)) = of_nat (length F) \<and>
           posix_file os fd (world q) F \<and> (\<forall>off. snd (os_pread os fd 4096 off (world q)) = world q)"
proof -
  let ?root = "native_path (root_handle p)"
  let ?np = "take 259 (?root @ lit ''/'' @ path)"
  have np: "fix_path 260 path ?root = Some ?np"
    using fix_path_text [of ?root path 260] assms(2,3) by (simp add: valid_string_def)
  have nf: "nul_free ?np" using assms(2,3) by (intro nul_free_take) (simp add: valid_string_def)
  then have cp: "copied 260 ?np = Some ?np" using copied_eq [OF nf, of 260] by (simp del: take_append)
  have i: "i < length (handles p)" using find_slot_some [OF assms(4)] by simp
  define n where "n = ?np"
  from assms(1) obtain st w1 fd w2 w3 where w: "os_stat os n (world p) = (Some (False, st), w1)"
    "os_open os n (O_RDONLY, False) w1 = (fd, w2)" "fd \<noteq> 0" "fd \<noteq> - 1" "os_fstat os fd w2 = (Some (False, int (length F)), w3)"
    "posix_file os fd w3 F" "\<forall>off. snd (os_pread os fd 4096 off w3) = w3"
    unfolding names_file_def n_def by blast
  obtain q where q: "open_node os p i n RL_OPENFLAG_READ = (Inr (), q)" "world q = w3" "i < length (handles q)"
    "fh_handle (handles q ! i) = fd" "fh_type (handles q ! i) = RL_NODE_TYPE_FILE" "fh_size (handles q ! i) = of_nat (length F)"
    using w(1-5) i by (simp add: open_node_def RL_OPENFLAG_READ_def RL_OPENFLAG_WRITE_def RL_OPENFLAG_CREATE_def)
  have "make_handle os p path RL_OPENFLAG_READ = Some (Inr (Slot i), set_handle q (Slot i) (\<lambda>h. h\<lparr>native_path := n\<rparr>))"
    using np cp assms(4) q(1) unfolding n_def by (simp add: make_handle_def)
  then show ?thesis using q(2-6) w(3,6,7) by simp
qed

lemma slot_index: "i < 16 \<Longrightarrow> get_handle_from_id (get_filehandle_index (Slot i)) = Some (Slot i)"
proof -
  assume i: "i < 16"
  then have u: "unat (of_nat i :: rl_uint32) = i" by (simp add: unat_of_nat take_bit_eq_mod)
  then have "(of_nat i :: rl_uint32) \<noteq> c" if "16 \<le> unat c" for c using i that by auto
  moreover have "16 \<le> unat (- 1 :: rl_uint32)" by (simp add: unsigned_minus_1_eq_mask mask_eq_exp_minus_1)
  ultimately have "(of_nat i :: rl_uint32) \<noteq> - 1" "(of_nat i :: rl_uint32) \<noteq> RL_FILEHANDLE_VIRTUAL_INPUT"
    "(of_nat i :: rl_uint32) \<noteq> RL_FILEHANDLE_VIRTUAL_OUTPUT"
    by (simp_all add: RL_FILEHANDLE_VIRTUAL_INPUT_def RL_FILEHANDLE_VIRTUAL_OUTPUT_def)
  then show ?thesis using u i by (simp add: get_handle_from_id_def get_filehandle_index_def RL_MAX_FILE_HANDLES_def)
qed

text \<open>
  Claim C2: a program on the Amiga that opens a file and reads it gets the file of the
  controller. The name is an absolute one, with a device in front, or relative to a lock on the root of the
  volume; for any other directory the code and its comment differ. If the name behind the device, put after the root of the controller, names a
  regular file there, a slot of the table is free and both ends have memory, then the open
  takes one exchange and succeeds; and a read packet for the file handle that the open has filled in,
  whenever it comes next, delivers the first bytes of that file into the program's buffer, changes nothing else of
  its memory and is replied to with their number.
\<close>
theorem remote_open_read:
  assumes "can_send fs" and "packets fs p = Some pk" and "pending fs = []"
    and "allocs fs = a # l # hp # b # as" and "a \<noteq> 0" and "l \<noteq> 0" and "hp \<noteq> 0" and "b \<noteq> 0"
    and "str_at (client_mem fs) (unat (BSTR_PTR (BCPL_CAST (dp_Arg3 pk)))) name"
    and "valid_string (drop_device name)" and "drop_device name \<noteq> RLAUNCH_VIRTUAL_INPUT_FILE"
    and "can_send ctl" and "length (handles ctl) = 16" and "\<exists>h\<in>set (handles ctl). fh_handle h = 0"
    and "valid_string (native_path (root_handle ctl))"
    and "names_file os (take 259 (native_path (root_handle ctl) @ lit ''/'' @ drop_device name)) (world ctl) F" and "length F < 2 ^ 31"
    and "HANDLE_FROM_LOCK fs (BCPL_CAST (dp_Arg2 pk)) = Some dir" and "58 \<in> set name \<or> dir = handle_ptr.Root_handle"
    and "dp_Arg1 pk2 = l" and "unat (dp_Arg2 pk2) + unat (dp_Arg3 pk2) < 2 ^ 32"
  defines "D \<equiv> take (unat (dp_Arg3 pk2)) F"
  shows "\<exists>fs1 fs2 ctl1. action_findinput thost fs p = Some fs1 \<and>
           exchange 1 thost chost os (length (out_text fs)) fs1 ctl = Some (fs2, ctl1) \<and> replied fs p DOSTRUE 0 fs2 \<and>
           map_option fh_Arg1 (file_handles fs2 (BCPL_CAST (dp_Arg1 pk))) = Some (dp_Arg1 pk2) \<and>
           (let fs3 = fs2\<lparr>packets := (packets fs2)(p2 \<mapsto> pk2)\<rparr>
            in \<exists>fs4 fs5 ctl2. action_read thost fs3 p2 = Some fs4 \<and>
                 exchange (unat (dp_Arg3 pk2) + 1) thost chost os (length (out_text fs3)) fs4 ctl1 = Some (fs5, ctl2) \<and>
                 client_mem fs5 = mwrite (client_mem fs) (unat (dp_Arg2 pk2)) D \<and>
                 (\<exists>port pk'. replies fs5 = replies fs2 @ [(port, p2, pk')] \<and> dp_Res1 pk' = of_nat (length D) \<and> dp_Res2 pk' = 0))"
proof -
  obtain i where i: "find_slot (handles ctl) 0 = Some i"
    using find_slot_none [of "handles ctl" 0] assms(14) by fastforce
  then have i16: "i < 16" using find_slot_some [OF i] assms(13) by simp
  obtain q0 fd where q: "make_handle os ctl (drop_device name) RL_OPENFLAG_READ = Some (Inr (Slot i), q0)" "fd \<noteq> 0"
    "fh_handle (the_handle q0 (Slot i)) = fd" "fh_type (the_handle q0 (Slot i)) = RL_NODE_TYPE_FILE"
    "posix_file os fd (world q0) F" "\<forall>off. snd (os_pread os fd 4096 off (world q0)) = world q0"
    using make_handle_file [OF assms(16,15,10) i] by blast
  from open_exchange [OF assms(1-7,9-12), of thost os chost] assms(18) q(1,4)
  obtain fs1 fs2 ctl1 where f: "action_findinput thost fs p = Some fs1"
    "exchange 1 thost chost os (length (out_text fs)) fs1 ctl = Some (fs2, ctl1)" "peer.more ctl1 = peer.more q0" "can_send fs2" "can_send ctl1"
    "open_outcome chost fs p pk l hp name (Inr (Slot i)) q0 fs1 fs2" "allocs fs2 = b # as"
    by auto
  let ?h = "new_handle RL_HANDLE_FILE (get_filehandle_index (Slot i)) (fh_size (the_handle q0 (Slot i))) (take 107 name)"
  have o: "replied fs p DOSTRUE 0 fs2" "client_mem fs2 = client_mem fs"
    "map_option fh_Arg1 (file_handles fs2 (BCPL_CAST (dp_Arg1 pk))) = Some l"
    "HANDLE_FROM_LOCK fs2 l = Some (Client_handle hp)" "handle_at fs2 (Client_handle hp) = Some ?h"
    using f(6) q(4) by (simp_all add: open_outcome_def del: the_handle.simps)
  define fs3 where "fs3 = fs2\<lparr>packets := (packets fs2)(p2 \<mapsto> pk2)\<rparr>"
  have t: "peer.truncate fs3 = peer.truncate fs2" by (simp add: fs3_def)
  have w: "world ctl1 = world q0" using f(3) by (cases ctl1; cases q0) simp
  have off: "offers os (handle_id ?h) fd F ctl1"
    unfolding offers_def w the_handle_more [OF f(3)] using slot_index [OF i16] q(2,3,5,6) f(5) by (auto simp: new_handle_def)
  have rest: "can_send fs3" "packets fs3 p2 = Some pk2" "pending fs3 = []" "handle_at fs3 (Client_handle hp) = Some ?h"
    "buffered F ?h" "allocs fs3 = b # as" "unat (offset_lo ?h) < 2 ^ 31" "HANDLE_FROM_LOCK fs3 l = Some (Client_handle hp)"
    using can_send_trunc [OF t] f(4,7) o(1,4,5)
    by (simp_all add: fs3_def replied_def buffered_def new_handle_def handle_at_def HANDLE_FROM_LOCK_def)
  have "\<exists>fs4 fs5 ctl2. action_read thost fs3 p2 = Some fs4 \<and>
      exchange (unat (dp_Arg3 pk2) + 1) thost chost os (length (out_text fs3)) fs4 ctl1 = Some (fs5, ctl2) \<and>
      client_mem fs5 = mwrite (client_mem fs) (unat (dp_Arg2 pk2)) D \<and>
      (\<exists>port pk'. replies fs5 = replies fs2 @ [(port, p2, pk')] \<and> dp_Res1 pk' = of_nat (length D) \<and> dp_Res2 pk' = 0)"
  proof -
    have "HANDLE_FROM_LOCK fs3 (dp_Arg1 pk2) = Some (Client_handle hp)" using rest(8) assms(20) by simp
    moreover have "client_mem fs3 = client_mem fs" "replies fs3 = replies fs2" "offset_lo ?h = 0"
      using o(2) by (simp_all add: fs3_def new_handle_def)
    ultimately show ?thesis
      using remote_read_delivers [OF off rest(1-3) _ rest(4-6) assms(8,17) rest(7) assms(21), of thost chost] unfolding D_def by auto
  qed
  then show ?thesis using f(1,2) o(1,3) [folded assms(20)] unfolding fs3_def Let_def by blast
qed

theorem remote_open_read_witness:
  "\<exists>fs1 fs2 ctl1 fs4 fs5 ctl2. action_findinput example_amiga example_findinput 8 = Some fs1 \<and>
     exchange 1 example_amiga example_host example_os (length (out_text example_findinput)) fs1 example_controller = Some (fs2, ctl1) \<and>
     action_read example_amiga (fs2\<lparr>packets := (packets fs2)(12 \<mapsto> (example_packet ACTION_READ 28)\<lparr>dp_Arg3 := 4\<rparr>)\<rparr>) 12 = Some fs4 \<and>
     exchange 5 example_amiga example_host example_os
       (length (out_text (fs2\<lparr>packets := (packets fs2)(12 \<mapsto> (example_packet ACTION_READ 28)\<lparr>dp_Arg3 := 4\<rparr>)\<rparr>))) fs4 ctl1 = Some (fs5, ctl2) \<and>
     mread (client_mem fs5) 1000 4 = lit ''hell''"
proof -
  let ?pk = "(example_packet ACTION_READ 28)\<lparr>dp_Arg3 := 4\<rparr>"
  have a: "dp_Arg1 ?pk = 28" "dp_Arg2 ?pk = 1000" "dp_Arg3 ?pk = 4" by (simp_all add: example_packet_def)
  have "can_send example_controller" using example_controller_ok(1) by (simp add: can_answer_def can_send_def)
  moreover have "names_file example_os path w (lit ''hello'')" for path w
    using example_file by (simp add: names_file_def) (simp add: example_os_def)
  moreover have m: "mread (mwrite M 1000 (lit ''hell'')) 1000 4 = lit ''hell''" for M by (simp add: mread_def mwrite_def)
  ultimately show ?thesis
    using remote_open_read [OF example_findinput_ok(1-4), of "lit ''T:f''" example_controller example_os "lit ''hello''" handle_ptr.Root_handle ?pk
        example_amiga example_host 12]
      example_findinput_ok(5-7) a
    by (auto simp: RLAUNCH_VIRTUAL_INPUT_FILE_def valid_string_def example_handle_def Let_def simp del: exchange.simps)
qed

end
