(* ===== verification/Rl_Table.thy ===== *)
theory Rl_Table
  imports Rl_Service Rl_Open
begin

unbundle bit_operations_syntax

text \<open>
  What the file server (\<^verbatim>\<open>src/src/file_server.c\<close>) promises to its client, as an abstract service:
  a table that maps numbers to the files and directories that are open. The handlers refine it.
\<close>

section \<open>The abstract service\<close>

datatype node =
    Directory (node_path: cstring)
  | Regular (node_path: cstring) (regular_size: rl_uint32)

primrec node_size :: "node \<Rightarrow> rl_uint32" where
  "node_size (Directory _) = 0"
| "node_size (Regular _ sz) = sz"

primrec node_kind :: "node \<Rightarrow> rl_uint8" where
  "node_kind (Directory _) = RL_NODE_TYPE_DIRECTORY"
| "node_kind (Regular _ _) = RL_NODE_TYPE_FILE"

type_synonym table = "nat \<rightharpoonup> node"

definition served_id :: "rl_uint32 \<Rightarrow> bool" where
  "served_id h \<longleftrightarrow> unat h < RL_MAX_FILE_HANDLES \<or> h \<in> {- 1, RL_FILEHANDLE_VIRTUAL_INPUT, RL_FILEHANDLE_VIRTUAL_OUTPUT}"

text \<open>
  One request with its answers. An open takes the least free number for a node with the path
  under the root and reports it, or is refused; as too many exactly if no number is free. A close gives its number up
  without an answer. No other request changes the table, and each has one answer.
\<close>

inductive table_step :: "cstring \<Rightarrow> rl_body \<Rightarrow> table \<Rightarrow> rl_body list \<Rightarrow> table \<Rightarrow> bool" for root where
  opened: "i < RL_MAX_FILE_HANDLES \<Longrightarrow> T i = None \<Longrightarrow> \<forall>k < i. T k \<noteq> None \<Longrightarrow> node_path n = take 259 (root @ lit ''/'' @ path) \<Longrightarrow>
     table_step root (Open_handle_request path mode) T [Open_handle_answer (of_nat i) (node_size n) (node_kind n)] (T(i \<mapsto> n))"
| refused: "e = RL_NETERR_TOO_MANY_FILES_OPEN \<longleftrightarrow> (\<forall>i < RL_MAX_FILE_HANDLES. T i \<noteq> None) \<Longrightarrow>
     table_step root (Open_handle_request path mode) T [Error_answer (neterror_code e)] T"
| closed: "served_id h \<Longrightarrow> table_step root (Close_handle_request h) T [] (T(unat h := None))"
| bad_close: "\<not> served_id h \<Longrightarrow> table_step root (Close_handle_request h) T [Error_answer (neterror_code RL_NETERR_INVALID_VALUE)] T"
| other: "(\<And>path mode. b \<noteq> Open_handle_request path mode) \<Longrightarrow> (\<And>h. b \<noteq> Close_handle_request h) \<Longrightarrow> table_step root b T [a] T"

definition answer_to :: "rl_msg \<Rightarrow> rl_body \<Rightarrow> rl_msg" where
  "answer_to m b = (RL_MSG_INIT b)\<lparr>hdr_seq := hdr_seq m\<rparr>"

text \<open>A sequence of requests; the answers carry the sequence numbers of their requests.\<close>

inductive table_run :: "cstring \<Rightarrow> rl_msg list \<Rightarrow> table \<Rightarrow> rl_msg list \<Rightarrow> table \<Rightarrow> bool" for root where
  no_request: "table_run root [] T [] T"
| next_request: "table_step root (body m) T bs T' \<Longrightarrow> table_run root ms T' as T'' \<Longrightarrow>
     table_run root (m # ms) T (map (answer_to m) bs @ as) T''"

inductive_cases table_openE: "table_step root (Open_handle_request path mode) T as T'"

text \<open>The number an open reports was free before and is taken afterwards.\<close>

lemma open_fresh:
  assumes "table_step root (Open_handle_request path mode) T [Open_handle_answer h sz ty] T'"
  shows "T (unat h) = None \<and> T' = T(unat h \<mapsto> the (T' (unat h)))"
proof -
  have "unat (of_nat i :: rl_uint32) = i" if "i < RL_MAX_FILE_HANDLES" for i
    using that by (simp add: RL_MAX_FILE_HANDLES_def unat_of_nat take_bit_eq_mod)
  then show ?thesis using assms by (elim table_openE) auto
qed

section \<open>The table of the controller\<close>

definition node_of :: "rl_filehandle \<Rightarrow> node option" where
  "node_of h =
     (if fh_handle h = 0 then None
      else if fh_type h = RL_NODE_TYPE_DIRECTORY then Some (Directory (native_path h))
      else Some (Regular (native_path h) (fh_size h)))"

definition table_of :: "'w controller \<Rightarrow> table" where
  "table_of p i = (if i < length (handles p) then node_of (handles p ! i) else None)"

lemma node_of_fields [simp]:
  "node_of h = None \<longleftrightarrow> fh_handle h = 0" "node_of (h\<lparr>dir_handle := d\<rparr>) = node_of h" "node_of (h\<lparr>fh_handle := 0\<rparr>) = None"
  by (simp_all add: node_of_def)

definition has_table :: "cstring \<Rightarrow> table \<Rightarrow> 'w controller \<Rightarrow> bool" where
  "has_table root T p \<longleftrightarrow> length (handles p) = RL_MAX_FILE_HANDLES \<and> native_path (root_handle p) = root \<and> table_of p = T"

lemma has_table_world: "has_table root T (p\<lparr>world := w\<rparr>) = has_table root T p"
  by (simp add: has_table_def table_of_def fun_eq_iff)

lemma search_table: "table_of (set_handle p h (\<lambda>f. f\<lparr>dir_handle := d\<rparr>)) = table_of p"
proof (cases h)
  case (Slot i)
  have "node_of ((handles p)[i := (handles p ! i)\<lparr>dir_handle := d\<rparr>] ! k) = node_of (handles p ! k)" if "k < length (handles p)" for k
    using that by (cases "k = i") simp_all
  then show ?thesis using Slot by (simp add: table_of_def fun_eq_iff)
qed (simp_all add: table_of_def fun_eq_iff)

interpretation kept: handle_property "has_table root T" for root T
proof
  fix p q :: "'a controller" and h d w
  show "has_table root T q = has_table root T p" if "peer.more q = peer.more p"
    using more_ctl(1,4) [OF that] by (simp add: has_table_def table_of_def fun_eq_iff)
  show "has_table root T (set_handle p h (\<lambda>f. f\<lparr>dir_handle := d\<rparr>))" if "has_table root T p"
    using that search_table [of p h d] by (cases h) (auto simp: has_table_def)
qed (rule has_table_world)

definition sends :: "'w controller \<Rightarrow> rl_msg \<Rightarrow> rl_body \<Rightarrow> (int \<times> 'w controller) option \<Rightarrow> bool" where
  "sends p msg b r \<longleftrightarrow>
     (\<exists>rc q. r = Some (rc, q) \<and> can_send q \<and> out_text q = out_text p @ wire_msg ((RL_MSG_INIT b)\<lparr>hdr_seq := hdr_seq msg\<rparr>))"

interpretation sending: handler_contract can_send sends
proof
  fix p q :: "'a controller" and b msg host
  assume a: "can_send p" "same_peer p q" "valid_body b" "msg_size (RL_MSG_INIT b) \<le> 8192"
  have t: "peer.truncate q = peer.truncate p" using a(2) by (simp add: same_peer_def)
  show "sends p msg b (peer_transmit_message host q ((RL_MSG_INIT b)\<lparr>hdr_seq := hdr_seq msg\<rparr>))"
    using transmit_sends [of q "(RL_MSG_INIT b)\<lparr>hdr_seq := hdr_seq msg\<rparr>" host] a can_send_trunc [OF t] trunc_ok(2) [OF t]
    by (auto simp: sends_def msg_size_seq)
qed (auto simp: sends_def)

section \<open>The refinement\<close>

text \<open>The number 0 is the standard input, which the controller never closes; so no file gets it.\<close>

definition input_taken :: "'w posix \<Rightarrow> bool" where
  "input_taken os \<longleftrightarrow> (\<forall>path flags w. fst (os_open os path flags w) \<noteq> 0)"

lemma open_node_nonzero:
  assumes "open_node os p i path mode = (Inr u, q)" and "input_taken os" and "i < length (handles p)"
  shows "fh_handle (handles q ! i) \<noteq> 0"
proof -
  let ?E = "if mode AND RL_OPENFLAG_WRITE = 0
             then
               (case os_stat os path (world p) of
                  (None, w) \<Rightarrow> (True, False, p\<lparr>world := w\<rparr>)
                | (Some (d, _), w) \<Rightarrow> (False, d, p\<lparr>world := w\<rparr>))
             else (False, False, p)"
  have "handles (snd (snd ?E)) = handles p" by (auto split: prod.splits option.splits)
  moreover obtain e d s where E: "?E = (e, d, s)" by (rule prod_cases3)
  ultimately have s: "handles s = handles p" by simp
  have o: "fd \<noteq> 0" if "os_open os path fl w = (fd, w')" for fl w fd w' using assms(2) that unfolding input_taken_def by (metis fst_conv)
  show ?thesis
    using assms(1,3) s o unfolding open_node_def E by (auto simp: Let_def split: prod.splits option.splits if_splits)
qed

lemma make_handle_only:
  assumes "make_handle os p path mode = Some (r, q)"
  shows "root_handle q = root_handle p \<and> length (handles q) = length (handles p) \<and>
           (\<forall>k. find_slot (handles p) 0 \<noteq> Some k \<longrightarrow> handles q ! k = handles p ! k) \<and>
           (\<forall>h. r = Inr h \<longrightarrow> typed_handle (the_handle q h) \<and> (input_taken os \<longrightarrow> fh_handle (the_handle q h) \<noteq> 0))"
proof -
  obtain np where np: "fix_path 260 path (native_path (root_handle p)) = Some np" using fix_path_some [of 260 path] by auto
  show ?thesis
  proof (cases "find_slot (handles p) 0")
    case None
    then show ?thesis using assms np by (auto simp: make_handle_def)
  next
    case (Some i)
    have i: "i < length (handles p)" "fh_handle (handles p ! i) = 0" using find_slot_some [OF Some] by simp_all
    obtain r' q' where o: "open_node os p i np mode = (r', q')" by (cases "open_node os p i np mode")
    have only: "only_slot i p q'" using open_node_slot [of i p os np mode] o by simp
    then have "only_slot i p q" using assms np Some o by (cases r') (auto simp: make_handle_def bind_eq_Some_conv simp del: set_handle.simps)
    moreover have "typed_handle (the_handle q h) \<and> (input_taken os \<longrightarrow> fh_handle (the_handle q h) \<noteq> 0)" if "r = Inr h" for h
      using assms np Some o that open_node_nonzero [of os p i np mode _ q'] open_node_result [OF o i] i only
      by (cases r') (auto simp: make_handle_def bind_eq_Some_conv only_slot_def typed_handle_def)
    ultimately show ?thesis using Some by (auto simp: only_slot_def)
  qed
qed

lemma make_handle_table:
  assumes "make_handle os p path mode = Some (r, q)" and "has_table root T p" and "valid_string root" and "valid_string path"
    and "input_taken os"
  shows "\<exists>T'. has_table root T' q \<and> table_step root (Open_handle_request path mode) T [body (open_answer r q s)] T'"
proof -
  have p: "length (handles p) = RL_MAX_FILE_HANDLES" "native_path (root_handle p) = root" "\<And>k. T k = table_of p k"
    using assms(2) by (auto simp: has_table_def)
  note q = make_handle_only [OF assms(1)]
  show ?thesis
  proof (cases r)
    case (Inl e)
    have m: "map fh_handle (handles q) = map fh_handle (handles p)"
      "e = RL_NETERR_TOO_MANY_FILES_OPEN \<longleftrightarrow> (\<forall>h\<in>set (handles p). fh_handle h \<noteq> 0)"
      using make_handle_slot [of p path os mode] assms(1,3,4) p(2) Inl by auto
    have "node_of (handles q ! k) = node_of (handles p ! k)" if "k < length (handles p)" for k
    proof (cases "find_slot (handles p) 0 = Some k")
      case True
      then have "fh_handle (handles p ! k) = 0" using find_slot_some [OF True] by simp
      moreover have "fh_handle (handles q ! k) = fh_handle (handles p ! k)" using m(1) q that by (metis nth_map)
      ultimately show ?thesis by (metis node_of_fields(1))
    qed (use q in simp)
    then have "has_table root T q" using p q by (auto simp: has_table_def table_of_def fun_eq_iff)
    moreover have "e = RL_NETERR_TOO_MANY_FILES_OPEN \<longleftrightarrow> (\<forall>i < RL_MAX_FILE_HANDLES. T i \<noteq> None)"
      using m(2) p(1,3) by (auto simp: table_of_def all_set_conv_all_nth)
    ultimately show ?thesis using Inl by (auto simp: open_answer_def intro: refused)
  next
    case (Inr h)
    then obtain i where i: "i < length (handles p)" "h = Slot i" "fh_handle (handles p ! i) = 0" "\<forall>k < i. fh_handle (handles p ! k) \<noteq> 0"
      "\<forall>k. k \<noteq> i \<longrightarrow> handles q ! k = handles p ! k" "native_path (handles q ! i) = take 259 (root @ lit ''/'' @ path)"
      using make_handle_slot [of p path os mode] assms(1,3,4) p(2) by auto
    obtain n where n: "node_of (handles q ! i) = Some n" "node_path n = take 259 (root @ lit ''/'' @ path)"
      "node_size n = fh_size (handles q ! i)" "node_kind n = fh_type (handles q ! i)"
      using q i(2,6) Inr assms(5) by (auto simp: typed_handle_def node_of_def RL_NODE_TYPE_FILE_def RL_NODE_TYPE_DIRECTORY_def)
    have "has_table root (T(i \<mapsto> n)) q" using p q i n(1) by (auto simp: has_table_def table_of_def fun_eq_iff)
    moreover have "table_step root (Open_handle_request path mode) T [Open_handle_answer (of_nat i) (node_size n) (node_kind n)] (T(i \<mapsto> n))"
      using i p n by (intro opened) (auto simp: table_of_def)
    ultimately show ?thesis using Inr i(2) n by (auto simp: open_answer_def get_filehandle_index_def)
  qed
qed

lemma wide_id: "RL_MAX_FILE_HANDLES \<le> unat h" if "h \<in> {- 1, RL_FILEHANDLE_VIRTUAL_INPUT, RL_FILEHANDLE_VIRTUAL_OUTPUT}"
  using that by (auto simp: RL_FILEHANDLE_VIRTUAL_INPUT_def RL_FILEHANDLE_VIRTUAL_OUTPUT_def RL_MAX_FILE_HANDLES_def
        unsigned_minus_1_eq_mask mask_eq_exp_minus_1)

lemma table_beyond: "has_table root T p \<Longrightarrow> RL_MAX_FILE_HANDLES \<le> k \<Longrightarrow> T(k := None) = T"
  by (auto simp: has_table_def table_of_def fun_upd_idem_iff)

lemma close_table:
  assumes "can_send p" and "has_table root T p"
  shows "\<exists>rc q bs T'. close_handle_request host os p m h = Some (rc, q) \<and> can_send q \<and> has_table root T' q \<and>
           out_text q = out_text p @ concat (map (wire_msg \<circ> answer_to m) bs) \<and> table_step root (Close_handle_request h) T bs T'"
proof (cases "served_id h")
  case True
  define q where "q = (if h = RL_FILEHANDLE_VIRTUAL_INPUT \<or> h = RL_FILEHANDLE_VIRTUAL_OUTPUT then p
     else let r = the (get_handle_from_id h); 
              w = (if fh_handle (the_handle p r) = - 1 then p\<lparr>world := os_close os (fh_handle (the_handle p r)) (world p)\<rparr> else p)
          in set_handle w r (\<lambda>f. f\<lparr>fh_handle := 0\<rparr>))"
  have "close_handle_request host os p m h = Some (0, q)"
    using True by (auto simp: close_handle_request_def q_def served_id_def get_handle_from_id_def Let_def)
  moreover have t: "peer.truncate q = peer.truncate p" by (simp add: q_def Let_def)
  moreover have "has_table root (T(unat h := None)) q" 
  proof (cases "unat h < RL_MAX_FILE_HANDLES")
    case True
    then have "get_handle_from_id h = Some (Slot (unat h))" "h \<noteq> RL_FILEHANDLE_VIRTUAL_INPUT" "h \<noteq> RL_FILEHANDLE_VIRTUAL_OUTPUT"
      using wide_id [of h] by (auto simp: get_handle_from_id_def)
    then have "table_of q = (table_of p)(unat h := None)" "length (handles q) = length (handles p)" "root_handle q = root_handle p"
      by (auto simp: q_def Let_def table_of_def fun_eq_iff nth_list_update)
    then show ?thesis using assms(2) by (simp add: has_table_def)
  next
    case False
    then have T: "T(unat h := None) = T" using table_beyond [OF assms(2)] by simp
    then have "table_of q = table_of p \<and> length (handles q) = length (handles p) \<and> native_path (root_handle q) = native_path (root_handle p)"
      using False True by (auto simp: q_def Let_def served_id_def get_handle_from_id_def table_of_def fun_eq_iff)
    then show ?thesis using assms(2) unfolding T by (simp add: has_table_def)
  qed
  ultimately show ?thesis
    using can_send_trunc [OF t] assms(1) trunc_ok(2) [OF t] closed [OF True, of root T]
    by (intro exI [of _ 0] exI [of _ q] exI [of _ "[]"] exI [of _ "T(unat h := None)"]) simp
next
  case False
  then have e: "close_handle_request host os p m h = reply_with_error host p m (neterror_code RL_NETERR_INVALID_VALUE)"
    by (auto simp: close_handle_request_def served_id_def get_handle_from_id_def)
  let ?a = "answer_to m (Error_answer (neterror_code RL_NETERR_INVALID_VALUE))"
  obtain q where q: "peer_transmit_message host p ?a = Some (0, q)" "can_send q" "peer.more q = peer.more p" "out_text q = out_text p @ wire_msg ?a"
    using transmit_sends [OF assms(1), of ?a host] open_sizes(5,6) by (auto simp: answer_to_def)
  have "has_table root T q" using kept.more [OF q(3)] assms(2) by simp
  then show ?thesis
    using e q bad_close [OF False, of root T]
    by (intro exI [of _ 1] exI [of _ q] exI [of _ "[Error_answer (neterror_code RL_NETERR_INVALID_VALUE)]"] exI [of _ T])
      (simp add: reply_with_error_def answer_to_def)
qed

lemma serve_table:
  assumes "can_send p" and "posix_ok os" and "input_taken os" and "has_table root T p" and "valid_string root"
    and "\<And>path mode. body m = Open_handle_request path mode \<Longrightarrow> valid_string path"
  shows "\<exists>q bs T'. rl_file_serve host os False p m = Some (0, q) \<and> can_send q \<and> has_table root T' q \<and>
           out_text q = out_text p @ concat (map (wire_msg \<circ> answer_to m) bs) \<and> table_step root (body m) T bs T'"
proof -
  have t: "transport_ok p" using assms(1) by (simp add: can_send_def)
  consider (op) path mode where "body m = Open_handle_request path mode" | (cl) h where "body m = Close_handle_request h"
    | (ot) "\<And>path mode. body m \<noteq> Open_handle_request path mode" "\<And>h. body m \<noteq> Close_handle_request h" by metis
  then show ?thesis
  proof cases
    case op
    obtain r q ctl1 where o: "make_handle os p path mode = Some (r, q)" "rl_file_serve host os False p m = Some (0, ctl1)" "can_send ctl1"
      "peer.more ctl1 = peer.more q" "out_text ctl1 = out_text p @ wire_msg (open_answer r q (hdr_seq m))"
      using open_answered [OF assms(1) op, of os host] by blast
    obtain T' where T': "has_table root T' q" "table_step root (body m) T [body (open_answer r q (hdr_seq m))] T'"
      using make_handle_table [OF o(1) assms(4,5) assms(6) [OF op] assms(3)] op by metis
    have "answer_to m (body (open_answer r q (hdr_seq m))) = open_answer r q (hdr_seq m)" by (simp add: answer_to_def open_answer_def)
    then show ?thesis using o T' kept.more [OF o(4), of root T'] by (intro exI [of _ ctl1] exI [of _ "[body (open_answer r q (hdr_seq m))]"]) auto
  next
    case cl
    from close_table [OF assms(1,4), of host os m h] show ?thesis
      by (elim exE conjE) (auto simp: rl_file_serve_def cl)
  next
    case ot
    have "leaves_with (has_table root T) (rl_file_serve host os False p m)"
      unfolding rl_file_serve_def
      by (rule leaves_map [where f = "\<lambda>_. 0"])
        (use assms(4) ot kept.kept_read [OF t assms(4,2)] kept.kept_write [OF t assms(4)] kept.kept_find_next [OF t assms(4)]
          kept.kept_transmit [OF t] in \<open>cases "body m"; simp\<close>)
    moreover have "sends p m (posix_answer os p (body m)) (rl_file_serve host os False p m)"
      using sending.serve [OF assms(1,2) null_write_off, of m host] ot(2) by blast
    then obtain rc q b where s: "rl_file_serve host os False p m = Some (rc, q)" "can_send q" "out_text q = out_text p @ wire_msg (answer_to m b)"
      unfolding sends_def answer_to_def by blast
    moreover have "rc = 0" using s(1) by (auto simp: rl_file_serve_def bind_eq_Some_conv)
    moreover have "table_step root (body m) T [b] T" using ot by (rule other)
    ultimately show ?thesis by (intro exI [of _ q] exI [of _ "[b]"] exI [of _ T]) (simp add: leaves_with_def)
  qed
qed

text \<open>
  Claim C5: the file server implements the abstract service. Over any sequence of requests with well-formed
  paths, starting from any table, the server handles every request; the bytes it sends are the
  encoded answers of a run of the abstract service on the same requests, with their sequence numbers, and its
  16 slots stay the table of that run. So an open that succeeds reports the least number
  that is free, with the size and the type of the node; a number stays taken until the client closes it, and
  nothing but an open or a close changes what is open.
\<close>
theorem file_server_refines:
  assumes "can_send p" and "posix_ok os" and "input_taken os" and "length (handles p) = RL_MAX_FILE_HANDLES"
    and "valid_string (native_path (root_handle p))"
    and "list_all (\<lambda>m. case body m of Open_handle_request path _ \<Rightarrow> valid_string path | _ \<Rightarrow> True) ms"
  shows "\<exists>q answers. serve_all (\<lambda>host os. rl_file_serve host os False) host os ms p = Some q \<and> can_send q \<and>
           out_text q = out_text p @ concat (map wire_msg answers) \<and>
           table_run (native_path (root_handle p)) ms (table_of p) answers (table_of q)"
proof -
  have "\<exists>q answers T'. serve_all (\<lambda>host os. rl_file_serve host os False) host os ms p = Some q \<and> can_send q \<and> has_table root T' q \<and>
      out_text q = out_text p @ concat (map wire_msg answers) \<and> table_run root ms T answers T'"
    if "can_send p" "has_table root T p" "valid_string root" for root T
    using that assms(6)
  proof (induction ms arbitrary: p T)
    case Nil
    then show ?case using no_request [of root T] by (intro exI [of _ p] exI [of _ "[]"] exI [of _ T]) simp
  next
    case (Cons m ms)
    obtain q bs T1 where q: "rl_file_serve host os False p m = Some (0, q)" "can_send q" "has_table root T1 q"
      "out_text q = out_text p @ concat (map (wire_msg \<circ> answer_to m) bs)" "table_step root (body m) T bs T1"
      using serve_table [OF Cons.prems(1) assms(2,3) Cons.prems(2,3), of m host] Cons.prems(4) by fastforce
    obtain q' answers T2 where q': "serve_all (\<lambda>host os. rl_file_serve host os False) host os ms q = Some q'" "can_send q'" "has_table root T2 q'"
      "out_text q' = out_text q @ concat (map wire_msg answers)" "table_run root ms T1 answers T2"
      using Cons.IH [OF q(2,3) Cons.prems(3)] Cons.prems(4) by auto
    have "table_run root (m # ms) T (map (answer_to m) bs @ answers) T2"
      using next_request [OF q(5) q'(5)] by simp
    moreover have "out_text q' = out_text p @ concat (map wire_msg (map (answer_to m) bs @ answers))" using q(4) q'(4) by (simp add: comp_def)
    ultimately show ?case using q(1) q'(1-3) by (intro exI [of _ q'] exI [of _ "map (answer_to m) bs @ answers"] exI [of _ T2]) simp
  qed
  moreover have "has_table (native_path (root_handle p)) (table_of p) p" using assms(4) by (simp add: has_table_def)
  ultimately obtain q answers T' where "serve_all (\<lambda>host os. rl_file_serve host os False) host os ms p = Some q" "can_send q"
    "has_table (native_path (root_handle p)) T' q" "out_text q = out_text p @ concat (map wire_msg answers)"
    "table_run (native_path (root_handle p)) ms (table_of p) answers T'"
    using assms(1,5) by blast
  then show ?thesis by (auto simp: has_table_def)
qed

theorem file_server_refines_witness:
  "\<exists>q answers. serve_all (\<lambda>host os. rl_file_serve host os False) example_host example_os
       [RL_MSG_INIT (Open_handle_request (lit ''x'') 1), RL_MSG_INIT (Close_handle_request 0)] example_controller = Some q \<and>
     table_run [] [RL_MSG_INIT (Open_handle_request (lit ''x'') 1), RL_MSG_INIT (Close_handle_request 0)]
       (table_of example_controller) answers (table_of q)"
proof -
  have "can_send example_controller" using example_controller_ok(1) by (simp add: can_answer_def can_send_def)
  moreover have "input_taken example_os" by (simp add: input_taken_def example_os_def)
  ultimately show ?thesis
    using file_server_refines [OF _ example_os_ok, of example_controller
        "[RL_MSG_INIT (Open_handle_request (lit ''x'') 1), RL_MSG_INIT (Close_handle_request 0)]" example_host]
    by (auto simp: RL_MAX_FILE_HANDLES_def valid_string_def example_handle_def RL_MSG_INIT_def simp del: serve_all.simps)
qed

end
