(* ===== verification/Rl_Describe.thy ===== *)
theory Rl_Describe
  imports Rl_Amigafs
begin

unbundle bit_operations_syntax

text \<open>
  The texts for the log: the describers and the names that \<^verbatim>\<open>src/src/mkmsg.py\<close> emits for the
  messages.
\<close>

section \<open>The generated describers\<close>

fun dir_name :: "msg_dir \<Rightarrow> string" where
  "dir_name Request = ''request''"
| "dir_name Answer = ''answer''"

definition message_title :: "message \<Rightarrow> string" where
  "message_title msg = msg_name msg @ ''/'' @ dir_name (msg_type msg)"

text \<open>\<^verbatim>\<open>rl_msg_name\<close>: one case per message of the description.\<close>

definition rl_msg_name :: "nat \<Rightarrow> string" where
  "rl_msg_name kind = (if kind < length messages then message_title (messages ! kind) else ''bogus'')"

text \<open>The format string and the arguments that the generator joins for a message.\<close>

fun fixed_format :: "string \<times> net_type \<Rightarrow> string" where
  "fixed_format (name, _) = name @ ''=%d ''"

fun var_format :: "string \<times> net_type \<Rightarrow> string" where
  "var_format (name, NT_string) = name @ ''='' @ [CHR 34] @ ''%s'' @ [CHR 34] @ '' ''"
| "var_format (name, NT_array) = name @ ''=array(%d) ''"
| "var_format (name, _) = name @ ''=''"

definition describe_format :: "message \<Rightarrow> string" where
  "describe_format msg =
     message_title msg @ '' { '' @ concat (map fixed_format (fixed_fields msg)) @ ''| '' @ concat (map var_format (var_fields msg))"

text \<open>A byte and a word are passed as \<^verbatim>\<open>int\<close>.\<close>

definition fixed_arg :: "(string \<rightharpoonup> fval) \<Rightarrow> string \<Rightarrow> rl_uint32" where
  "fixed_arg source name =
     (case source name of Some (FInt8 v) \<Rightarrow> ucast v | Some (FInt16 v) \<Rightarrow> ucast v | Some (FInt32 v) \<Rightarrow> v | _ \<Rightarrow> 0)"

fun var_args :: "(string \<rightharpoonup> fval) \<Rightarrow> string \<times> net_type \<Rightarrow> fmt_arg list" where
  "var_args source (name, NT_string) = [AStr (fstr source name)]"
| "var_args source (name, NT_array) = [AInt (of_nat (length (farr source name)))]"
| "var_args source (name, _) = []"

definition describe_args :: "message \<Rightarrow> (string \<rightharpoonup> fval) \<Rightarrow> fmt_arg list" where
  "describe_args msg source =
     map (\<lambda>(name, _). AInt (fixed_arg source name)) (fixed_fields msg) @ concat (map (var_args source) (var_fields msg))"

definition describe_message :: "platform \<Rightarrow> mem \<Rightarrow> message \<Rightarrow> nat \<Rightarrow> nat \<Rightarrow> (string \<rightharpoonup> fval) \<Rightarrow> mem option" where
  "describe_message plat m msg buf buffer_max source =
     map_option fst (rl_format_msg plat m buf buffer_max (lit (describe_format msg)) (describe_args msg source))"

definition rl_describe_msg :: "platform \<Rightarrow> mem \<Rightarrow> rl_msg \<Rightarrow> nat \<Rightarrow> nat \<Rightarrow> mem option" where
  "rl_describe_msg plat m message buf max_size =
     (let kind = rl_msg_kind_of message
      in if kind < length messages then describe_message plat m (messages ! kind) buf max_size (map_of (msg_fields message)) else None)"

section \<open>The text of a description\<close>

definition fixed_text :: "(string \<rightharpoonup> fval) \<Rightarrow> string \<times> net_type \<Rightarrow> cstring" where
  "fixed_text source f = lit (fst f) @ lit ''='' @ signed_text (sint (fixed_arg source (fst f))) @ lit '' ''"

fun var_text :: "(string \<rightharpoonup> fval) \<Rightarrow> string \<times> net_type \<Rightarrow> cstring" where
  "var_text source (name, NT_string) = lit name @ lit ''='' @ [34] @ fstr source name @ [34] @ lit '' ''"
| "var_text source (name, NT_array) = lit name @ lit ''=array('' @ signed_text (sint (of_nat (length (farr source name)) :: rl_uint32)) @ lit '') ''"
| "var_text source (name, _) = lit name @ lit ''=''"

definition described :: "message \<Rightarrow> (string \<rightharpoonup> fval) \<Rightarrow> cstring" where
  "described msg source =
     lit (message_title msg) @ lit '' { '' @ concat (map (fixed_text source) (fixed_fields msg)) @ lit ''| '' @
     concat (map (var_text source) (var_fields msg))"

lemma format_text_prefix:
  assumes "list_all (\<lambda>c. \<not> is_percent c) pre"
  shows "format_text plat (pre @ fmt) args = map_option ((@) pre) (format_text plat fmt args)"
proof -
  have "format_message plat collect_writer (pre @ fmt) args [] = format_message plat collect_writer fmt args pre"
    using assms
    by (cases "dropWhile (\<lambda>c. \<not> is_percent c) fmt")
      (simp_all add: format_message.simps [of plat collect_writer "pre @ fmt"] format_message.simps [of plat collect_writer fmt args pre]
        list_all_iff takeWhile_append2 dropWhile_append2 collect_writer_def del: dropWhile_eq_Nil_conv)
  then show ?thesis
    using collect.format_message_text [of plat fmt args pre] by (simp add: format_text_def collect_writer_def comp_def)
qed

lemma lit_append [simp]: "lit (a @ b) = lit a @ lit b"
  by (simp add: lit_def)

definition literal_name :: "string \<Rightarrow> bool" where
  "literal_name s \<longleftrightarrow> list_all (\<lambda>c. \<not> is_percent c \<and> c \<noteq> 0) (lit s) \<and> length (lit s) < 256"

lemma literal_nameD:
  "literal_name s \<Longrightarrow> list_all (\<lambda>c. \<not> is_percent c) (lit s)" "literal_name s \<Longrightarrow> nul_free (lit s)" "literal_name s \<Longrightarrow> length (lit s) < 2 ^ 31"
  by (auto simp: literal_name_def list_all_iff nul_free_def)

text \<open>On the Amiga the conversion \<^verbatim>\<open>%d\<close> cannot negate the least number.\<close>

definition printable :: "platform \<Rightarrow> rl_uint32 \<Rightarrow> bool" where
  "printable plat w \<longleftrightarrow> plat = Posix \<or> sint w \<noteq> - (2 ^ 31)"

lemma format_fixed:
  assumes "\<And>f. f \<in> set fs \<Longrightarrow> literal_name (fst f) \<and> printable plat (fixed_arg source (fst f))"
  shows "format_text plat (lit (concat (map fixed_format fs)) @ rest) (map (\<lambda>(name, _). AInt (fixed_arg source name)) fs @ args) =
           map_option ((@) (concat (map (fixed_text source) fs))) (format_text plat rest args)"
  using assms
proof (induction fs)
  case Nil
  then show ?case by (simp add: option.map_ident)
next
  case (Cons f fs)
  obtain name ty where f: "f = (name, ty)" by (cases f)
  have n: "list_all (\<lambda>c. \<not> is_percent c) (lit name @ lit ''='')" "printable plat (fixed_arg source name)"
    using Cons.prems [of f] literal_nameD(1) [of name] f by (simp_all add: is_percent_def)
  let ?R = "lit '' '' @ lit (concat (map fixed_format fs)) @ rest"
  have "format_text plat ((lit name @ lit ''='') @ lit ''%d'' @ ?R) (AInt (fixed_arg source name) # map (\<lambda>(name, _). AInt (fixed_arg source name)) fs @ args) =
      map_option (\<lambda>out. (lit name @ lit ''='') @ signed_text (sint (fixed_arg source name)) @ out)
        (format_text plat ?R (map (\<lambda>(name, _). AInt (fixed_arg source name)) fs @ args))"
    using n by (intro format_text_d) (auto simp: printable_def)
  moreover have "format_text plat ?R (map (\<lambda>(name, _). AInt (fixed_arg source name)) fs @ args) =
      map_option (\<lambda>out. lit '' '' @ concat (map (fixed_text source) fs) @ out) (format_text plat rest args)"
    using Cons.IH Cons.prems format_text_prefix [of "lit '' ''" plat] by (simp add: is_percent_def option.map_comp comp_def)
  ultimately show ?case using f by (simp add: fixed_text_def [of source "(name, ty)"] option.map_comp comp_def)
qed

lemma format_var:
  assumes "\<And>f. f \<in> set fs \<Longrightarrow> literal_name (fst f) \<and> snd f \<in> {NT_string, NT_array} \<and>
             length (fstr source (fst f)) < 2 ^ 31 \<and> length (farr source (fst f)) < 2 ^ 31"
  shows "format_text plat (lit (concat (map var_format fs))) (concat (map (var_args source) fs)) = Some (concat (map (var_text source) fs))"
  using assms
proof (induction fs)
  case Nil
  then show ?case using format_text_literal [of "[]" plat "[]"] by simp
next
  case (Cons f fs)
  obtain name ty where f: "f = (name, ty)" by (cases f)
  have n: "list_all (\<lambda>c. \<not> is_percent c) (lit name)" "ty = NT_string \<or> ty = NT_array" "length (fstr source name) < 2 ^ 31"
    "length (farr source name) < 2 ^ 31"
    using Cons.prems [of f] literal_nameD(1) [of name] f by simp_all
  let ?rest = "lit (concat (map var_format fs))" and ?args = "concat (map (var_args source) fs)" and ?out = "concat (map (var_text source) fs)"
  have IH: "format_text plat ?rest ?args = Some ?out" using Cons by simp
  from n(2) show ?case
  proof
    assume t: "ty = NT_string"
    have "format_text plat ((lit name @ lit ''='' @ [34]) @ lit ''%s'' @ ([34] @ lit '' '' @ ?rest)) (AStr (fstr source name) # ?args) =
        map_option (\<lambda>out. (lit name @ lit ''='' @ [34]) @ fstr source name @ out) (format_text plat ([34] @ lit '' '' @ ?rest) ?args)"
      using n(1,3) by (intro format_text_s) (simp_all add: is_percent_def)
    moreover have "format_text plat (([34] @ lit '' '') @ ?rest) ?args = Some (([34] @ lit '' '') @ ?out)"
      using IH by (subst format_text_prefix) (simp_all add: is_percent_def)
    ultimately show ?thesis using f t by simp
  next
    assume t: "ty = NT_array"
    have s: "sint (of_nat (length (farr source name)) :: rl_uint32) \<noteq> - (2 ^ 31)"
      using n(4) by (simp add: signed_of_nat signed_take_bit_int_eq_self)
    have "format_text plat ((lit name @ lit ''=array('') @ lit ''%d'' @ (lit '') '' @ ?rest)) (AInt (of_nat (length (farr source name))) # ?args) =
        map_option (\<lambda>out. (lit name @ lit ''=array('') @ signed_text (sint (of_nat (length (farr source name)) :: rl_uint32)) @ out)
          (format_text plat (lit '') '' @ ?rest) ?args)"
      using n(1) s by (intro format_text_d) (simp_all add: is_percent_def)
    moreover have "format_text plat (lit '') '' @ ?rest) ?args = Some (lit '') '' @ ?out)"
      using IH by (subst format_text_prefix) (simp_all add: is_percent_def)
    ultimately show ?thesis using f t by simp
  qed
qed

lemma format_described:
  assumes "literal_name (message_title msg)"
    and "\<And>f. f \<in> set (fixed_fields msg) \<Longrightarrow> literal_name (fst f) \<and> printable plat (fixed_arg source (fst f))"
    and "\<And>f. f \<in> set (var_fields msg) \<Longrightarrow> literal_name (fst f) \<and> snd f \<in> {NT_string, NT_array} \<and>
           length (fstr source (fst f)) < 2 ^ 31 \<and> length (farr source (fst f)) < 2 ^ 31"
  shows "format_text plat (lit (describe_format msg)) (describe_args msg source) = Some (described msg source)"
proof -
  let ?var = "lit (concat (map var_format (var_fields msg)))" and ?vargs = "concat (map (var_args source) (var_fields msg))"
  have v: "format_text plat (lit ''| '' @ ?var) ?vargs = Some (lit ''| '' @ concat (map (var_text source) (var_fields msg)))"
    using format_var [OF assms(3), where plat = plat] by (subst format_text_prefix) (simp_all add: is_percent_def)
  have "format_text plat ((lit (message_title msg) @ lit '' { '') @ lit (concat (map fixed_format (fixed_fields msg))) @ lit ''| '' @ ?var)
      (describe_args msg source) = Some (described msg source)"
    unfolding describe_args_def described_def
    using literal_nameD(1) [OF assms(1)] v
    by (subst format_text_prefix, simp add: is_percent_def, subst format_fixed [OF assms(2)]) simp_all
  then show ?thesis by (simp add: describe_format_def)
qed

text \<open>What the description of the protocol guarantees: no percent sign in a name, and only variable types behind the bar.\<close>

lemma message_names:
  assumes "k < length messages"
  shows "literal_name (message_title (messages ! k)) \<and>
    list_all (\<lambda>f. literal_name (fst f)) (fixed_fields (messages ! k)) \<and>
    list_all (\<lambda>f. literal_name (fst f) \<and> snd f \<in> {NT_string, NT_array}) (var_fields (messages ! k))"
proof -
  let ?Q = "\<lambda>(n, d, fx, vr, z). literal_name (n @ ''/'' @ dir_name d) \<and> list_all (\<lambda>f. literal_name (fst f)) fx \<and>
      list_all (\<lambda>f. literal_name (fst f) \<and> snd f \<in> {NT_string, NT_array}) vr"
  have "list_all ?Q (map (\<lambda>m. (msg_name m, msg_type m, fixed_fields m, var_fields m, fixed_size m)) messages)"
    unfolding messages_layout by (simp add: layouts_def literal_name_def is_percent_def)
  then have "list_all (\<lambda>m. literal_name (message_title m) \<and> list_all (\<lambda>f. literal_name (fst f)) (fixed_fields m) \<and>
      list_all (\<lambda>f. literal_name (fst f) \<and> snd f \<in> {NT_string, NT_array}) (var_fields m)) messages"
    by (simp add: list.pred_map comp_def message_title_def)
  then show ?thesis using assms by (simp add: list_all_length)
qed

lemma described_nul_free:
  assumes "k < length messages" and "\<And>f. f \<in> set (var_fields (messages ! k)) \<Longrightarrow> nul_free (fstr source (fst f))"
  shows "nul_free (described (messages ! k) source)"
proof -
  note n = message_names [OF assms(1)]
  have "nul_free (fixed_text source f)" if "f \<in> set (fixed_fields (messages ! k))" for f
    using n that literal_nameD(2) signed_text_nul_free by (auto simp: list_all_iff fixed_text_def)
  moreover have "nul_free (var_text source f)" if "f \<in> set (var_fields (messages ! k))" for f
    using n that literal_nameD(2) [of "fst f"] signed_text_nul_free assms(2) [OF that] by (cases f; cases "snd f") (auto simp: list_all_iff)
  ultimately show ?thesis
    using n literal_nameD(2) by (auto simp: described_def nul_free_iff)
qed

text \<open>The fields of a well-formed message are strings without a terminator and short arrays.\<close>

lemma valid_fields:
  assumes "valid_body (body msg)"
  shows "nul_free (fstr (map_of (msg_fields msg)) name)" "length (fstr (map_of (msg_fields msg)) name) < 2 ^ 31"
    "length (farr (map_of (msg_fields msg)) name) < 2 ^ 31"
proof -
  have *: "case v of FStr s \<Rightarrow> valid_string s | FArr a \<Rightarrow> valid_array a | _ \<Rightarrow> True" if "map_of (msg_fields msg) name = Some v" for v
    using map_of_SomeD [OF that] assms by (auto simp: msg_fields_def valid_body_def list_all_iff)
  show "nul_free (fstr (map_of (msg_fields msg)) name)" "length (fstr (map_of (msg_fields msg)) name) < 2 ^ 31"
    "length (farr (map_of (msg_fields msg)) name) < 2 ^ 31"
    using * by (auto simp: fstr_def farr_def valid_string_def valid_array_def split: option.split fval.split)
qed

text \<open>
  Claim C38: the description of a message is its text, cut to the buffer. For every well-formed message,
  \<^verbatim>\<open>rl_describe_msg\<close> returns and leaves in the buffer, terminated, the first characters of the title and
  the fields in the order of the protocol, numbers in signed decimal and arrays by their
  length; nothing outside the buffer is touched, however long the strings are. On the Amiga
  no field may be the least 32-bit number, which \<^verbatim>\<open>%d\<close> cannot negate there.
\<close>
theorem describe_msg_text:
  assumes "valid_body (body msg)" and "0 < n"
    and "\<And>f. f \<in> set (fixed_fields (messages ! rl_msg_kind_of msg)) \<Longrightarrow> printable plat (fixed_arg (map_of (msg_fields msg)) (fst f))"
  defines "out \<equiv> described (messages ! rl_msg_kind_of msg) (map_of (msg_fields msg))"
  shows "\<exists>m'. rl_describe_msg plat m msg buf n = Some m' \<and> str_at m' buf (take (n - 1) out) \<and>
           (\<forall>i. i < buf \<or> buf + n \<le> i \<longrightarrow> m' i = m i)"
proof -
  let ?msg = "messages ! rl_msg_kind_of msg"
  have k: "rl_msg_kind_of msg < length messages" using kind_of_less [of "body msg"] by (simp add: rl_msg_kind_of_def)
  note names = message_names [OF k]
  have "format_text plat (lit (describe_format ?msg)) (describe_args ?msg (map_of (msg_fields msg))) = Some out"
    unfolding out_def using names assms(3) valid_fields [OF assms(1)] by (intro format_described) (auto simp: list_all_iff)
  moreover have "nul_free out" unfolding out_def using valid_fields(1) [OF assms(1)] by (intro described_nul_free [OF k]) simp
  ultimately show ?thesis
    using format_msg_bounded [OF assms(2), of plat _ _ out m buf] k by (fastforce simp: rl_describe_msg_def describe_message_def)
qed

theorem describe_msg_text_witness:
  "\<exists>m'. rl_describe_msg Posix (\<lambda>_. 255) (RL_MSG_INIT (Open_handle_request (lit ''f'') 1)) 10 20 = Some m' \<and>
     str_at m' 10 (lit ''open_handle/request'')"
proof -
  let ?msg = "RL_MSG_INIT (Open_handle_request (lit ''f'') 1)"
  have k: "rl_msg_kind_of ?msg = 5" by (simp add: rl_msg_kind_of_def RL_MSG_INIT_def)
  have t: "message_title (messages ! 5) = ''open_handle/request''" by code_simp
  have d: "take (20 - 1) (described (messages ! 5) s) = lit ''open_handle/request''" for s by (simp add: described_def t)
  have "valid_body (body ?msg)" by (simp add: RL_MSG_INIT_def valid_body_def valid_string_def)
  from describe_msg_text [OF this, of 20 Posix "\<lambda>_. 255" 10] show ?thesis unfolding k d by (auto simp: printable_def)
qed

section \<open>Names in the log\<close>

text \<open>States and actions of a peer (\<^verbatim>\<open>src/src/peer.c\<close>), handles and operations of the file system (\<^verbatim>\<open>src/src/amigafs.c\<close>).\<close>

fun peer_state_name :: "peer_state \<Rightarrow> string" where
  "peer_state_name PEER_INITIAL = ''initial''"
| "peer_state_name PEER_WAIT_HANDSHAKE = ''wait-handshake''"
| "peer_state_name PEER_CONNECTED = ''connected''"
| "peer_state_name PEER_ERROR = ''error''"
| "peer_state_name PEER_DISCONNECTED = ''disconnected''"

fun peer_action_name :: "peer_action \<Rightarrow> string" where
  "peer_action_name PEER_ACTION_RECEIVE_MESSAGE = ''receive_message''"
| "peer_action_name PEER_ACTION_TRANSMIT_MESSAGE = ''transmit_message''"
| "peer_action_name PEER_ACTION_RECEIVE_HANDSHAKE = ''receive_handshake''"
| "peer_action_name PEER_ACTION_TRANSMIT_HANDSHAKE = ''transmit_handshake''"
| "peer_action_name PEER_ACTION_DISCONNECT = ''disconnect''"
| "peer_action_name PEER_ACTION_UPDATE = ''update''"

fun rl_client_handle_type_name :: "rl_client_handle_type \<Rightarrow> string" where
  "rl_client_handle_type_name RL_HANDLE_FILE = ''file''"
| "rl_client_handle_type_name RL_HANDLE_DIR = ''directory''"
| "rl_client_handle_type_name RL_HANDLE_DEVICE = ''device''"
| "rl_client_handle_type_name RL_HANDLE_VIRTUAL_INPUT = ''virtual input''"
| "rl_client_handle_type_name RL_HANDLE_VIRTUAL_OUTPUT = ''virtual output''"

text \<open>The line of \<^verbatim>\<open>invoke_action\<close>; updates are not logged.\<close>

definition log_action ::
  "platform \<Rightarrow> rl_uint32 \<Rightarrow> 'a peer_scheme \<Rightarrow> peer_action \<Rightarrow> rl_msg option \<Rightarrow> log_state \<Rightarrow> log_state option" where
  "log_action plat rl_log_bits peer action arg log =
     (if action \<noteq> PEER_ACTION_UPDATE \<and> RL_DEBUG AND rl_log_bits \<noteq> 0
      then rl_log_message plat (lit ''%s[%s]: <%s> (%s)'')
             [AStr (ident peer), AStr (lit (peer_state_name (peer_state peer))), AStr (lit (peer_action_name action)),
              AStr (case arg of Some m \<Rightarrow> lit (rl_msg_name (rl_msg_kind_of m)) | None \<Rightarrow> lit ''N/A'')] log
      else Some log)"

fun dump_ops :: "platform \<Rightarrow> nat \<Rightarrow> (addr \<times> rl_pending_operation) list \<Rightarrow> log_state \<Rightarrow> log_state option" where
  "dump_ops plat index [] log = Some log"
| "dump_ops plat index ((_, op) # ops) log = do {
     log \<leftarrow> rl_log_message plat (lit ''%d: [%u: %s] '')
              [AInt (of_nat index), AInt (request_seqno op), AStr (lit (rl_msg_name (expected_answer_type op)))] log;
     dump_ops plat (index + 1) ops log
   }"

definition dump_pending_ops :: "platform \<Rightarrow> rl_uint32 \<Rightarrow> rl_amigafs \<Rightarrow> log_state \<Rightarrow> log_state option" where
  "dump_pending_ops plat rl_log_bits fs log =
     (if RL_DEBUG AND rl_log_bits = 0 then Some log
      else do {
        log \<leftarrow> rl_log_message plat (lit ''Pending ops against %s: '') [AStr (ident fs)] log;
        dump_ops plat 0 (pending fs) log
      })"

lemma format_text_u:
  assumes "list_all (\<lambda>c. \<not> is_percent c) pre"
  shows "format_text plat (pre @ lit ''%u'' @ rest) (AInt w # args) =
           map_option (\<lambda>out. pre @ fmt_digits 10 (unat w) [] @ out) (format_text plat rest args)"
proof -
  have "unat w < 10 ^ 10" using unsigned_less [of w, where ?'a = nat] by simp
  then have "length (fmt_digits 10 (unat w) []) \<le> 10" using fmt_digits_length [of "unat w" 10 10 "[]"] by simp
  then have "format_integer_unsigned (unat w) 10 False 0 32 collect_writer pre = Some (pre @ fmt_digits 10 (unat w) [])"
    by (simp add: format_integer_unsigned_eq Let_def format_string_plain)
  moreover have "parse_spec (lit ''u'' @ rest) = (False, 32, 0, 117 # rest)"
    by (simp add: parse_spec_def rl_isdigit_def)
  ultimately show ?thesis
    using format_text_step [OF assms, of "lit ''u'' @ rest" False 32 0 117 rest] by (simp add: format_conv_def)
qed

lemma format_text_signed:
  assumes "list_all (\<lambda>c. \<not> is_percent c) pre" and "n < 2 ^ 31"
  shows "format_text plat (pre @ lit ''%d'' @ rest) (AInt (of_nat n) # args) =
           map_option (\<lambda>out. pre @ signed_text (int n) @ out) (format_text plat rest args)"
proof -
  have "sint (of_nat n :: rl_uint32) = int n" using assms(2) by (simp add: signed_of_nat signed_take_bit_int_eq_self)
  then show ?thesis using format_text_d [OF assms(1), of plat "of_nat n" rest args] by simp
qed

lemma log_message_text:
  assumes "log_inv st" and "format_text plat fmt args = Some out" and "nul_free out"
  shows "\<exists>st'. rl_log_message plat fmt args st = Some st' \<and> log_inv st' \<and> log_text st' = log_text st @ out @ [10]"
proof -
  have w: "log_inv (write_log out st)" "log_text (write_log out st) = log_text st @ out" using write_log_text [OF assms(1,3)] by auto
  have n: "log_inv (write_log_ch (write_log out st) 10)" "log_text (write_log_ch (write_log out st) 10) = log_text (write_log out st) @ [10]"
    using write_log_ch_text [OF w(1), of 10] by auto
  have "rl_log_message plat fmt args st = Some (write_log_ch (write_log out st) 10)"
    using assms(2) log_writer.format_message_text [of plat fmt args st] by (simp add: rl_log_message_def write_log_def)
  with n w show ?thesis by simp
qed

lemma rl_msg_name_literal: "literal_name (rl_msg_name k)"
  using message_names [of k] by (simp add: rl_msg_name_def) (simp add: literal_name_def is_percent_def)

definition op_line :: "nat \<Rightarrow> rl_pending_operation \<Rightarrow> cstring" where
  "op_line index op = signed_text (int index) @ lit '': ['' @ fmt_digits 10 (unat (request_seqno op)) [] @ lit '': '' @
     lit (rl_msg_name (expected_answer_type op)) @ lit ''] '' @ [10]"

fun op_lines :: "nat \<Rightarrow> (addr \<times> rl_pending_operation) list \<Rightarrow> cstring" where
  "op_lines index [] = []"
| "op_lines index ((_, op) # ops) = op_line index op @ op_lines (index + 1) ops"

lemma dump_ops_text:
  "log_inv log \<Longrightarrow> index + length ops \<le> 2 ^ 31 \<Longrightarrow>
     \<exists>log'. dump_ops plat index ops log = Some log' \<and> log_inv log' \<and> log_text log' = log_text log @ op_lines index ops"
proof (induction ops arbitrary: index log)
  case Nil
  then show ?case by simp
next
  case (Cons e ops)
  obtain a op where e: "e = (a, op)" by (cases e)
  let ?name = "lit (rl_msg_name (expected_answer_type op))"
  let ?fmt = "[] @ lit ''%d'' @ (lit '': ['' @ lit ''%u'' @ (lit '': '' @ lit ''%s'' @ lit ''] ''))"
  let ?args = "[AInt (of_nat index), AInt (request_seqno op), AStr ?name]"
  let ?out = "signed_text (int index) @ lit '': ['' @ fmt_digits 10 (unat (request_seqno op)) [] @ lit '': '' @ ?name @ lit ''] ''"
  have l: "length ?name < 2 ^ 31" using literal_nameD(3) [OF rl_msg_name_literal] .
  have "format_text plat (lit ''] '') [] = Some (lit ''] '')" by (rule format_text_literal) (simp add: is_percent_def)
  then have "format_text plat (lit '': '' @ lit ''%s'' @ lit ''] '') [AStr ?name] = Some (lit '': '' @ ?name @ lit ''] '')"
    using l by (subst format_text_s) (simp_all add: is_percent_def)
  then have "format_text plat (lit '': ['' @ lit ''%u'' @ (lit '': '' @ lit ''%s'' @ lit ''] '')) [AInt (request_seqno op), AStr ?name] =
      Some (lit '': ['' @ fmt_digits 10 (unat (request_seqno op)) [] @ lit '': '' @ ?name @ lit ''] '')"
    by (subst format_text_u) (simp_all add: is_percent_def)
  then have t: "format_text plat ?fmt ?args = Some ?out"
    using Cons.prems(2) by (subst format_text_signed) simp_all
  have "nul_free ?out"
    using signed_text_nul_free digits_nul_free literal_nameD(2) [OF rl_msg_name_literal] by simp
  from log_message_text [OF Cons.prems(1) t this] obtain log1 where
    l1: "rl_log_message plat ?fmt ?args log = Some log1" "log_inv log1" "log_text log1 = log_text log @ op_line index op"
    by (auto simp: op_line_def)
  then show ?case using Cons.IH [OF l1(2), of "index + 1"] Cons.prems(2) e by auto
qed

text \<open>
  The list of the pending operations: with the debug channel on, the log gets the title and one line for
  each operation, in their order; with it off nothing.
\<close>

lemma dump_pending_ops_text:
  assumes "log_inv log" and "valid_string (ident fs)" and "length (pending fs) \<le> 2 ^ 31"
  shows "\<exists>log'. dump_pending_ops plat bits fs log = Some log' \<and> log_inv log' \<and>
           log_text log' = log_text log @ (if RL_DEBUG AND bits = 0 then []
             else lit ''Pending ops against '' @ ident fs @ lit '': '' @ [10] @ op_lines 0 (pending fs))"
proof (cases "RL_DEBUG AND bits = 0")
  case False
  have "format_text plat (lit ''Pending ops against '' @ lit ''%s'' @ lit '': '') [AStr (ident fs)] =
      Some (lit ''Pending ops against '' @ ident fs @ lit '': '')"
    using assms(2) format_text_literal [of "lit '': ''" plat "[]"]
    by (subst format_text_s) (simp_all add: is_percent_def valid_string_def)
  moreover have "nul_free (lit ''Pending ops against '' @ ident fs @ lit '': '')" using assms(2) by (simp add: valid_string_def)
  ultimately obtain log1 where "rl_log_message plat (lit ''Pending ops against '' @ lit ''%s'' @ lit '': '') [AStr (ident fs)] log = Some log1"
    "log_inv log1" "log_text log1 = log_text log @ lit ''Pending ops against '' @ ident fs @ lit '': '' @ [10]"
    using log_message_text [OF assms(1)] by fastforce
  then show ?thesis using dump_ops_text [of log1 0 "pending fs" plat] assms(3) False by (auto simp: dump_pending_ops_def)
qed (use assms(1) in \<open>simp add: dump_pending_ops_def\<close>)

text \<open>With the debug channel on, every action but the updates adds one line with the peer, its state, the action and the message.\<close>

lemma log_action_text:
  fixes arg :: "rl_msg option"
  assumes "log_inv log" and "valid_string (ident peer)"
  defines "name \<equiv> (case arg of Some m \<Rightarrow> rl_msg_name (rl_msg_kind_of m) | None \<Rightarrow> ''N/A'')"
  shows "\<exists>log'. log_action plat bits peer action arg log = Some log' \<and> log_inv log' \<and>
           log_text log' = log_text log @
             (if action = PEER_ACTION_UPDATE \<or> RL_DEBUG AND bits = 0 then []
              else ident peer @ lit ''['' @ lit (peer_state_name (peer_state peer)) @ lit '']: <'' @ lit (peer_action_name action) @
                   lit ''> ('' @ lit name @ lit '')'' @ [10])"
proof (cases "action = PEER_ACTION_UPDATE \<or> RL_DEBUG AND bits = 0")
  case False
  let ?st = "lit (peer_state_name (peer_state peer))" and ?ac = "lit (peer_action_name action)"
  let ?out = "ident peer @ lit ''['' @ ?st @ lit '']: <'' @ ?ac @ lit ''> ('' @ lit name @ lit '')''"
  have n: "literal_name name" using rl_msg_name_literal by (simp add: name_def literal_name_def is_percent_def split: option.split)
  have s: "nul_free ?st" "length ?st < 2 ^ 31" by (cases "peer_state peer"; simp)+
  have a: "nul_free ?ac" "length ?ac < 2 ^ 31" by (cases action; simp)+
  have "format_text plat (lit ''> ('' @ lit ''%s'' @ lit '')'') [AStr (lit name)] = Some (lit ''> ('' @ lit name @ lit '')'')"
    using literal_nameD(3) [OF n] format_text_literal [of "lit '')''" plat "[]"]
    by (subst format_text_s) (simp_all add: is_percent_def)
  then have "format_text plat (lit '']: <'' @ lit ''%s'' @ (lit ''> ('' @ lit ''%s'' @ lit '')'')) [AStr ?ac, AStr (lit name)] =
      Some (lit '']: <'' @ ?ac @ lit ''> ('' @ lit name @ lit '')'')"
    using a(2) by (subst format_text_s) (simp_all add: is_percent_def)
  then have "format_text plat (lit ''['' @ lit ''%s'' @ (lit '']: <'' @ lit ''%s'' @ (lit ''> ('' @ lit ''%s'' @ lit '')''))) [AStr ?st, AStr ?ac, AStr (lit name)] =
      Some (lit ''['' @ ?st @ lit '']: <'' @ ?ac @ lit ''> ('' @ lit name @ lit '')'')"
    using s(2) by (subst format_text_s) (simp_all add: is_percent_def)
  then have "format_text plat ([] @ lit ''%s'' @ (lit ''['' @ lit ''%s'' @ (lit '']: <'' @ lit ''%s'' @ (lit ''> ('' @ lit ''%s'' @ lit '')''))))
      [AStr (ident peer), AStr ?st, AStr ?ac, AStr (lit name)] = Some ?out"
    using assms(2) by (subst format_text_s) (simp_all add: valid_string_def)
  moreover have "nul_free ?out" using s(1) a(1) literal_nameD(2) [OF n] assms(2) by (simp add: valid_string_def)
  ultimately obtain log' where "rl_log_message plat (lit ''%s[%s]: <%s> (%s)'') [AStr (ident peer), AStr ?st, AStr ?ac, AStr (lit name)] log = Some log'"
    "log_inv log'" "log_text log' = log_text log @ ?out @ [10]"
    using log_message_text [OF assms(1)] by fastforce
  moreover have "(case arg of Some m \<Rightarrow> lit (rl_msg_name (rl_msg_kind_of m)) | None \<Rightarrow> lit ''N/A'') = lit name"
    unfolding name_def by (cases arg) simp_all
  ultimately show ?thesis using False by (simp add: log_action_def)
qed (use assms(1) in \<open>auto simp: log_action_def\<close>)

end
