(* ===== verification/Rl_Connect.thy ===== *)
theory Rl_Connect
  imports Rl_Controller
begin

unbundle bit_operations_syntax

text \<open>
  The controller as a program (\<^verbatim>\<open>src/src/controller.c\<close>): the connection to the target and \<^verbatim>\<open>main\<close>, on
  POSIX systems. What \<^verbatim>\<open>getaddrinfo\<close>, \<^verbatim>\<open>socket\<close>, \<^verbatim>\<open>fcntl\<close>, \<^verbatim>\<open>connect\<close>, \<^verbatim>\<open>select\<close> and the allocator
  return are arguments.
\<close>

section \<open>Connecting\<close>

text \<open>
  A non-blocking \<^verbatim>\<open>connect\<close> succeeds, fails, or is under way; then the flags say whether the socket
  gets ready in time and whether it can be made blocking again.
\<close>

datatype connect_outcome = Connect_done | Connect_waits bool bool | Connect_fails

fun connect_reached :: "connect_outcome \<Rightarrow> bool" where
  "connect_reached Connect_done \<longleftrightarrow> True"
| "connect_reached (Connect_waits ready restored) \<longleftrightarrow> ready \<and> restored"
| "connect_reached Connect_fails \<longleftrightarrow> False"

record attempt =
  at_outcome :: connect_outcome
  at_address :: "rl_uint32 \<times> rl_uint16"
  at_alloc :: bool
  at_zeroed :: peer

text \<open>
  The variables of the loop: \<open>this_peer\<close>, the count of peers, and, for the theorems, the peers
  that \<open>this_peer\<close> pointed to before it was overwritten.
\<close>

record 'w connection =
  this_peer :: "'w controller option"
  cn_count :: int
  cn_lost :: "'w controller list"

definition forget_peer :: "'w connection \<Rightarrow> 'w connection" where
  "forget_peer c = c\<lparr>this_peer := None, cn_lost := cn_lost c @ (case this_peer c of None \<Rightarrow> [] | Some p \<Rightarrow> [p])\<rparr>"

fun connect_loop ::
  "host \<Rightarrow> 'w posix \<Rightarrow> bool \<Rightarrow> 'w controller \<Rightarrow> attempt list \<Rightarrow> 'w connection \<Rightarrow> 'w connection option" where
  "connect_loop host os debug ctl [] c = Some c"
| "connect_loop host os debug ctl (at # ats) c =
     (if \<not> connect_reached (at_outcome at) then Some c
      else if \<not> at_alloc at then Some (forget_peer c)
      else do {
        (rc, p, n) \<leftarrow> peer_init host (controller_callbacks host os debug) (peer.extend (at_zeroed at) (peer.more ctl))
                        (Some (at_address at)) PEER_INIT_CONTROLLER (cn_count c);
        if rc \<noteq> 0 then Some ((forget_peer c)\<lparr>cn_count := n\<rparr>)
        else connect_loop host os debug ctl ats ((forget_peer c)\<lparr>this_peer := Some p, cn_count := n\<rparr>)
      })"

text \<open>
  The sockets of the program that are open: closing any other descriptor is \<open>None\<close>, so is closing
  one twice.
\<close>

definition CloseSocket :: "int \<Rightarrow> int list \<Rightarrow> int list option" where
  "CloseSocket fd socks = (if fd \<in> set socks then Some (remove1 fd socks) else None)"

text \<open>
  The result: the peer, the sockets still open, whether the list of addresses was freed,
  and the peers lost. \<open>ce_attempts\<close> is \<open>None\<close> when the name cannot be resolved.
\<close>

record connect_env =
  ce_attempts :: "attempt list option"
  ce_socket :: "int option"
  ce_nonblocking :: bool

definition connect_to_target ::
  "host \<Rightarrow> 'w posix \<Rightarrow> bool \<Rightarrow> 'w controller \<Rightarrow> connect_env \<Rightarrow>
     ('w controller option \<times> int list \<times> bool \<times> 'w controller list) option" where
  "connect_to_target host os debug ctl env =
     (case ce_attempts env of
        None \<Rightarrow> Some (None, [], False, [])
      | Some ats \<Rightarrow>
          (case ce_socket env of
             None \<Rightarrow> Some (None, [], True, [])
           | Some fd \<Rightarrow>
               do {
                 let c = \<lparr>this_peer = None, cn_count = 0, cn_lost = []\<rparr>;
                 c \<leftarrow> (if ce_nonblocking env then connect_loop host os debug ctl ats c else Some c);
                 socks \<leftarrow> (if this_peer c = None then CloseSocket fd [fd] else Some [fd]);
                 Some (this_peer c, socks, True, cn_lost c)
               }))"

section \<open>The program\<close>

text \<open>
  The state of the program after the events: still in its loop, or ended with its exit code, the
  sockets that are still open, the peer as it was destroyed and the peers lost. Whether the debug
  channel is on is what the command line has made of the log bits. \<open>peer_destroy\<close> closes the socket of its peer.
\<close>

datatype 'w run =
    Running "'w controller"
  | Exited (exit_code: rl_uint32) (exit_sockets: "int list") (exit_peer: "'w controller option") (exit_lost: "'w controller list")

definition controller_main ::
  "host \<Rightarrow> 'w posix \<Rightarrow> 'w controller \<Rightarrow> cstring list \<Rightarrow> options \<Rightarrow> cstring \<Rightarrow> connect_env \<Rightarrow>
     (host \<times> select_outcome) list \<Rightarrow> 'w run option" where
  "controller_main host os ctl0 args defaults cwd env es = do {
     parsed \<leftarrow> parse_args args defaults;
     (case parsed of
        Inl _ \<Rightarrow> Some (Exited 0 [] None [])
      | Inr opts \<Rightarrow>
          if peer_hostname opts = None \<or> opt_executable opts = None then Some (Exited 0 [] None [])
          else do {
            let debug = (RL_DEBUG AND log_bits opts \<noteq> 0);
            ctl \<leftarrow> setup_controller ctl0 opts cwd;
            (peer, socks, _, lost) \<leftarrow> connect_to_target host os debug ctl env;
            (case peer of
               None \<Rightarrow> Some (Exited (ctl_result ctl) socks None lost)
             | Some p \<Rightarrow> do {
                 (r, p) \<leftarrow> pump_peer_state_machine (\<lambda>host. controller_callbacks host os debug) p True 0 es;
                 (case r of
                    None \<Rightarrow> Some (Running p)
                  | Some _ \<Rightarrow> do {
                      gone \<leftarrow> peer_destroy p;
                      socks \<leftarrow> (if fd_open gone then Some socks else CloseSocket (the (ce_socket env)) socks);
                      Some (Exited (ctl_result p) socks (Some gone) lost)
                    })
               })
          })
   }"

section \<open>Correctness\<close>

definition fresh :: "attempt \<Rightarrow> bool" where
  "fresh at \<longleftrightarrow> cell (heap (at_zeroed at)) = Map.empty"

definition connected_ok :: "'w controller \<Rightarrow> 'w connection \<Rightarrow> bool" where
  "connected_ok ctl c \<longleftrightarrow> (\<forall>p. this_peer c = Some p \<longrightarrow> peer_ok p \<and> peer.more p = peer.more ctl)"

lemma extend_more [simp]: "peer.more (peer.extend p x) = x" "heap (peer.extend p x) = heap p"
  by (simp_all add: peer.extend_def)

lemma connect_init:
  assumes "host_ok host" and "fresh at"
  shows "\<exists>rc p n. peer_init host cb (peer.extend (at_zeroed at) (peer.more ctl)) addr PEER_INIT_CONTROLLER k = Some (rc, p, n) \<and>
           (rc = 0 \<longrightarrow> peer_ok p \<and> peer.more p = peer.more (ctl :: 'w controller))"
proof -
  have "peer_owner host quiet_callbacks (\<lambda>x. x = peer.more ctl)"
    using assms(1) by unfold_locales (auto simp: quiet_callbacks_def intro: advances_refl)
  from peer_owner.peer_init_ok [OF this, of "peer.extend (at_zeroed at) (peer.more ctl)" addr PEER_INIT_CONTROLLER k] assms(2)
  show ?thesis
    unfolding init_no_callback [of host cb _ addr PEER_INIT_CONTROLLER k quiet_callbacks] by (auto simp: fresh_def)
qed

lemma connect_loop_ok:
  assumes "host_ok host"
  shows "list_all fresh ats \<Longrightarrow> connected_ok ctl c \<Longrightarrow>
    \<exists>c'. connect_loop host os debug ctl ats c = Some c' \<and> connected_ok ctl c' \<and>
      length (cn_lost c') \<le> length (cn_lost c) + (length ats - (if this_peer c = None then 1 else 0))"
proof (induction ats arbitrary: c)
  case (Cons at ats)
  obtain rc p n where i: "peer_init host (controller_callbacks host os debug) (peer.extend (at_zeroed at) (peer.more ctl))
      (Some (at_address at)) PEER_INIT_CONTROLLER (cn_count c) = Some (rc, p, n)" "rc = 0 \<longrightarrow> peer_ok p \<and> peer.more p = peer.more ctl"
    using connect_init [OF assms, of at] Cons.prems(1) by fastforce
  let ?c = "(forget_peer c)\<lparr>this_peer := Some p, cn_count := n\<rparr>"
  have l: "length (cn_lost (forget_peer c)) = length (cn_lost c) + (if this_peer c = None then 0 else 1)"
    by (simp add: forget_peer_def split: option.splits)
  show ?case
  proof (cases "connect_reached (at_outcome at) \<and> at_alloc at \<and> rc = 0")
    case True
    then obtain c' where "connect_loop host os debug ctl ats ?c = Some c'" "connected_ok ctl c'"
      "length (cn_lost c') \<le> length (cn_lost ?c) + length ats"
      using Cons.IH [of ?c] Cons.prems(1) i(2) by (auto simp: connected_ok_def)
    then show ?thesis using True i(1) l by auto
  next
    case False
    then have "connect_loop host os debug ctl (at # ats) c \<in> {Some c, Some (forget_peer c), Some ((forget_peer c)\<lparr>cn_count := n\<rparr>)}"
      using i(1) by auto
    moreover have "connected_ok ctl (forget_peer c)" "connected_ok ctl ((forget_peer c)\<lparr>cn_count := n\<rparr>)"
      by (simp_all add: connected_ok_def forget_peer_def)
    ultimately show ?thesis using Cons.prems(2) l by fastforce
  qed
qed auto

lemma connect_ok:
  assumes "host_ok host" and "\<And>ats. ce_attempts env = Some ats \<Longrightarrow> list_all fresh ats"
  shows "\<exists>p socks b lost. connect_to_target host os debug ctl env = Some (p, socks, b, lost) \<and>
           (p = None \<longrightarrow> socks = []) \<and>
           (\<forall>q. p = Some q \<longrightarrow> socks = [the (ce_socket env)] \<and> peer_ok q \<and> peer.more q = peer.more ctl) \<and>
           length lost \<le> length (the (ce_attempts env)) - 1"
proof (cases "ce_attempts env = None \<or> ce_socket env = None \<or> \<not> ce_nonblocking env")
  case True
  then show ?thesis by (auto simp: connect_to_target_def CloseSocket_def Let_def split: option.splits)
next
  case False
  then obtain ats fd where e: "ce_attempts env = Some ats" "ce_socket env = Some fd" "ce_nonblocking env" by auto
  let ?c = "\<lparr>this_peer = None, cn_count = 0, cn_lost = []\<rparr> :: 'a connection"
  have "connected_ok ctl ?c" by (simp add: connected_ok_def)
  then obtain c' where "connect_loop host os debug ctl ats ?c = Some c'" "connected_ok ctl c'" "length (cn_lost c') \<le> length ats - 1"
    using connect_loop_ok [OF assms(1), of ats ctl ?c os debug] assms(2) [OF e(1)] by auto
  then show ?thesis using e by (cases "this_peer c'") (auto simp: connect_to_target_def connected_ok_def CloseSocket_def Let_def)
qed

lemma parse_some:
  "list_all c_argument args \<Longrightarrow> list_all c_argument (opt_arguments o1) \<Longrightarrow> nul_free (fsroot o1) \<Longrightarrow>
     \<exists>r. parse_args args o1 = Some r \<and> (\<forall>o2. r = Inr o2 \<longrightarrow> list_all c_argument (opt_arguments o2) \<and> nul_free (fsroot o2))"
proof (induction args o1 rule: parse_args.induct)
  case (2 this_arg o1)
  obtain b where "rl_toggle_log_bits Posix [] (log_bits o1, opt_log o1) = Some b" using toggle_some by blast
  then show ?case using 2 by (cases b) auto
next
  case (3 this_arg next_arg as o1)
  obtain b where "rl_toggle_log_bits Posix next_arg (log_bits o1, opt_log o1) = Some b" using toggle_some by blast
  then show ?case using 3 by (cases b) (auto simp: c_argument_def)
qed simp

lemma setup_some:
  assumes "peer_hostname opts \<noteq> None" and "opt_executable opts \<noteq> None"
    and "list_all c_argument (opt_arguments opts)" and "nul_free (fsroot opts)" and "nul_free cwd"
  shows "\<exists>ctl. setup_controller p opts cwd = Some ctl \<and> ctl_data ctl \<and> ctl_result ctl = 0"
proof -
  obtain root where "root_path (fsroot opts) cwd = Some root" using root_path_eq [OF assms(4), of cwd] assms(5) by simp
  moreover obtain vin vout where "copied 260 (lit ''(virtual input)'') = Some vin" "copied 260 (lit ''(virtual output)'') = Some vout"
    using copied_some [of 260 "lit ''(virtual input)''"] copied_some [of 260 "lit ''(virtual output)''"] by auto
  moreover obtain h e where "peer_hostname opts = Some h" "opt_executable opts = Some e" using assms(1,2) by auto
  ultimately show ?thesis using assms(3) by (simp add: setup_controller_def ctl_data_def)
qed

text \<open>
  Claim C13: the controller ends cleanly, with the debug channel off. From any command line that leaves
  the debug channel off, whatever the network does while
  it connects and whatever the target, the sockets and the operating system do afterwards,
  \<^verbatim>\<open>main\<close> gets through: it is still in its loop, or it has ended. Then its exit code is 0 if no
  session came about; every socket it had is closed, and none is closed twice; and the peer of the
  session has given back its buffers. No peer is lost if the name has one address; with more, all but
  one may be. (With \<^verbatim>\<open>-log d\<close>, a write request with a bad handle ends the program in a null pointer: see
  the answers of the file server.)
\<close>
theorem main_ends:
  assumes "host_ok host" and "posix_ok os" and "list_all (\<lambda>(host, _). host_ok host) es"
    and "list_all c_argument args" and "c_argument cwd" and "opt_arguments defaults = []" and "fsroot defaults = []"
    and "\<And>opts. parse_args args defaults = Some (Inr opts) \<Longrightarrow> RL_DEBUG AND log_bits opts = 0"
    and "\<And>ats. ce_attempts env = Some ats \<Longrightarrow> list_all fresh ats"
  shows "\<exists>run. controller_main host os ctl0 args defaults cwd env es = Some run \<and>
           (case run of
              Running p \<Rightarrow> peer_ok p
            | Exited code socks p lost \<Rightarrow>
                (p = None \<longrightarrow> code = 0) \<and> (\<forall>q. p = Some q \<longrightarrow> (\<forall>a. deref (heap q) a = None) \<and> \<not> valid (inbuf q)) \<and>
                socks = [] \<and> length lost \<le> length (the (ce_attempts env)) - 1)"
proof -
  have "list_all c_argument (opt_arguments defaults)" "nul_free (fsroot defaults)" using assms(6,7) by simp_all
  then obtain r where r: "parse_args args defaults = Some r" "\<forall>o2. r = Inr o2 \<longrightarrow> list_all c_argument (opt_arguments o2) \<and> nul_free (fsroot o2)"
    using parse_some [OF assms(4)] by blast
  show ?thesis
  proof (cases "\<exists>opts. r = Inr opts \<and> peer_hostname opts \<noteq> None \<and> opt_executable opts \<noteq> None")
    case False
    then have "controller_main host os ctl0 args defaults cwd env es = Some (Exited 0 [] None [])"
      using r(1) by (cases r) (auto simp: controller_main_def)
    then show ?thesis by simp
  next
    case True
    then obtain opts ctl where o: "r = Inr opts" "peer_hostname opts \<noteq> None" "opt_executable opts \<noteq> None"
      "setup_controller ctl0 opts cwd = Some ctl" "ctl_data ctl" "ctl_result ctl = 0"
      using setup_some [of _ cwd ctl0] r(2) assms(5) by (metis c_argument_def)
    have quiet: "(RL_DEBUG AND log_bits opts \<noteq> 0) = False" using assms(8) r(1) o(1) by simp
    obtain p socks b lost where c: "connect_to_target host os False ctl env = Some (p, socks, b, lost)" "p = None \<longrightarrow> socks = []"
      "\<forall>q. p = Some q \<longrightarrow> socks = [the (ce_socket env)] \<and> peer_ok q \<and> peer.more q = peer.more ctl"
      "length lost \<le> length (the (ce_attempts env)) - 1"
      using connect_ok [OF assms(1), of env os False ctl] assms(9) by blast
    note main = controller_main_def [of host os ctl0 args defaults cwd env es]
    show ?thesis
    proof (cases p)
      case None
      then have "controller_main host os ctl0 args defaults cwd env es = Some (Exited 0 [] None lost)"
        unfolding main using r(1) o c(1,2) quiet by (auto simp: Let_def)
      then show ?thesis using c(4) by simp
    next
      case (Some q)
      then have q: "socks = [the (ce_socket env)]" "peer_ok q" "ctl_data q"
        using c(3) o(5) owner_data_more [of q] owner_data_more [of ctl] by auto
      have own: "peer_owner host (controller_callbacks host os False) owner_data" if "host_ok host" for host
        using controller_owner [OF that assms(2)] .
      obtain s p' where p': "pump_peer_state_machine (\<lambda>host. controller_callbacks host os False) q True 0 es = Some (s, p')" "peer_ok p'"
        using pump_ok [where cb = "\<lambda>host. controller_callbacks host os False" and U = owner_data and p = q and es = es
            and first = True and status = 0, OF own] q(2,3) assms(3) unfolding owner_data_more by blast
      obtain gone where g: "peer_destroy p' = Some gone" "\<forall>a. deref (heap gone) a = None" "\<not> valid (inbuf gone)"
        using destroy_frees [of p'] p'(2) by (auto simp: peer_ok_def)
      have "controller_main host os ctl0 args defaults cwd env es =
          Some (case s of None \<Rightarrow> Running p' | Some _ \<Rightarrow> Exited (ctl_result p') [] (Some gone) lost)"
        unfolding main using r(1) o(1-4) c(1) Some p'(1) g(1) q(1) quiet peer_destroy_closes [OF g(1)]
        by (auto simp: Let_def CloseSocket_def split: option.split)
      then show ?thesis using p'(2) g(2,3) c(4) by (cases s) auto
    qed
  qed
qed

definition example_env :: connect_env where
  "example_env =
     \<lparr>ce_attempts = Some [\<lparr>at_outcome = Connect_waits True True, at_address = (1, 7001), at_alloc = True, at_zeroed = example_peer\<rparr>],
      ce_socket = Some 5, ce_nonblocking = True\<rparr>"

theorem main_ends_witness:
  "\<exists>run. controller_main example_host example_os example_controller [lit ''amiga'', lit ''run''] initial_options (lit ''/tmp'')
     example_env [(example_host, Select_error)] = Some run \<and>
     (case run of Running p \<Rightarrow> peer_ok p | Exited code socks p lost \<Rightarrow> lost = [] \<and> socks = [])"
proof -
  have a: "list_all c_argument [lit ''amiga'', lit ''run'']" "c_argument (lit ''/tmp'')" by (simp_all add: c_argument_def)
  have e: "list_all fresh ats" if "ce_attempts example_env = Some ats" for ats
    using that example_peer_ok(1) by (auto simp: example_env_def fresh_def)
  have d: "RL_DEBUG AND log_bits opts = 0" if "parse_args [lit ''amiga'', lit ''run''] initial_options = Some (Inr opts)" for opts
    using that by (auto simp: initial_options_def RL_DEBUG_def)
  have s: "length (the (ce_attempts example_env)) = 1" by (simp add: example_env_def)
  obtain run where "controller_main example_host example_os example_controller [lit ''amiga'', lit ''run''] initial_options (lit ''/tmp'')
      example_env [(example_host, Select_error)] = Some run"
    "case run of Running p \<Rightarrow> peer_ok p
     | Exited code socks p lost \<Rightarrow>
         (p = None \<longrightarrow> code = 0) \<and> (\<forall>q. p = Some q \<longrightarrow> (\<forall>a. deref (heap q) a = None) \<and> \<not> valid (inbuf q)) \<and>
         socks = [] \<and> length lost \<le> length (the (ce_attempts example_env)) - 1"
    using main_ends [where es = "[(example_host, Select_error)]" and defaults = initial_options and env = example_env
        and ?ctl0.0 = example_controller, OF example_host_ok example_os_ok _ a _ _ d e]
      example_host_ok by (auto simp: initial_options_def)
  then show ?thesis unfolding s by (cases run) auto
qed

end
