(* ===== verification/Rl_Startup.thy ===== *)
theory Rl_Startup
  imports Rl_Target Rl_Connect
begin

unbundle bit_operations_syntax

text \<open>
  The target as a program (\<^verbatim>\<open>src/src/target.c\<close>: \<^verbatim>\<open>common_main\<close> and the two versions of \<^verbatim>\<open>main\<close>), with the
  start-up of the socket library (\<^verbatim>\<open>src/src/socket_includes.c\<close>) and of the memory pool
  (\<^verbatim>\<open>src/src/util.c\<close>). What the operating system does is the record \<open>start_env\<close>.

  The resources that the program holds are listed in its state. Releasing one that is not held,
  and a call through a library that is not open, is undefined and gives \<open>None\<close>.
\<close>

section \<open>Resources\<close>

datatype resource = Wb_startup | Dos_library | Read_args | Socket_library | Memory_pool | Process_port | Listener int

text \<open>
  \<open>su_cli\<close>: started from a command line; \<open>su_args\<close>: what \<^verbatim>\<open>ReadArgs\<close> parsed for ADDRESS, PORT and LOG;
  the flags say whether the respective call succeeds.
\<close>

record start_env =
  su_cli :: bool
  su_dos :: bool
  su_args :: "(cstring option \<times> int option \<times> cstring option) option"
  su_socket_library :: bool
  su_pool :: bool
  su_port :: bool
  su_listener :: "int option"
  su_reuse :: bool
  su_bind :: bool
  su_listen :: bool

record program =
  held :: "resource list"
  bound :: "(cstring \<times> rl_uint16) option"
  rl_log_bits :: rl_uint32
  prog_log :: log_state
  server :: target

definition acquire :: "resource \<Rightarrow> program \<Rightarrow> program" where
  "acquire r p = p\<lparr>held := r # held p\<rparr>"

definition release :: "resource \<Rightarrow> program \<Rightarrow> program option" where
  "release r p = (if r \<in> set (held p) then Some (p\<lparr>held := remove1 r (held p)\<rparr>) else None)"

text \<open>\<^verbatim>\<open>if (x) release x\<close>, for the pointers that are \<^verbatim>\<open>NULL\<close> until the resource is there.\<close>

definition release_if_held :: "resource \<Rightarrow> program \<Rightarrow> program option" where
  "release_if_held r p = (if r \<in> set (held p) then release r p else Some p)"

section \<open>Sockets and memory\<close>

definition rl_init_socket :: "platform \<Rightarrow> start_env \<Rightarrow> program \<Rightarrow> int \<times> program" where
  "rl_init_socket plat env p =
     (case plat of
        Posix \<Rightarrow> (0, p)
      | Amiga \<Rightarrow> if su_socket_library env then (0, acquire Socket_library p) else (1, p))"

definition rl_fini_socket :: "platform \<Rightarrow> program \<Rightarrow> program option" where
  "rl_fini_socket plat p = (case plat of Posix \<Rightarrow> Some p | Amiga \<Rightarrow> release_if_held Socket_library p)"

definition rl_init_alloc :: "platform \<Rightarrow> start_env \<Rightarrow> program \<Rightarrow> int \<times> program" where
  "rl_init_alloc plat env p =
     (case plat of
        Posix \<Rightarrow> (0, p)
      | Amiga \<Rightarrow> if su_pool env then (0, acquire Memory_pool p) else (1, p))"

definition rl_fini_alloc :: "platform \<Rightarrow> program \<Rightarrow> program option" where
  "rl_fini_alloc plat p = (case plat of Posix \<Rightarrow> Some p | Amiga \<Rightarrow> release_if_held Memory_pool p)"

section \<open>The listening socket\<close>

text \<open>The flag: whether the program has come to its end.\<close>

definition common_main ::
  "platform \<Rightarrow> start_env \<Rightarrow> (host \<times> serve_event) list \<Rightarrow> cstring \<Rightarrow> int \<Rightarrow> program \<Rightarrow> (bool \<times> program) option" where
  "common_main plat env es bind_address bind_port p =
     (if plat = Amiga \<and> Socket_library \<notin> set (held p) then None
      else
        (case su_listener env of
           None \<Rightarrow> Some (True, p)
         | Some fd \<Rightarrow>
             let p = acquire (Listener fd) p
             in if \<not> su_reuse env \<or> \<not> su_bind env then map_option (Pair True) (release (Listener fd) p)
                else
                  let p = p\<lparr>bound := Some (bind_address, of_int bind_port)\<rparr>
                  in if \<not> su_listen env then map_option (Pair True) (release (Listener fd) p)
                     else do {
                       (ended, t) \<leftarrow> serve es (server p);
                       let p = p\<lparr>server := t\<rparr>;
                       if ended then map_option (Pair True) (release (Listener fd) p) else Some (False, p)
                     }))"

section \<open>The programs\<close>

definition posix_main :: "start_env \<Rightarrow> (host \<times> serve_event) list \<Rightarrow> program \<Rightarrow> (bool \<times> program) option" where
  "posix_main env es p =
     (let p = p\<lparr>rl_log_bits := RL_ALL_LOG_BITS\<rparr>;
          (rc, p) = rl_init_socket Posix env p
      in if rc \<noteq> 0 then Some (True, p)
         else
           let (rc, p) = rl_init_alloc Posix env p
           in if rc \<noteq> 0 then map_option (Pair True) (rl_fini_socket Posix p)
              else do {
                (ended, p) \<leftarrow> common_main Posix env es (lit ''0.0.0.0'') 7001 p;
                if \<not> ended then Some (False, p)
                else do {
                  p \<leftarrow> rl_fini_alloc Posix p;
                  p \<leftarrow> rl_fini_socket Posix p;
                  Some (True, p)
                }
              })"

text \<open>The two labels at the end of the version for the Amiga.\<close>

definition main_panic :: "program \<Rightarrow> program option" where
  "main_panic p = do {
     p \<leftarrow> release_if_held Dos_library p;
     release_if_held Wb_startup p
   }"

definition main_cleanup :: "program \<Rightarrow> program option" where
  "main_cleanup p = do {
     p \<leftarrow> release_if_held Process_port p;
     p \<leftarrow> rl_fini_alloc Amiga p;
     p \<leftarrow> rl_fini_socket Amiga p;
     main_panic p
   }"

text \<open>The arguments of the command line: where to listen, and the log channels.\<close>

definition read_args ::
  "cstring option \<times> int option \<times> cstring option \<Rightarrow> program \<Rightarrow> (cstring \<times> int \<times> program) option" where
  "read_args args p =
     (case args of
        (address, port, log) \<Rightarrow> do {
          bind_address \<leftarrow> (case address of None \<Rightarrow> Some (lit ''0.0.0.0'') | Some a \<Rightarrow> formatted Amiga 64 (lit ''%s'') [AStr a]);
          (bits, out) \<leftarrow> (case log of
             None \<Rightarrow> Some (rl_log_bits p, prog_log p)
           | Some l \<Rightarrow> rl_toggle_log_bits Amiga l (rl_log_bits p, prog_log p));
          Some (bind_address, (case port of None \<Rightarrow> 7001 | Some n \<Rightarrow> n), p\<lparr>rl_log_bits := bits, prog_log := out\<rparr>)
        })"

definition amiga_main :: "start_env \<Rightarrow> (host \<times> serve_event) list \<Rightarrow> program \<Rightarrow> (bool \<times> program) option" where
  "amiga_main env es p =
     (let p = (if \<not> su_cli env then acquire Wb_startup p else p)
      in if \<not> su_dos env then map_option (Pair True) (main_cleanup p)
         else
           let p = acquire Dos_library p
           in if su_cli env \<and> su_args env = None then map_option (Pair True) (main_panic p)
              else do {
                (bind_address, bind_port, p) \<leftarrow>
                  (if su_cli env
                   then do {
                     (a, n, p) \<leftarrow> read_args (the (su_args env)) (acquire Read_args p);
                     p \<leftarrow> release Read_args p;
                     Some (a, n, p)
                   }
                   else Some (lit ''0.0.0.0'', 7001, p));
                let p = snd (rl_init_socket Amiga env p);
                let p = snd (rl_init_alloc Amiga env p);
                if \<not> su_port env then map_option (Pair True) (main_cleanup p)
                else do {
                  (ended, p) \<leftarrow> common_main Amiga env es bind_address bind_port (acquire Process_port p);
                  if \<not> ended then Some (False, p) else map_option (Pair True) (main_cleanup p)
                }
              })"

section \<open>Correctness\<close>

text \<open>Rounds in which a connection is accepted only when there is none.\<close>

fun single_run :: "(host \<times> serve_event) list \<Rightarrow> target \<Rightarrow> bool" where
  "single_run [] t \<longleftrightarrow> True"
| "single_run ((host, ev) # es) t \<longleftrightarrow>
     host_ok host \<and> host_platform host = Posix \<and> single_event t ev \<and>
     (case serve_round host ev t of Some (True, t') \<Rightarrow> single_run es t' | _ \<Rightarrow> True)"

lemma serve_single_run:
  "single_ok t \<Longrightarrow> single_run es t \<Longrightarrow>
     \<exists>ended t'. serve es t = Some (ended, t') \<and> (ended \<longrightarrow> nodes t' = Map.empty) \<and> list_all no_buffers (destroyed t')"
proof (induction es t rule: single_run.induct)
  case (1 t)
  then show ?case by (intro exI [of _ False]) (simp add: single_ok_def)
next
  case (2 host ev es t)
  have p: "posix_target host" "single_event t ev" using "2.prems"(2) by (simp_all add: posix_target_def)
  obtain go t1 where t1: "serve_round host ev t = Some (go, t1)" "single_ok t1"
    using posix_target.round_single [OF p(1) "2.prems"(1) p(2)] by blast
  show ?case
  proof (cases go)
    case True
    then show ?thesis using "2.IH" t1 "2.prems"(2) by simp
  next
    case False
    then have "serve ((host, ev) # es) t = serve [(host, ev)] t" using t1(1) by simp
    then show ?thesis using posix_target.serve_single [OF p(1) "2.prems"(1) p(2)] by auto
  qed
qed

lemmas resource_simps = acquire_def release_def release_if_held_def rl_init_socket_def rl_fini_socket_def rl_init_alloc_def
  rl_fini_alloc_def main_cleanup_def main_panic_def Let_def

lemma common_main_returns:
  assumes "plat = Amiga \<longrightarrow> Socket_library \<in> set (held p)" and "serve es (server p) = Some (ended, t)"
    and "\<And>fd. Listener fd \<notin> set (held p)"
  shows "\<exists>b q. common_main plat env es a n p = Some (b, q) \<and> (b \<longrightarrow> held q = held p) \<and> (\<not> b \<longrightarrow> \<not> ended \<and> server q = t) \<and>
           (server q = server p \<and> b \<or> server q = t \<and> (b \<longrightarrow> ended))"
  using assms by (cases "su_listener env") (auto simp: common_main_def resource_simps)

lemma read_args_some: "\<exists>a n q. read_args args p = Some (a, n, q) \<and> held q = held p \<and> server q = server p"
proof -
  obtain address port log where args: "args = (address, port, log)" by (cases args)
  have "\<exists>a. formatted Amiga 64 (lit ''%s'') [AStr s] = Some a" for s
  proof -
    have "\<exists>out. format_text Amiga ([] :: cstring) [] = Some out" using format_text_literal [of "[]" Amiga "[]"] by simp
    from format_s_some [OF this, of "[]" s] formatted_eq [of 64 Amiga] show ?thesis by force
  qed
  then obtain ba where a: "(case address of None \<Rightarrow> Some (lit ''0.0.0.0'') | Some a \<Rightarrow> formatted Amiga 64 (lit ''%s'') [AStr a]) = Some ba"
    by (cases address) auto
  obtain b where b: "(case log of None \<Rightarrow> Some (rl_log_bits p, prog_log p)
      | Some l \<Rightarrow> rl_toggle_log_bits Amiga l (rl_log_bits p, prog_log p)) = Some b"
    using toggle_some [of Amiga "the log" "(rl_log_bits p, prog_log p)"] by (cases log) auto
  show ?thesis using a b by (cases b) (simp add: read_args_def args)
qed

text \<open>The clean-up releases what is there, each resource once.\<close>

lemma release_if_held_eq: "release_if_held r p = Some (p\<lparr>held := remove1 r (held p)\<rparr>)"
  by (simp add: release_if_held_def release_def remove1_idem)

lemma cleanup_releases:
  assumes "distinct (held p)" and "set (held p) \<subseteq> {Wb_startup, Dos_library, Socket_library, Memory_pool, Process_port}"
  shows "\<exists>q. main_cleanup p = Some q \<and> held q = []"
proof -
  let ?xs = "remove1 Wb_startup (remove1 Dos_library (remove1 Socket_library (remove1 Memory_pool (remove1 Process_port (held p)))))"
  have "set ?xs = {}" using assms by (auto simp: set_remove1_eq)
  then have "?xs = []" by (simp only: set_empty)
  then show ?thesis
    by (simp add: main_cleanup_def main_panic_def rl_fini_alloc_def rl_fini_socket_def release_if_held_eq)
qed

text \<open>The way through \<^verbatim>\<open>main\<close> on the Amiga that comes to \<^verbatim>\<open>common_main\<close>.\<close>

definition amiga_serves :: "start_env \<Rightarrow> bool" where
  "amiga_serves env \<longleftrightarrow> su_dos env \<and> (su_cli env \<longrightarrow> su_args env \<noteq> None) \<and> su_port env"

lemma amiga_main_releases:
  assumes "held p = []" and "serve es (server p) = Some (r, t)"
  shows "if amiga_serves env \<and> \<not> su_socket_library env then amiga_main env es p = None
         else \<exists>ended q. amiga_main env es p = Some (ended, q) \<and> (ended \<longrightarrow> held q = []) \<and> (\<not> ended \<longrightarrow> \<not> r \<and> server q = t)"
proof -
  let ?p1 = "if \<not> su_cli env then acquire Wb_startup p else p"
  let ?p2 = "acquire Dos_library ?p1"
  let ?start = "if su_cli env
                then do { (a, n, p) \<leftarrow> read_args (the (su_args env)) (acquire Read_args ?p2); p \<leftarrow> release Read_args p; Some (a, n, p) }
                else Some (lit ''0.0.0.0'', 7001, ?p2)"
  have h: "held ?p1 = (if su_cli env then [] else [Wb_startup])" "held ?p2 = Dos_library # held ?p1" "server ?p2 = server p"
    using assms(1) by (simp_all add: acquire_def)
  obtain a n p3 where p3: "?start = Some (a, n, p3)" "held p3 = held ?p2" "server p3 = server p"
    using read_args_some [of "the (su_args env)" "acquire Read_args ?p2"] h(3)
    by (cases "su_cli env") (auto simp: release_def acquire_def)
  define p4 where "p4 = snd (rl_init_alloc Amiga env (snd (rl_init_socket Amiga env p3)))"
  have h4: "held p4 = (if su_pool env then [Memory_pool] else []) @ (if su_socket_library env then [Socket_library] else []) @ held ?p2"
    "server p4 = server p"
    using p3 by (simp_all add: p4_def rl_init_alloc_def rl_init_socket_def acquire_def)
  let ?p5 = "acquire Process_port p4"
  have h5: "held ?p5 = Process_port # held p4" "server ?p5 = server p" "Socket_library \<in> set (held ?p5) \<longleftrightarrow> su_socket_library env"
    "Listener fd \<notin> set (held ?p5)" for fd
    using h h4 by (simp_all add: acquire_def)
  have c: "\<exists>c. main_cleanup x = Some c \<and> held c = []" if "held x = held ?p1 \<or> held x = held p4 \<or> held x = Process_port # held p4" for x
    using that h h4 by (intro cleanup_releases) (auto split: if_splits)
  have pan: "\<exists>c. main_panic ?p2 = Some c \<and> held c = []" using h by (auto simp: main_panic_def release_if_held_eq)
  obtain c1 c2 c4 where e: "main_cleanup ?p1 = Some c1" "main_panic ?p2 = Some c2" "main_cleanup p4 = Some c4"
    and f: "held c1 = []" "held c2 = []" "held c4 = []"
    using c [of ?p1] c [of p4] pan by metis
  have main: "amiga_main env es p =
      (if \<not> su_dos env then Some (True, c1) else if su_cli env \<and> su_args env = None then Some (True, c2)
       else if \<not> su_port env then Some (True, c4)
       else do { (ended, p) \<leftarrow> common_main Amiga env es a n ?p5; if \<not> ended then Some (False, p) else map_option (Pair True) (main_cleanup p) })"
    unfolding amiga_main_def Let_def p3(1) using e by (cases "su_cli env") (simp_all add: p4_def [symmetric])
  show ?thesis
  proof (cases "su_socket_library env")
    case False
    then have "common_main Amiga env es a n ?p5 = None" using h5(3) by (simp add: common_main_def)
    then show ?thesis using main f False by (auto simp: amiga_serves_def)
  next
    case True
    obtain b q where q: "common_main Amiga env es a n ?p5 = Some (b, q)" "b \<longrightarrow> held q = Process_port # held p4"
      "\<not> b \<longrightarrow> \<not> r \<and> server q = t"
      using common_main_returns [OF _ _ h5(4), of Amiga es r t env a n] h5(1-3) assms(2) True by metis
    obtain c5 where "b \<longrightarrow> main_cleanup q = Some c5 \<and> held c5 = []" using c [of q] q(2) by metis
    then show ?thesis using main f q(1,3) True by (cases b) auto
  qed
qed

text \<open>
  Claim C14: how the target ends. Started with nothing held: on POSIX, with one connection
  at a time (\<open>single_run\<close>), \<^verbatim>\<open>main\<close> gets through whatever fails and whatever arrives; when it ends
  everything it acquired is released, every peer is gone, and none of them holds a buffer. On the Amiga, if the
  socket library does not open and nothing else fails, \<^verbatim>\<open>main\<close> goes on and calls the library through a null
  pointer; otherwise, whenever the loop over the connections returns, \<^verbatim>\<open>main\<close> gets through, and when it ends
  the socket library, the listening socket, the process port, the memory pool, the arguments, the DOS
  library and the start-up message are each released exactly once if they were acquired. The memory of file
  systems and the sockets of connections are not among these resources.
\<close>
theorem target_main_ends:
  assumes "held p = []" and "nodes (server p) = Map.empty" and "peers (server p) = 0" and "destroyed (server p) = []"
  shows "(single_run es (server p) \<longrightarrow>
           (\<exists>ended q. posix_main env es p = Some (ended, q) \<and>
              (ended \<longrightarrow> held q = [] \<and> nodes (server q) = Map.empty \<and>
                 (\<forall>c\<in>set (destroyed (server q)). \<forall>a. deref (heap c) a = None)))) \<and>
         (serve es (server p) = Some (r, t) \<longrightarrow>
           (if amiga_serves env \<and> \<not> su_socket_library env then amiga_main env es p = None
            else \<exists>ended q. amiga_main env es p = Some (ended, q) \<and> (ended \<longrightarrow> held q = []) \<and> (\<not> ended \<longrightarrow> \<not> r \<and> server q = t)))"
proof (intro conjI impI)
  assume run: "single_run es (server p)"
  let ?p = "p\<lparr>rl_log_bits := RL_ALL_LOG_BITS\<rparr>"
  have "single_ok (server p)" using assms(2-4) by (simp add: single_ok_def)
  then obtain ended t where t: "serve es (server p) = Some (ended, t)" "ended \<longrightarrow> nodes t = Map.empty" "list_all no_buffers (destroyed t)"
    using serve_single_run [OF _ run] by blast
  obtain b q where q: "common_main Posix env es (lit ''0.0.0.0'') 7001 ?p = Some (b, q)" "b \<longrightarrow> held q = held ?p"
    "server q = server p \<and> b \<or> server q = t \<and> (b \<longrightarrow> ended)"
    using common_main_returns [of Posix ?p es ended t env "lit ''0.0.0.0''" 7001] t(1) assms(1) by auto
  then have "posix_main env es p = Some (b, q)" by (simp add: posix_main_def resource_simps)
  then show "\<exists>ended q. posix_main env es p = Some (ended, q) \<and>
      (ended \<longrightarrow> held q = [] \<and> nodes (server q) = Map.empty \<and> (\<forall>c\<in>set (destroyed (server q)). \<forall>a. deref (heap c) a = None))"
    using q t assms(1,2,4) by (auto simp: no_buffers_def list_all_iff)
next
  assume "serve es (server p) = Some (r, t)"
  then show "if amiga_serves env \<and> \<not> su_socket_library env then amiga_main env es p = None
      else \<exists>ended q. amiga_main env es p = Some (ended, q) \<and> (ended \<longrightarrow> held q = []) \<and> (\<not> ended \<longrightarrow> \<not> r \<and> server q = t)"
    by (rule amiga_main_releases [OF assms(1)])
qed

definition example_start :: start_env where
  "example_start =
     \<lparr>su_cli = True, su_dos = True, su_args = Some (None, Some 7002, None), su_socket_library = True, su_pool = True, su_port = True,
      su_listener = Some 4, su_reuse = True, su_bind = True, su_listen = True\<rparr>"

definition example_program :: program where
  "example_program =
     \<lparr>held = [], bound = None, rl_log_bits = RL_CONSOLE, prog_log = \<lparr>log_buffer = (\<lambda>_. 0), log_cursor = 0, log_out = []\<rparr>, server = empty_target\<rparr>"

theorem target_main_ends_witness:
  "(\<exists>ended q. posix_main example_start [(example_host, quiet_event)] example_program = Some (ended, q) \<and> (ended \<longrightarrow> held q = [])) \<and>
   (\<exists>ended q. amiga_main example_start [(example_host, quiet_event)] example_program = Some (ended, q) \<and> ended \<and> held q = [])"
proof -
  have e: "single_event empty_target quiet_event" by (simp add: single_event_def quiet_event_def)
  have s: "serve [(example_host, quiet_event)] empty_target = Some (True, empty_target)"
    by (simp add: serve_round_def add_peers_to_fd_set_def peer_chain.simps empty_target_def quiet_event_def serve_signals_def
        wait_def example_target.posix Let_def)
  have "single_run [(example_host, quiet_event)] (server example_program)"
    using e example_target.host example_target.posix by (simp add: example_program_def split: option.split bool.split)
  then show ?thesis
    using target_main_ends [of example_program "[(example_host, quiet_event)]" example_start True empty_target] s
    by (simp add: amiga_serves_def) (auto simp: example_program_def example_start_def empty_target_def)
qed

end
