(* ===== verification/Rl_Runtime.thy ===== *)
theory Rl_Runtime
  imports Rl_Startup
begin

unbundle bit_operations_syntax

text \<open>
  The thin layer over the system: the allocation routines of \<^verbatim>\<open>src/src/util.c\<close> and the mode of a
  socket (\<^verbatim>\<open>src/src/socket_includes.c\<close>). The calls of the system below them are arguments.
\<close>

section \<open>Allocation\<close>

text \<open>
  \<open>get_block\<close> is \<^verbatim>\<open>malloc\<close> or \<^verbatim>\<open>AllocPooled\<close>, with the address 0 when there is no memory; \<open>put_block\<close> is \<^verbatim>\<open>free\<close>, and
  \<open>put_pooled\<close> is \<^verbatim>\<open>FreePooled\<close>, which has to be told the size.
\<close>

record 'w allocator =
  get_block :: "nat \<Rightarrow> 'w \<Rightarrow> nat \<times> 'w"
  put_block :: "nat \<Rightarrow> 'w \<Rightarrow> 'w"
  put_pooled :: "nat \<Rightarrow> nat \<Rightarrow> 'w \<Rightarrow> 'w"

definition calloc :: "'w allocator \<Rightarrow> nat \<Rightarrow> nat \<Rightarrow> 'w \<times> mem \<Rightarrow> nat \<times> 'w \<times> mem" where
  "calloc al n sz s =
     (let (p, w) = get_block al (n * sz) (fst s)
      in (p, w, if p = 0 then snd s else mwrite (snd s) p (replicate (n * sz) 0)))"

definition rl_alloc_sized :: "'w allocator \<Rightarrow> nat \<Rightarrow> 'w \<times> mem \<Rightarrow> nat \<times> 'w \<times> mem" where
  "rl_alloc_sized al sz s = (let (p, w) = get_block al sz (fst s) in (p, w, snd s))"

definition alloc_sized_and_clear :: "platform \<Rightarrow> 'w allocator \<Rightarrow> nat \<Rightarrow> 'w \<times> mem \<Rightarrow> nat \<times> 'w \<times> mem" where
  "alloc_sized_and_clear plat al sz s =
     (case plat of
        Amiga \<Rightarrow>
          let (memory, w) = get_block al sz (fst s);
              m = (if memory \<noteq> 0 then rl_memset (snd s) memory 0 sz else snd s)
          in (memory, w, m)
      | Posix \<Rightarrow> calloc al sz 1 s)"

definition rl_free_sized :: "platform \<Rightarrow> 'w allocator \<Rightarrow> nat \<Rightarrow> nat \<Rightarrow> 'w \<Rightarrow> 'w" where
  "rl_free_sized plat al ptr sz w = (case plat of Amiga \<Rightarrow> put_pooled al ptr sz w | Posix \<Rightarrow> put_block al ptr w)"

text \<open>
  Both builds hand out the same cleared block: all its bytes are 0 and nothing else has changed;
  without memory nothing has.
\<close>

lemma alloc_sized_and_clear_same: "alloc_sized_and_clear Amiga al sz s = alloc_sized_and_clear Posix al sz s"
  by (simp add: alloc_sized_and_clear_def calloc_def rl_memset_eq Let_def split: prod.split)

lemma alloc_sized_and_clear_zero:
  assumes "alloc_sized_and_clear plat al sz (w, m) = (p, w', m')"
  shows "(p, w') = get_block al sz w" "p = 0 \<Longrightarrow> m' = m" "p \<noteq> 0 \<Longrightarrow> mread m' p sz = replicate sz 0"
    "i < p \<or> p + sz \<le> i \<Longrightarrow> m' i = m i"
proof -
  have e: "calloc al sz 1 (w, m) = (p, w', m')"
    using assms by (cases plat) (simp_all add: alloc_sized_and_clear_def [of Posix] alloc_sized_and_clear_same)
  then have g: "get_block al sz w = (p, w')" and m': "m' = (if p = 0 then m else mwrite m p (replicate sz 0))"
    by (auto simp: calloc_def Let_def split: prod.splits)
  show "(p, w') = get_block al sz w" using g by simp
  show "p = 0 \<Longrightarrow> m' = m" using m' by simp
  show "p \<noteq> 0 \<Longrightarrow> mread m' p sz = replicate sz 0" using m' mread_mwrite_same [of m p "replicate sz 0"] by simp
  show "i < p \<or> p + sz \<le> i \<Longrightarrow> m' i = m i" using m' by (auto intro: mwrite_outside)
qed

section \<open>Blocking sockets\<close>

text \<open>
  \<open>set_fionbio\<close> is \<^verbatim>\<open>IoctlSocket\<close> (on Windows \<^verbatim>\<open>ioctlsocket\<close>) with \<^verbatim>\<open>FIONBIO\<close>; \<open>fcntl2\<close> is \<^verbatim>\<open>fcntl\<close> called with a
  descriptor and a command and nothing else. The two numbers are those of the system's headers.
\<close>

record 'w sock_os =
  set_fionbio :: "int \<Rightarrow> rl_uint32 \<Rightarrow> 'w \<Rightarrow> rl_uint32 \<times> 'w"
  fcntl2 :: "int \<Rightarrow> rl_uint32 \<Rightarrow> 'w \<Rightarrow> rl_uint32 \<times> 'w"
  F_GETFL :: rl_uint32
  O_NONBLOCK :: rl_uint32

definition rl_configure_socket_blocking :: "platform \<Rightarrow> 'w sock_os \<Rightarrow> int \<Rightarrow> bool \<Rightarrow> 'w \<Rightarrow> rl_uint32 \<times> 'w" where
  "rl_configure_socket_blocking plat os s should_block w =
     (case plat of
        Amiga \<Rightarrow> set_fionbio os s (if should_block then 0 else 1) w
      | Posix \<Rightarrow>
          let (flags, w) = fcntl2 os s (F_GETFL os) w
          in if should_block then fcntl2 os s (flags AND NOT (O_NONBLOCK os)) w
             else fcntl2 os s (flags OR O_NONBLOCK os) w)"

text \<open>
  On the Amiga and on Windows the socket gets the mode asked for. On POSIX the new flags are passed as the
  command: as long as a call without an argument sets no flags, the mode of the socket never changes.
\<close>

lemma configure_socket_blocking:
  assumes "\<And>s v w. nonblocking (snd (set_fionbio os s v w)) s = (v \<noteq> 0)" and "\<And>s c w. nonblocking (snd (fcntl2 os s c w)) s = nonblocking w s"
  shows "nonblocking (snd (rl_configure_socket_blocking Amiga os s should_block w)) s = (\<not> should_block)"
    and "nonblocking (snd (rl_configure_socket_blocking Posix os s should_block w)) s = nonblocking w s"
proof -
  show "nonblocking (snd (rl_configure_socket_blocking Amiga os s should_block w)) s = (\<not> should_block)"
    using assms(1) by (simp add: rl_configure_socket_blocking_def)
  obtain flags w' where f: "fcntl2 os s (F_GETFL os) w = (flags, w')" by (cases "fcntl2 os s (F_GETFL os) w")
  then have "nonblocking w' s = nonblocking w s" using assms(2) [of s "F_GETFL os" w] by simp
  then show "nonblocking (snd (rl_configure_socket_blocking Posix os s should_block w)) s = nonblocking w s"
    using assms(2) f by (simp add: rl_configure_socket_blocking_def)
qed

end
