(* ===== verification/Spec2Isabelle.thy ===== *)
theory Spec2Isabelle
  imports Rl_Table Rl_Describe Rl_Runtime
begin

text \<open>
  A verification development for rlaunch, the remote command launcher.

  \<^bold>\<open>The program.\<close> A target (\<^verbatim>\<open>src/src/target.c\<close>) runs on an Amiga and listens on a port. A
  controller (\<^verbatim>\<open>src/src/controller.c\<close>) connects to it, asks it to start a program and serves its
  own file tree (\<^verbatim>\<open>src/src/file_server.c\<close>). For every connection the target mounts a file system
  (\<^verbatim>\<open>src/src/amigafs.c\<close>): the packets that the operating system sends to it become requests to the
  controller, and the answers become replies. Both ends share the peer (\<^verbatim>\<open>src/src/peer.c\<close>), a state
  machine over a transport (\<^verbatim>\<open>src/src/transport.c\<close>), messages that a generator derives from a
  description (\<^verbatim>\<open>src/src/mkmsg.py\<close>, \<^verbatim>\<open>rlnet.msg\<close>) over field codecs (\<^verbatim>\<open>src/src/protocol.c\<close>,
  \<^verbatim>\<open>protocol.h\<close>), and a replacement of the C library (\<^verbatim>\<open>src/src/util.c\<close>).

  \<^bold>\<open>The model.\<close> One theory per component, in the order of the calls; definitions carry the names
  of the code.

  \<^item> \<open>Rl_Prelude\<close>: the machine types of \<^verbatim>\<open>util.h\<close>, a flat byte memory, C strings, and the
    collections of simplification rules the other theories share.
  \<^item> \<open>Rl_Memory\<close>: memory and string routines and the string builder of \<^verbatim>\<open>util.c\<close>, cell by cell.
    Loops that only end at a terminator are partial functions.
  \<^item> \<open>Rl_Format\<close>: the format engine and the log of \<^verbatim>\<open>util.c\<close>. The locale \<open>format_writer\<close> is the
    interface between the engine and what stores its output; it is interpreted on the writer
    that cuts at the end of a buffer, on the log and on the reference that collects the text.
  \<^item> \<open>Rl_Protocol\<close>: field codecs for both byte orders; the locale \<open>wire_field\<close> is their round-trip
    contract, interpreted on strings and arrays.
  \<^item> \<open>Rl_Messages\<close>: the generator on the description, and the codec it emits.
  \<^item> \<open>Rl_Transport\<close>: input buffer, linked output queue and buffer pool over a heap in which a
    read or write of an unallocated cell and a double free give \<open>None\<close>; sockets and the
    allocator are lists of outcomes, so every theorem holds for whatever they do. \<open>framing\<close> and
    \<open>transport_sink\<close> are the contracts with the callbacks, \<open>deframe\<close> the reference for cutting a
    byte stream into messages.
  \<^item> \<open>Rl_Peer\<close>: states, actions, the table of handlers and the life of a peer. The locale
    \<open>peer_owner\<close> is the contract between a peer and the callbacks of its owner.
  \<^item> \<open>Rl_File_Server\<close>, \<open>Rl_Controller\<close>: request handlers over an abstract operating system, the
    callbacks, the select loop, the command line. \<open>handler_contract\<close> is shared by the handlers;
    \<open>serving_host\<close> makes the controller an owner of its peer.
  \<^item> \<open>Rl_Amigafs\<close>: the file system, every packet handler and completion, over stores keyed by
    address (locks, handles, packets, the memory of the programs).
  \<^item> \<open>Rl_Packets\<close>: what becomes of a packet; the step relation \<open>fs_step\<close> interleaves packets,
    answers, programs and the peer.
  \<^item> \<open>Rl_Streams\<close>: whole reads and writes and the position of a handle; the locale \<open>file_source\<close>
    is what a reader relies on, interpreted on what the file server reads.
  \<^item> \<open>Rl_Target\<close>: the list of peers as a linked list in memory, accepting, the update loop, the
    launcher process; \<open>posix_target\<close> makes the target an owner of its peers, and \<open>target_step\<close>
    is the relation between its rounds.
  \<^item> \<open>Rl_Session\<close>: both ends together, with every message decoded from the bytes that were sent: a
    read from the packet on the Amiga to the file of the controller and back, and a launch from
    the handshake to the result of the program. \<open>Rl_Open\<close> adds opening a file over the connection,
    with every outcome, and opening followed by reading.
  \<^item> \<open>Rl_File_Server_Win\<close>, \<open>Rl_Service\<close>: the Windows branches of the file server, proved in the
    same contract \<open>handler_contract\<close>; the locale \<open>file_service\<close> is what both systems have in
    common over sequences of requests, interpreted on both; \<open>handle_property\<close> is what a property of the
    table needs to be kept by the handlers that neither open nor close.
  \<^item> \<open>Rl_Table\<close>: the file server as an abstract service, a map from numbers to open nodes with the
    step relation \<open>table_step\<close>, and the refinement of it by the handlers on POSIX.
  \<^item> \<open>Rl_Describe\<close>: the describers and names that the generator emits, the names of states, actions
    and handles, the line for an action of a peer and the list of pending operations in the log.
  \<^item> \<open>Rl_Connect\<close>, \<open>Rl_Startup\<close>: the connection of the controller and its \<^verbatim>\<open>main\<close>; the listening
    socket of the target, its \<^verbatim>\<open>main\<close> on POSIX and on the Amiga, the start of the socket library
    (\<^verbatim>\<open>socket_includes.c\<close>) and of the memory pool. What the network calls return are arguments.
  \<^item> \<open>Rl_Runtime\<close>: the allocation routines of \<^verbatim>\<open>util.c\<close> and the mode of a socket, over the calls of the
    system.

  \<^bold>\<open>What is shown.\<close> Messages survive the wire for all sizes and cuts (below). Peers and transports
  touch no memory that is not allocated and free what they allocated, whatever arrives; so do controller
  sessions with the debug channel off. States move forward only. A file request that can be answered gets
  exactly the answer of \<open>posix_answer\<close> or \<open>win_answer\<close>, once and with its sequence number, with two
  exceptions: the close of a known file is not answered, and with the debug channel on a write to an unknown
  handle reads through a null pointer. Every valid packet is replied to exactly once or waits in
  exactly one operation, in any interleaving; an \<open>ACTION_DIE\<close> packet is swallowed. Reads deliver the
  file, also from one machine to the other, and writes send the buffer. An open on the Amiga needs a lock
  and ignores its directory: the name is taken under the controller's root, so that opening and reading
  an absolute name, or one relative to the root, gives the file of that name. The file server
  implements an abstract table of open files on POSIX. A launch starts the ordered command and brings its
  result back, if the launcher can open \<^verbatim>\<open>dos.library\<close>. The \<^verbatim>\<open>main\<close> of the controller gets through
  and closes its sockets if the command line leaves the debug channel off. The \<^verbatim>\<open>main\<close> of the target gets through and
  releases what it holds on POSIX with one connection at a time, and on the Amiga whenever its loop returns
  and the socket library was there; the memory of the file systems and the sockets of connections
  are not counted on the Amiga. The table of open files
  keeps its type. The bounded writers, the describers and the string routines stay inside their buffers, and a move of
  overlapping memory is a copy; the conversion buffer of the formatter is overrun by \<^verbatim>\<open>%b\<close>
  of a negative number on a 64-bit host.
  Where the code does not do this, the defect is a theorem: \<open>update_pass_list\<close>,
  \<open>close_leaks_descriptor\<close>, \<open>zero_length_stalls\<close>, \<open>lost_handshake_ignored\<close>, \<open>decoders_overread\<close>,
  \<open>encode_size_check\<close>, \<open>format_binary_overruns\<close>.

  \<^bold>\<open>Errors, loops and bounds.\<close> \<open>None\<close> is undefined behaviour or not returning; error codes of
  the code are results. Theorems state that a result exists, not only that it is right.
  Loops on pointers are \<open>partial_function (option)\<close>. Event lists (\<open>peer_run\<close>,
  \<open>pump_peer_state_machine\<close>, \<open>serve\<close>) stand for what the environment does from round to round and
  are arbitrary. \<open>receive_rounds\<close> takes as many rounds as there are bytes, \<open>serve_read\<close>, \<open>serve_write\<close>
  and \<open>exchange\<close> (for a read; one answer for an open) one answer more than bytes, which their theorems show to be enough. Machine
  integers have their width; where a theorem bounds a size it is to keep an address or an offset
  from wrapping around.

  \<^bold>\<open>Not modelled.\<close> The Windows version of the target's \<^verbatim>\<open>main\<close> and the signal handlers (the
  flag they set is part of the events); assertion and abort, which end the program. The log messages of the other
  functions, which only read the state (the exceptions that matter are parameters, as \<open>debug\<close> of
  \<open>write_file_request\<close>), and the names of packet types, whose numbers are in the headers of the
  operating system. \<^verbatim>\<open>fstest.c\<close>, an abandoned draft of the
  file system that is not part of the build and does not compile (\<^verbatim>\<open>action_locate_object\<close> has an
  unfinished declaration and calls \<^verbatim>\<open>strip_absolute_device\<close> with the wrong arguments; its \<^verbatim>\<open>mount_volume\<close> and ten of its handlers are nowhere
  defined).
\<close>

section \<open>From one peer to the other\<close>

text \<open>
  Claim C1: messages survive the wire. Take any list of well-formed messages, encoded by the
  sender and cut into receive chunks at arbitrary places. However the receiver's calls fall,
  once it has run as many rounds as there are bytes its transport has delivered exactly the
  encoded messages, in order, with no error and nothing left over; and wherever such a
  message lies in memory, a receiver of either byte order decodes it to the message sent.
\<close>
theorem messages_end_to_end:
  assumes "list_all (\<lambda>m. valid_body (body m) \<and> msg_size m \<le> 32768) msgs"
    and "concat chunks = concat (map wire_msg msgs)" and "list_all (\<lambda>c. c \<noteq> []) chunks"
    and "length (concat chunks) \<le> k"
  shows "\<exists>t. receive_rounds peer_peek_incoming k (example_recorder chunks) = Some t \<and>
           delivered t = map wire_msg msgs \<and> incoming (inbuf t) = [] \<and> \<not> t_error t \<and> \<not> disconnect t \<and>
           (\<forall>m\<in>set msgs. \<forall>mem c be. mread mem c (msg_size m) = wire_msg m \<longrightarrow>
              rl_decode_msg be mem c (int (msg_size m)) = Some (m\<lparr>hdr_length := of_nat (msg_size m)\<rparr>))"
proof -
  have "deframe peer_pk 32768 (concat chunks) = (map wire_msg msgs, [], False)"
    unfolding assms(2) using assms(1) by (intro deframe_wire_msgs) (simp add: list_all_iff)
  then have "\<exists>t. receive_rounds peer_peek_incoming k (example_recorder chunks) = Some t \<and>
      delivered t = map wire_msg msgs \<and> incoming (inbuf t) = [] \<and> \<not> t_error t \<and> \<not> disconnect t"
    using assms(3,4) by (intro rounds_deliver) (simp_all add: example_recorder_def iinv_def incoming_def)
  moreover have "rl_decode_msg be mem c (int (msg_size m)) = Some (m\<lparr>hdr_length := of_nat (msg_size m)\<rparr>)"
    if "m \<in> set msgs" "mread mem c (msg_size m) = wire_msg m" for m mem c be
    using that assms(1) rl_decode_msg_wire [of m mem c "int (msg_size m)" be]
    by (auto simp: list_all_iff as_sent_def)
  ultimately show ?thesis by blast
qed

theorem messages_end_to_end_witness:
  "\<exists>t. receive_rounds peer_peek_incoming 16
         (example_recorder [take 3 (wire_msg (RL_MSG_INIT Ping_request)),
            drop 3 (wire_msg (RL_MSG_INIT Ping_request)) @ wire_msg (RL_MSG_INIT Ping_answer)]) = Some t \<and>
       delivered t = [wire_msg (RL_MSG_INIT Ping_request), wire_msg (RL_MSG_INIT Ping_answer)]"
proof -
  let ?a = "RL_MSG_INIT Ping_request" and ?b = "RL_MSG_INIT Ping_answer"
  have s: "msg_size ?a = 8" "msg_size ?b = 8" "valid_body (body ?a)" "valid_body (body ?b)" by code_simp+
  have len: "length (wire_msg ?a) = 8" "length (wire_msg ?b) = 8" using s(1,2) by simp_all
  let ?cs = "[take 3 (wire_msg ?a), drop 3 (wire_msg ?a) @ wire_msg ?b]"
  have "list_all (\<lambda>m. valid_body (body m) \<and> msg_size m \<le> 32768) [?a, ?b]" using s by simp
  moreover have "concat ?cs = concat (map wire_msg [?a, ?b])"
    using append_take_drop_id [of 3 "wire_msg ?a"] by (simp only: concat.simps list.map append_Nil2 append_assoc [symmetric])
  moreover have "take 3 (wire_msg ?a) \<noteq> []" "drop 3 (wire_msg ?a) \<noteq> []"
    using len by (auto simp del: length_wire_msg)
  then have "list_all (\<lambda>c. c \<noteq> []) ?cs" by simp
  moreover have "length (concat ?cs) \<le> 16" unfolding calculation(2) using len by simp
  ultimately show ?thesis using messages_end_to_end by fastforce
qed

end
